(* ===== verification/Prelude.thy ===== *)
theory Prelude
  imports Main "HOL-Library.Word" "HOL-Library.Monad_Syntax"
begin

text \<open>
  Shared vocabulary of the development: the integer types of \<^verbatim>\<open>libevmjit/Type.cpp\<close>, the LLVM
  instructions that the code emits through \<^verbatim>\<open>IRBuilder\<close>, the outcome of running emitted code, and
  the lemmas on words and lists the component theories share.

  An SSA value of the emitted code is an \<open>'a pv\<close>: \<open>Some w\<close> is a defined value and \<open>None\<close> is
  LLVM's poison, which an instruction with a \<^verbatim>\<open>nuw\<close> or \<^verbatim>\<open>nsw\<close> flag yields when the flag's promise is
  broken.  \<^verbatim>\<open>select\<close> looks only at the arm it chooses, so poison in the other arm is harmless; every
  other instruction passes poison on.  Branching on poison, or storing it, is undefined behaviour,
  the outcome \<open>Undefined\<close>.
\<close>

unbundle bit_operations_syntax

section \<open>Types and outcomes\<close>

type_synonym byte = "8 word"
type_synonym word256 = "256 word"
type_synonym word512 = "512 word"
type_synonym i64 = "64 word"
type_synonym 'a pv = "'a option"

named_theorems ir_simps \<open>unfolding of the emitted LLVM instructions on defined operands\<close>
named_theorems evm_simps \<open>evaluation rules for the components' operations\<close>

datatype 'a outcome =
    Done 'a      \<comment> \<open>the code ran to its end\<close>
  | LongJmp      \<comment> \<open>control left through \<^verbatim>\<open>llvm.eh.sjlj.longjmp\<close>, i.e. the main function's Abort block\<close>
  | Undefined    \<comment> \<open>LLVM gives the run no meaning\<close>

fun obind :: "'a outcome \<Rightarrow> ('a \<Rightarrow> 'b outcome) \<Rightarrow> 'b outcome" where
  "obind (Done x) f = f x"
| "obind LongJmp f = LongJmp"
| "obind Undefined f = Undefined"

lemma obind_assoc: "obind (obind m f) g = obind m (\<lambda>x. obind (f x) g)"
  by (cases m) simp_all

lemma obind_Done_right [simp]: "obind m Done = m"
  by (cases m) simp_all

lemma obind_eq_Done_iff: "obind m f = Done y \<longleftrightarrow> (\<exists>x. m = Done x \<and> f x = Done y)"
  by (cases m) simp_all

lemma obind_neq_Undefined:
  "m \<noteq> Undefined \<Longrightarrow> (\<And>x. m = Done x \<Longrightarrow> f x \<noteq> Undefined) \<Longrightarrow> obind m f \<noteq> Undefined"
  by (cases m) simp_all

lemma obind_cong: "m = m' \<Longrightarrow> (\<And>x. m' = Done x \<Longrightarrow> f x = g x) \<Longrightarrow> obind m f = obind m' g"
  by (cases m') simp_all

text \<open>Using an SSA value where poison is undefined behaviour: a branch condition, a stored value,
  an argument of an external call.\<close>

definition use :: "'a pv \<Rightarrow> ('a \<Rightarrow> 'b outcome) \<Rightarrow> 'b outcome" where
  "use v f = (case v of None \<Rightarrow> Undefined | Some x \<Rightarrow> f x)"

lemma use_Some [simp]: "use (Some x) f = f x"
  by (simp add: use_def)

lemma use_None [simp]: "use None f = Undefined"
  by (simp add: use_def)

section \<open>The emitted instructions\<close>

definition lift2 :: "('a \<Rightarrow> 'b \<Rightarrow> 'c) \<Rightarrow> 'a pv \<Rightarrow> 'b pv \<Rightarrow> 'c pv" where
  "lift2 f a b = (case (a, b) of (Some x, Some y) \<Rightarrow> Some (f x y) | _ \<Rightarrow> None)"

definition guarded2 :: "('a \<Rightarrow> 'b \<Rightarrow> bool) \<Rightarrow> ('a \<Rightarrow> 'b \<Rightarrow> 'c) \<Rightarrow> 'a pv \<Rightarrow> 'b pv \<Rightarrow> 'c pv" where
  "guarded2 ok f a b = (case (a, b) of (Some x, Some y) \<Rightarrow> if ok x y then Some (f x y) else None | _ \<Rightarrow> None)"

lemma lift2_Some [simp]: "lift2 f (Some x) (Some y) = Some (f x y)"
  by (simp add: lift2_def)

lemma guarded2_Some [simp]: "guarded2 ok f (Some x) (Some y) = (if ok x y then Some (f x y) else None)"
  by (simp add: guarded2_def)

text \<open>Wrapping arithmetic, bitwise operations and comparisons.\<close>

definition ir_add :: "'a::len word pv \<Rightarrow> 'a word pv \<Rightarrow> 'a word pv" where [ir_simps]: "ir_add = lift2 (+)"
definition ir_sub :: "'a::len word pv \<Rightarrow> 'a word pv \<Rightarrow> 'a word pv" where [ir_simps]: "ir_sub = lift2 (-)"
definition ir_mul :: "'a::len word pv \<Rightarrow> 'a word pv \<Rightarrow> 'a word pv" where [ir_simps]: "ir_mul = lift2 (*)"
definition ir_and :: "'a::len word pv \<Rightarrow> 'a word pv \<Rightarrow> 'a word pv" where [ir_simps]: "ir_and = lift2 (AND)"
definition ir_or :: "'a::len word pv \<Rightarrow> 'a word pv \<Rightarrow> 'a word pv" where [ir_simps]: "ir_or = lift2 (OR)"
definition ir_band :: "bool pv \<Rightarrow> bool pv \<Rightarrow> bool pv" where [ir_simps]: "ir_band = lift2 (\<and>)"
definition ir_bor :: "bool pv \<Rightarrow> bool pv \<Rightarrow> bool pv" where [ir_simps]: "ir_bor = lift2 (\<or>)"
definition ir_ule :: "'a::len word pv \<Rightarrow> 'a word pv \<Rightarrow> bool pv" where [ir_simps]: "ir_ule = lift2 (\<le>)"
definition ir_ult :: "'a::len word pv \<Rightarrow> 'a word pv \<Rightarrow> bool pv" where [ir_simps]: "ir_ult = lift2 (<)"
definition ir_ugt :: "'a::len word pv \<Rightarrow> 'a word pv \<Rightarrow> bool pv" where [ir_simps]: "ir_ugt = lift2 (>)"
definition ir_uge :: "'a::len word pv \<Rightarrow> 'a word pv \<Rightarrow> bool pv" where [ir_simps]: "ir_uge = lift2 (\<ge>)"
definition ir_sge :: "'a::len word pv \<Rightarrow> 'a word pv \<Rightarrow> bool pv" where
  [ir_simps]: "ir_sge = lift2 (\<lambda>a b. sint b \<le> sint a)"
definition ir_eq :: "'a::len word pv \<Rightarrow> 'a word pv \<Rightarrow> bool pv" where [ir_simps]: "ir_eq = lift2 (=)"
definition ir_ne :: "'a::len word pv \<Rightarrow> 'a word pv \<Rightarrow> bool pv" where [ir_simps]: "ir_ne = lift2 (\<noteq>)"

text \<open>Flagged arithmetic: \<^verbatim>\<open>nuw\<close> promises no unsigned wrap, \<^verbatim>\<open>nsw\<close> no signed wrap.\<close>

definition ir_nuw_add :: "'a::len word pv \<Rightarrow> 'a word pv \<Rightarrow> 'a word pv" where
  [ir_simps]: "ir_nuw_add = guarded2 (\<lambda>a b. unat a + unat b < 2 ^ LENGTH('a)) (+)"
definition ir_nuw_sub :: "'a::len word pv \<Rightarrow> 'a word pv \<Rightarrow> 'a word pv" where
  [ir_simps]: "ir_nuw_sub = guarded2 (\<lambda>a b. b \<le> a) (-)"
definition ir_nuw_mul :: "'a::len word pv \<Rightarrow> 'a word pv \<Rightarrow> 'a word pv" where
  [ir_simps]: "ir_nuw_mul = guarded2 (\<lambda>a b. unat a * unat b < 2 ^ LENGTH('a)) (*)"
definition in_sint :: "'a::len itself \<Rightarrow> int \<Rightarrow> bool" where
  "in_sint _ k \<longleftrightarrow> - (2 ^ (LENGTH('a) - 1)) \<le> k \<and> k < 2 ^ (LENGTH('a) - 1)"
definition ir_nsw_add :: "'a::len word pv \<Rightarrow> 'a word pv \<Rightarrow> 'a word pv" where
  [ir_simps]: "ir_nsw_add = guarded2 (\<lambda>a b. in_sint TYPE('a) (sint a + sint b)) (+)"
definition ir_nsw_sub :: "'a::len word pv \<Rightarrow> 'a word pv \<Rightarrow> 'a word pv" where
  [ir_simps]: "ir_nsw_sub = guarded2 (\<lambda>a b. in_sint TYPE('a) (sint a - sint b)) (-)"
definition ir_nuw_nsw_add :: "'a::len word pv \<Rightarrow> 'a word pv \<Rightarrow> 'a word pv" where
  [ir_simps]: "ir_nuw_nsw_add =
     guarded2 (\<lambda>a b. unat a + unat b < 2 ^ LENGTH('a) \<and> in_sint TYPE('a) (sint a + sint b)) (+)"
definition ir_nuw_nsw_sub :: "'a::len word pv \<Rightarrow> 'a word pv \<Rightarrow> 'a word pv" where
  [ir_simps]: "ir_nuw_nsw_sub =
     guarded2 (\<lambda>a b. b \<le> a \<and> in_sint TYPE('a) (sint a - sint b)) (-)"

text \<open>Shifts by a constant, unsigned division by a non-zero constant, width changes, \<^verbatim>\<open>select\<close>.\<close>

definition ir_lshr :: "'a::len word pv \<Rightarrow> nat \<Rightarrow> 'a word pv" where [ir_simps]: "ir_lshr v n = map_option (drop_bit n) v"
definition ir_shl :: "'a::len word pv \<Rightarrow> nat \<Rightarrow> 'a word pv" where [ir_simps]: "ir_shl v n = map_option (push_bit n) v"
definition ir_udivc :: "'a::len word pv \<Rightarrow> 'a word \<Rightarrow> 'a word pv" where [ir_simps]: "ir_udivc v c = map_option (\<lambda>x. x div c) v"
definition ir_trunc :: "'a::len word pv \<Rightarrow> 'b::len word pv" where [ir_simps]: "ir_trunc = map_option ucast"
definition ir_zext :: "'a::len word pv \<Rightarrow> 'b::len word pv" where [ir_simps]: "ir_zext = map_option ucast"

definition ir_select :: "bool pv \<Rightarrow> 'a pv \<Rightarrow> 'a pv \<Rightarrow> 'a pv" where
  "ir_select c a b = (case c of None \<Rightarrow> None | Some t \<Rightarrow> if t then a else b)"

lemma ir_select_Some [simp, ir_simps]: "ir_select (Some t) a b = (if t then a else b)"
  by (simp add: ir_select_def)

section \<open>Lemmas on words\<close>

lemma unat_add_no_wrap: "unat a + unat b < 2 ^ LENGTH('a) \<Longrightarrow> unat (a + b) = unat a + unat b"
  for a b :: "'a::len word"
  by (simp add: unat_word_ariths)

lemma unat_mul_no_wrap: "unat a * unat b < 2 ^ LENGTH('a) \<Longrightarrow> unat (a * b) = unat a * unat b"
  for a b :: "'a::len word"
  by (simp add: unat_word_ariths)

lemma unat_sub_no_wrap: "b \<le> a \<Longrightarrow> unat (a - b) = unat a - unat b"
  for a b :: "'a::len word"
  by (rule unat_sub)

lemma unat_lt_exp: "unat w < 2 ^ LENGTH('a)"
  for w :: "'a::len word"
  by (rule unsigned_less)

lemma unat_drop_bit: "unat (drop_bit n w) = unat w div 2 ^ n"
  for w :: "'a::len word"
  by (subst unat_drop_bit_eq) (simp add: drop_bit_eq_div)

lemma unat_push_bit_no_wrap:
  "unat w * 2 ^ n < 2 ^ LENGTH('a) \<Longrightarrow> unat (push_bit n w) = unat w * 2 ^ n"
  for w :: "'a::len word"
  by (subst unsigned_push_bit_eq) (simp add: push_bit_eq_mult take_bit_nat_eq_self)

lemma unat_ucast_small: "unat w < 2 ^ LENGTH('b) \<Longrightarrow> unat (ucast w :: 'b::len word) = unat w"
  for w :: "'a::len word"
  by (simp add: unsigned_ucast_eq take_bit_nat_eq_self)

lemma unat_ucast_up: "LENGTH('a) \<le> LENGTH('b) \<Longrightarrow> unat (ucast w :: 'b::len word) = unat w"
  for w :: "'a::len word"
  by (rule unat_ucast_small) (rule less_le_trans [OF unat_lt_exp], simp)

lemma sint_eq_unat_nonneg:
  fixes w :: "'a::len word"
  assumes "0 \<le> sint w"
  shows "sint w = int (unat w)"
proof -
  have "sint w < 2 ^ (LENGTH('a) - 1)" by (rule sint_lt)
  also have "\<dots> \<le> 2 ^ LENGTH('a)" by simp
  finally have "take_bit LENGTH('a) (sint w) = sint w"
    using assms by (simp add: take_bit_int_eq_self)
  then show ?thesis by (simp add: uint_sint [symmetric] uint_nat [symmetric])
qed

lemma unat_of_nat_small: "n < 2 ^ LENGTH('a) \<Longrightarrow> unat (of_nat n :: 'a::len word) = n"
  by (simp add: unat_of_nat)

lemma uint_less_of_unat: "unat w < n \<Longrightarrow> uint w < int n"
  for w :: "'a::len word"
  using of_nat_less_iff [of "unat w" n, where 'a = int] by simp

lemma sint_eq_0_iff [simp]: "sint w = 0 \<longleftrightarrow> w = 0"
  for w :: "'a::len word"
  by (metis of_int_0 of_int_sint scast_id sint_0)

lemma word_eq_by_unat: "unat a = unat b \<Longrightarrow> a = b"
  for a b :: "'a::len word"
  by (simp add: word_unat_eq_iff)

end
