(* ===== verification/Instruction.thy ===== *)
theory Instruction
  imports Prelude
begin

text \<open>
  The EVM opcodes, \<^verbatim>\<open>enum class Instruction\<close> of \<^verbatim>\<open>libevmjit/Instruction.h\<close>.
  The families \<^verbatim>\<open>PUSH1..PUSH32\<close>, \<^verbatim>\<open>DUP1..DUP16\<close>, \<^verbatim>\<open>SWAP1..SWAP16\<close>, \<^verbatim>\<open>LOG0..LOG4\<close> are one constructor
  each, indexed by the number in the name; the constructors whose source name is an operator of
  the logic end in \<open>_i\<close>.  \<open>opcode\<close> gives the enumerator's value and \<open>Instruction_of\<close> is the cast
  \<^verbatim>\<open>Instruction(*it)\<close>: \<open>None\<close> for the byte values that no enumerator names, which the \<^verbatim>\<open>switch\<close>
  statements send to their \<^verbatim>\<open>default\<close> label.
\<close>

datatype (plugins only: code size) instruction =
    STOP | ADD | MUL | SUB | DIV | SDIV | MOD | SMOD | ADDMOD | MULMOD | EXP | SIGNEXTEND
  | LT | GT | SLT | SGT | EQ | ISZERO | AND_i | OR_i | XOR_i | NOT_i | BYTE
  | SHA3
  | ADDRESS | BALANCE | ORIGIN | CALLER | CALLVALUE | CALLDATALOAD | CALLDATASIZE | CALLDATACOPY
  | CODESIZE | CODECOPY | GASPRICE | EXTCODESIZE | EXTCODECOPY | RETURNDATASIZE | RETURNDATACOPY
  | BLOCKHASH | COINBASE | TIMESTAMP | NUMBER | DIFFICULTY | GASLIMIT
  | POP | MLOAD | MSTORE | MSTORE8 | SLOAD | SSTORE | JUMP | JUMPI | PC | MSIZE | GAS | JUMPDEST
  | PUSH nat | DUP nat | SWAP nat | LOG nat
  | CREATE | CALL | CALLCODE | RETURN | DELEGATECALL | STATICCALL | REVERT | SUICIDE

text \<open>The value of each enumerator, written out where the declaration counts up from the one before.\<close>

primrec opcode :: "instruction \<Rightarrow> nat" where
  "opcode STOP = 0x00"
| "opcode ADD = 0x01"
| "opcode MUL = 0x02"
| "opcode SUB = 0x03"
| "opcode DIV = 0x04"
| "opcode SDIV = 0x05"
| "opcode MOD = 0x06"
| "opcode SMOD = 0x07"
| "opcode ADDMOD = 0x08"
| "opcode MULMOD = 0x09"
| "opcode EXP = 0x0a"
| "opcode SIGNEXTEND = 0x0b"
| "opcode LT = 0x10"
| "opcode GT = 0x11"
| "opcode SLT = 0x12"
| "opcode SGT = 0x13"
| "opcode EQ = 0x14"
| "opcode ISZERO = 0x15"
| "opcode AND_i = 0x16"
| "opcode OR_i = 0x17"
| "opcode XOR_i = 0x18"
| "opcode NOT_i = 0x19"
| "opcode BYTE = 0x1a"
| "opcode SHA3 = 0x20"
| "opcode ADDRESS = 0x30"
| "opcode BALANCE = 0x31"
| "opcode ORIGIN = 0x32"
| "opcode CALLER = 0x33"
| "opcode CALLVALUE = 0x34"
| "opcode CALLDATALOAD = 0x35"
| "opcode CALLDATASIZE = 0x36"
| "opcode CALLDATACOPY = 0x37"
| "opcode CODESIZE = 0x38"
| "opcode CODECOPY = 0x39"
| "opcode GASPRICE = 0x3a"
| "opcode EXTCODESIZE = 0x3b"
| "opcode EXTCODECOPY = 0x3c"
| "opcode RETURNDATASIZE = 0x3d"
| "opcode RETURNDATACOPY = 0x3e"
| "opcode BLOCKHASH = 0x40"
| "opcode COINBASE = 0x41"
| "opcode TIMESTAMP = 0x42"
| "opcode NUMBER = 0x43"
| "opcode DIFFICULTY = 0x44"
| "opcode GASLIMIT = 0x45"
| "opcode POP = 0x50"
| "opcode MLOAD = 0x51"
| "opcode MSTORE = 0x52"
| "opcode MSTORE8 = 0x53"
| "opcode SLOAD = 0x54"
| "opcode SSTORE = 0x55"
| "opcode JUMP = 0x56"
| "opcode JUMPI = 0x57"
| "opcode PC = 0x58"
| "opcode MSIZE = 0x59"
| "opcode GAS = 0x5a"
| "opcode JUMPDEST = 0x5b"
| "opcode (PUSH n) = 0x5f + n"
| "opcode (DUP n) = 0x7f + n"
| "opcode (SWAP n) = 0x8f + n"
| "opcode (LOG n) = 0xa0 + n"
| "opcode CREATE = 0xf0"
| "opcode CALL = 0xf1"
| "opcode CALLCODE = 0xf2"
| "opcode RETURN = 0xf3"
| "opcode DELEGATECALL = 0xf4"
| "opcode STATICCALL = 0xfa"
| "opcode REVERT = 0xfd"
| "opcode SUICIDE = 0xff"

text \<open>All enumerators, in the order of the declaration, which is the order of their values.\<close>

definition enumerators :: "instruction list" where
  "enumerators =
     [STOP, ADD, MUL, SUB, DIV, SDIV, MOD, SMOD, ADDMOD, MULMOD, EXP, SIGNEXTEND, LT, GT, SLT,
      SGT, EQ, ISZERO, AND_i, OR_i, XOR_i, NOT_i, BYTE, SHA3, ADDRESS, BALANCE, ORIGIN, CALLER,
      CALLVALUE, CALLDATALOAD, CALLDATASIZE, CALLDATACOPY, CODESIZE, CODECOPY, GASPRICE,
      EXTCODESIZE, EXTCODECOPY, RETURNDATASIZE, RETURNDATACOPY, BLOCKHASH, COINBASE, TIMESTAMP,
      NUMBER, DIFFICULTY, GASLIMIT, POP, MLOAD, MSTORE, MSTORE8, SLOAD, SSTORE, JUMP, JUMPI, PC,
      MSIZE, GAS, JUMPDEST]
     @ map PUSH [1..<33] @ map DUP [1..<17] @ map SWAP [1..<17] @ map LOG [0..<5]
     @ [CREATE, CALL, CALLCODE, RETURN, DELEGATECALL, STATICCALL, REVERT, SUICIDE]"

definition Instruction_of :: "byte \<Rightarrow> instruction option" where
  "Instruction_of b = find (\<lambda>i. opcode i = unat b) enumerators"

text \<open>The constructors with an index that the enumeration does not have are not instructions.\<close>

definition valid_instruction :: "instruction \<Rightarrow> bool" where
  "valid_instruction i = (case i of PUSH n \<Rightarrow> 1 \<le> n \<and> n \<le> 32 | DUP n \<Rightarrow> 1 \<le> n \<and> n \<le> 16
     | SWAP n \<Rightarrow> 1 \<le> n \<and> n \<le> 16 | LOG n \<Rightarrow> n \<le> 4 | _ \<Rightarrow> True)"

lemma opcodes_increase: "sorted_wrt (<) (map opcode enumerators)"
  by (simp add: enumerators_def upt_rec_numeral sorted_wrt1 sorted_wrt2 upt_conv_Cons del: sorted_wrt.simps)

lemma distinct_opcodes: "distinct (map opcode enumerators)"
  using opcodes_increase by (simp add: strict_sorted_iff)

lemma set_enumerators: "i \<in> set enumerators \<longleftrightarrow> valid_instruction i"
  by (cases i) (auto simp: enumerators_def valid_instruction_def)

lemma opcode_bounded: "valid_instruction i \<Longrightarrow> opcode i < 256"
  by (cases i) (simp_all add: valid_instruction_def)

lemma Instruction_of_eq_Some_iff:
  "Instruction_of b = Some i \<longleftrightarrow> valid_instruction i \<and> opcode i = unat b"
proof
  assume "Instruction_of b = Some i"
  then have "i \<in> set enumerators" "opcode i = unat b"
    by (auto simp: Instruction_of_def find_Some_iff)
  then show "valid_instruction i \<and> opcode i = unat b"
    by (simp add: set_enumerators)
next
  assume R: "valid_instruction i \<and> opcode i = unat b"
  then have "i \<in> set enumerators" by (simp add: set_enumerators)
  with R obtain j where j: "Instruction_of b = Some j"
    by (cases "Instruction_of b") (auto simp: Instruction_of_def find_None_iff)
  then have "j \<in> set enumerators" "opcode j = opcode i"
    using R by (auto simp: Instruction_of_def find_Some_iff)
  then have "j = i"
    using distinct_opcodes \<open>i \<in> set enumerators\<close> by (simp add: distinct_map inj_on_def)
  with j show "Instruction_of b = Some i" by simp
qed

lemma Instruction_of_opcode:
  assumes "valid_instruction i"
  shows "Instruction_of (of_nat (opcode i)) = Some i"
  using assms opcode_bounded [OF assms]
  by (simp add: Instruction_of_eq_Some_iff unat_of_nat)

end
