(* ===== verification/PushData.thy ===== *)
theory PushData
  imports Instruction
begin

text \<open>
  Reading and skipping PUSH data: \<^verbatim>\<open>readPushData\<close> and \<^verbatim>\<open>skipPushData\<close> of
  \<^verbatim>\<open>libevmjit/Instruction.cpp\<close>.  Iterators are indices into the code.
\<close>


definition is_push :: "byte \<Rightarrow> bool" where
  "is_push b \<longleftrightarrow> 0x60 \<le> unat b \<and> unat b \<le> 0x7f"

definition push_size :: "byte \<Rightarrow> nat" where
  "push_size b = unat b - 0x60 + 1"

text \<open>
  \<^verbatim>\<open>readPushData\<close>: iterators are indices into the code, \<open>e\<close> is \<^verbatim>\<open>_end\<close>.  The loop keeps the 256-bit
  accumulator and the iterator; the final \<^verbatim>\<open>--_curr\<close> leaves it on the last byte read.
\<close>

fun readPushData_loop :: "byte list \<Rightarrow> nat \<Rightarrow> nat \<Rightarrow> nat \<Rightarrow> word256 \<Rightarrow> word256 \<times> nat" where
  "readPushData_loop code e 0 cur value = (value, cur)"
| "readPushData_loop code e (Suc n) cur value =
     (let (b, cur') = (if cur \<noteq> e then (code ! cur, cur + 1) else (0, cur))
      in readPushData_loop code e n cur' (push_bit 8 value OR ucast b))"

definition readPushData :: "byte list \<Rightarrow> nat \<Rightarrow> nat \<Rightarrow> word256 \<times> nat" where
  "readPushData code cur e =
     (let numBytes = push_size (code ! cur);
          (value, cur') = readPushData_loop code e numBytes (cur + 1) 0
      in (value, cur' - 1))"

text \<open>\<^verbatim>\<open>skipPushData\<close>: \<^verbatim>\<open>--_end\<close>, then advance at most \<^verbatim>\<open>numBytes\<close> times while \<^verbatim>\<open>_curr < _end\<close>.\<close>

fun skipPushData_loop :: "nat \<Rightarrow> nat \<Rightarrow> nat \<Rightarrow> nat" where
  "skipPushData_loop e 0 cur = cur"
| "skipPushData_loop e (Suc n) cur = (if cur < e then skipPushData_loop e n (cur + 1) else cur)"

definition skipPushData :: "byte list \<Rightarrow> nat \<Rightarrow> nat \<Rightarrow> nat" where
  "skipPushData code cur e = skipPushData_loop (e - 1) (push_size (code ! cur)) cur"

lemma skipPushData_loop_eq: "cur \<le> e \<Longrightarrow> skipPushData_loop e n cur = min (cur + n) e"
  by (induction n arbitrary: cur) auto

text \<open>The value read is the big-endian number of the data bytes, zero bytes standing for what lies
  past the end.\<close>

definition push_bytes :: "byte list \<Rightarrow> nat \<Rightarrow> nat \<Rightarrow> nat \<Rightarrow> byte list" where
  "push_bytes code e n cur = map (\<lambda>k. if cur + k < e then code ! (cur + k) else 0) [0..<n]"

fun be_value :: "byte list \<Rightarrow> nat" where
  "be_value [] = 0"
| "be_value (b # bs) = unat b * 256 ^ length bs + be_value bs"

lemma be_value_less: "be_value bs < 256 ^ length bs"
proof (induction bs)
  case (Cons b bs)
  have "unat b * 256 ^ length bs + be_value bs < (unat b + 1) * 256 ^ length bs"
    using Cons.IH by simp
  also have "\<dots> \<le> 256 * 256 ^ length bs"
    using unat_lt_exp [of b] by (intro mult_le_mono1) simp
  finally show ?case by simp
qed simp

lemma be_value_append: "be_value (xs @ ys) = be_value xs * 256 ^ length ys + be_value ys"
  by (induction xs) (simp_all add: power_add algebra_simps)

lemma push_bytes_Suc:
  "push_bytes code e (Suc n) cur =
     (if cur < e then code ! cur else 0) # push_bytes code e n (cur + 1)"
  by (simp add: push_bytes_def upt_conv_Cons map_Suc_upt [symmetric] del: upt_Suc)

lemma length_push_bytes [simp]: "length (push_bytes code e n cur) = n"
  by (simp add: push_bytes_def)

lemma push_bytes_past: "push_bytes code e n (e + k) = replicate n 0"
  by (rule nth_equalityI) (simp_all add: push_bytes_def)

lemma be_value_replicate_0 [simp]: "be_value (replicate n 0) = 0"
  by (induction n) simp_all

lemma shift_or_byte: "push_bit 8 v OR ucast b = v * 256 + ucast b"
  for v :: word256 and b :: byte
proof -
  have "push_bit 8 v AND ucast b = (0 :: word256)"
    by (rule bit_eqI) (auto simp: bit_simps dest: bit_imp_le_length)
  then have "push_bit 8 v + ucast b = push_bit 8 v OR (ucast b :: word256)"
    by (rule disjunctive_add_eq_or)
  then show ?thesis by (simp add: push_bit_eq_mult mult.commute)
qed

lemma readPushData_loop_eq:
  "cur \<le> e \<Longrightarrow> readPushData_loop code e n cur v =
     (v * 256 ^ n + of_nat (be_value (push_bytes code e n cur)), min (cur + n) e)"
proof (induction n arbitrary: cur v)
  case 0
  then show ?case by (simp add: push_bytes_def)
next
  case (Suc n)
  show ?case
  proof (cases "cur = e")
    case True
    have past: "push_bytes code e n e = replicate n 0" "push_bytes code e (Suc n) e = replicate (Suc n) 0"
      using push_bytes_past [of code e _ 0] by simp_all
    have "readPushData_loop code e n e (v * 256) = (v * 256 * 256 ^ n, e)"
      using Suc.IH [of e "v * 256"] by (simp add: past)
    then show ?thesis
      unfolding True past using shift_or_byte [of v 0] by (simp add: mult.assoc)
  next
    case False
    with Suc.prems have "cur < e" by simp
    then show ?thesis
      using Suc.IH [of "cur + 1" "v * 256 + ucast (code ! cur)"]
      by (simp add: shift_or_byte push_bytes_Suc ring_distribs mult.assoc)
  qed
qed

lemma readPushData_eq:
  assumes "is_push (code ! cur)" "cur < e"
  shows "readPushData code cur e =
    (of_nat (be_value (push_bytes code e (push_size (code ! cur)) (cur + 1))),
     min (cur + push_size (code ! cur)) (e - 1))"
  using assms by (auto simp: readPushData_def readPushData_loop_eq Let_def push_size_def)

lemma push_size_bounds: "is_push b \<Longrightarrow> 1 \<le> push_size b \<and> push_size b \<le> 32"
  by (auto simp: is_push_def push_size_def)

lemma push_value_fits: "is_push b \<Longrightarrow> be_value (push_bytes code e (push_size b) p) < 2 ^ 256"
proof -
  assume "is_push b"
  then have "(256::nat) ^ push_size b \<le> 256 ^ 32"
    using push_size_bounds by (intro power_increasing) auto
  then show ?thesis
    using be_value_less [of "push_bytes code e (push_size b) p"] by simp
qed

lemma skipPushData_eq:
  "cur < e \<Longrightarrow> skipPushData code cur e = min (cur + push_size (code ! cur)) (e - 1)"
  by (simp add: skipPushData_def skipPushData_loop_eq)

section \<open>Properties\<close>

text \<open>
  C24. \<^verbatim>\<open>readPushData\<close> returns the big-endian number of the data bytes, bytes past the end of the code
  counting as zero and none of the up to 32 bytes being lost, and leaves the iterator on the last
  byte of the instruction that exists; \<^verbatim>\<open>skipPushData\<close> leaves it at the same place.
\<close>

theorem push_data_is_big_endian:
  assumes "is_push (code ! cur)" "cur < e"
  shows "unat (fst (readPushData code cur e)) =
      be_value (push_bytes code e (push_size (code ! cur)) (cur + 1)) \<and>
    snd (readPushData code cur e) = min (cur + push_size (code ! cur)) (e - 1) \<and>
    snd (readPushData code cur e) = skipPushData code cur e"
  using assms push_value_fits [OF assms(1), of code e "cur + 1"]
  by (simp add: readPushData_eq skipPushData_eq unat_of_nat_small)

theorem push_data_is_big_endian_witness:
  "unat (fst (readPushData [0x62, 1, 2] 0 3)) = 0x010200"
  using push_data_is_big_endian [of "[0x62, 1, 2]" 0 3]
  by (simp add: is_push_def push_size_def push_bytes_def upt_rec)

end
