(* ===== verification/Bytes.thy ===== *)
theory Bytes
  imports PushData
begin

text \<open>
  Byte images of words and \<^verbatim>\<open>libevmjit/Endianness.cpp\<close>.  The EVM is big-endian; the JIT runs on
  either byte order, so the model carries the host's order as the flag \<open>le\<close>
  (\<^verbatim>\<open>llvm::sys::IsLittleEndianHost\<close>) and \<open>toBE\<close>, \<open>toNative\<close> swap bytes exactly when it is set.
\<close>

section \<open>Words and byte lists\<close>

definition to_le :: "'a::len word \<Rightarrow> byte list" where
  "to_le w = map (\<lambda>i. ucast (drop_bit (8 * i) w)) [0..<LENGTH('a) div 8]"

definition to_be :: "'a::len word \<Rightarrow> byte list" where
  "to_be w = rev (to_le w)"

definition of_be :: "byte list \<Rightarrow> 'a::len word" where
  "of_be bs = of_nat (be_value bs)"

definition of_le :: "byte list \<Rightarrow> 'a::len word" where
  "of_le bs = of_be (rev bs)"

lemma length_to_le [simp]: "length (to_le (w :: 'a::len word)) = LENGTH('a) div 8"
  by (simp add: to_le_def)

lemma length_to_be [simp]: "length (to_be (w :: 'a::len word)) = LENGTH('a) div 8"
  by (simp add: to_be_def)

lemma to_le_nth: "i < LENGTH('a) div 8 \<Longrightarrow> to_le (w :: 'a::len word) ! i = ucast (drop_bit (8 * i) w)"
  by (simp add: to_le_def)

lemma unat_byte_of: "unat (ucast (drop_bit (8 * i) w) :: byte) = (unat w div 256 ^ i) mod 256"
  for w :: "'a::len word"
  by (simp add: unsigned_ucast_eq unat_drop_bit take_bit_eq_mod power_mult)

text \<open>The little-endian digits of a number, and the number back from them.\<close>

lemma be_value_digits: "be_value (rev (map (\<lambda>i. of_nat (n div 256 ^ i mod 256)) [0..<k])) = n mod 256 ^ k"
proof (induction k)
  case (Suc k)
  have "n mod 256 ^ Suc k = n div 256 ^ k mod 256 * 256 ^ k + n mod 256 ^ k"
    by (metis mod_mult2_eq power_Suc2 mult.commute)
  then show ?case
    using Suc.IH by (simp add: unat_of_nat)
qed simp

lemma to_le_digits: "to_le w = map (\<lambda>i. of_nat (unat w div 256 ^ i mod 256)) [0..<LENGTH('a) div 8]"
  for w :: "'a::len word"
  by (simp add: to_le_def word_eq_by_unat unat_byte_of unat_of_nat)

lemma exp_256: "(256::nat) ^ k = 2 ^ (8 * k)"
  by (simp add: power_mult)

lemma exp_256_bytes: "8 dvd n \<Longrightarrow> (256::nat) ^ (n div 8) = 2 ^ n"
  by (simp add: exp_256)

lemma be_value_to_be:
  assumes "8 dvd LENGTH('a)"
  shows "be_value (to_be (w :: 'a::len word)) = unat w"
  using unat_lt_exp [of w] by (simp add: to_be_def to_le_digits be_value_digits exp_256_bytes [OF assms])

lemma of_be_to_be [simp]: "8 dvd LENGTH('a) \<Longrightarrow> of_be (to_be w) = (w :: 'a::len word)"
  by (simp add: of_be_def be_value_to_be)

lemma be_value_inj: "length xs = length ys \<Longrightarrow> be_value xs = be_value ys \<Longrightarrow> xs = ys"
proof (induction xs ys rule: list_induct2)
  case (Cons x xs y ys)
  let ?B = "256 ^ length ys :: nat"
  have eq: "unat x * ?B + be_value xs = unat y * ?B + be_value ys"
    using Cons.prems Cons.hyps by simp
  have lt: "be_value xs < ?B" "be_value ys < ?B"
    using be_value_less [of xs] be_value_less [of ys] Cons.hyps by simp_all
  have "unat x = (unat x * ?B + be_value xs) div ?B" "unat y = (unat y * ?B + be_value ys) div ?B"
    using lt by simp_all
  then have "unat x = unat y" using eq by simp
  with eq have "be_value xs = be_value ys" by simp
  with Cons.IH \<open>unat x = unat y\<close> show ?case by (simp add: word_eq_by_unat)
qed simp

lemma unat_of_be:
  assumes "8 dvd LENGTH('a)" "length bs = LENGTH('a) div 8"
  shows "unat (of_be bs :: 'a::len word) = be_value bs"
  using be_value_less [of bs] assms(2)
  by (simp add: of_be_def unat_of_nat exp_256_bytes [OF assms(1)])

lemma to_be_of_be:
  assumes "8 dvd LENGTH('a)" "length bs = LENGTH('a) div 8"
  shows "to_be (of_be bs :: 'a::len word) = bs"
  using assms by (intro be_value_inj) (simp_all add: be_value_to_be unat_of_be)

lemma to_le_of_le:
  assumes "8 dvd LENGTH('a)" "length bs = LENGTH('a) div 8"
  shows "to_le (of_le bs :: 'a::len word) = bs"
  using to_be_of_be [of "rev bs", where 'a = 'a] assms by (simp add: of_le_def to_be_def rev_swap)

section \<open>Endianness.cpp\<close>

text \<open>\<^verbatim>\<open>llvm.bswap\<close> reverses the bytes of its operand.\<close>

definition bswap :: "'a::len word \<Rightarrow> 'a word" where
  "bswap w = of_be (to_le w)"

definition bswapIfLE :: "bool \<Rightarrow> 'a::len word \<Rightarrow> 'a word" where
  "bswapIfLE le w = (if le then bswap w else w)"

definition toBE :: "bool \<Rightarrow> 'a::len word \<Rightarrow> 'a word" where
  "toBE le w = bswapIfLE le w"

definition toNative :: "bool \<Rightarrow> 'a::len word \<Rightarrow> 'a word" where
  "toNative le w = bswapIfLE le w"

text \<open>What the host puts in memory for an integer, and what it reads back.\<close>

definition host_store :: "bool \<Rightarrow> 'a::len word \<Rightarrow> byte list" where
  "host_store le w = (if le then to_le w else to_be w)"

definition host_load :: "bool \<Rightarrow> byte list \<Rightarrow> 'a::len word" where
  "host_load le bs = (if le then of_le bs else of_be bs)"

lemma length_host_store [simp]: "length (host_store le (w :: 'a::len word)) = LENGTH('a) div 8"
  by (simp add: host_store_def)

lemma to_be_bswap:
  assumes "8 dvd LENGTH('a)"
  shows "to_be (bswap w) = to_le (w :: 'a::len word)"
  unfolding bswap_def using assms by (intro to_be_of_be) simp_all

lemma to_le_bswap:
  assumes "8 dvd LENGTH('a)"
  shows "to_le (bswap w) = to_be (w :: 'a::len word)"
  using to_be_bswap [OF assms, of w] by (simp add: to_be_def rev_swap)

lemma bswap_bswap:
  assumes "8 dvd LENGTH('a)"
  shows "bswap (bswap w) = (w :: 'a::len word)"
  using assms by (simp add: bswap_def [of "bswap w"] to_le_bswap)

lemma host_store_toBE [simp]: "8 dvd LENGTH('a) \<Longrightarrow> host_store le (toBE le w) = to_be (w :: 'a::len word)"
  by (simp add: host_store_def toBE_def bswapIfLE_def to_le_bswap)

lemma toNative_host_load [simp]:
  assumes "8 dvd LENGTH('a)" "length bs = LENGTH('a) div 8"
  shows "toNative le (host_load le bs) = (of_be bs :: 'a::len word)"
  using assms by (simp add: host_load_def toNative_def bswapIfLE_def bswap_def to_le_of_le)

lemma toNative_toBE [simp]: "8 dvd LENGTH('a) \<Longrightarrow> toNative le (toBE le w) = (w :: 'a::len word)"
  by (simp add: toNative_def toBE_def bswapIfLE_def bswap_bswap)

lemma to_be_nth:
  assumes "i < LENGTH('a) div 8"
  shows "to_be (w :: 'a::len word) ! i = ucast (drop_bit (8 * (LENGTH('a) div 8 - 1 - i)) w)"
  using assms by (simp add: to_be_def rev_nth to_le_nth)

end
