(* ===== verification/Arith256.thy ===== *)
theory Arith256
  imports Bytes "HOL-Library.Signed_Division"
begin

text \<open>
  \<^verbatim>\<open>libevmjit/Arith256.cpp\<close>: the division functions the back end needs because LLVM cannot lower
  256- and 512-bit division, and exponentiation.  A \<^verbatim>\<open>\<langle>2 x i256\<rangle>\<close> result is a pair.  A \<open>None\<close> result
  means that the emitted code has no defined result.
\<close>

section \<open>ctlz\<close>

fun bit_len :: "nat \<Rightarrow> nat" where
  "bit_len n = (if n = 0 then 0 else Suc (bit_len (n div 2)))"

declare bit_len.simps [simp del]

text \<open>\<^verbatim>\<open>llvm.ctlz\<close>; with the second operand true, a zero input gives an undefined result.\<close>

definition ir_ctlz :: "'a::len word \<Rightarrow> bool \<Rightarrow> 'a word pv" where
  "ir_ctlz w zero_undef =
     (if zero_undef \<and> w = 0 then None else Some (of_nat (LENGTH('a) - bit_len (unat w))))"

text \<open>\<^verbatim>\<open>shl\<close> by an SSA value.\<close>

definition ir_shl_by :: "'a::len word \<Rightarrow> 'a word \<Rightarrow> 'a word pv" where
  "ir_shl_by w n = (if unat n < LENGTH('a) then Some (push_bit (unat n) w) else None)"

lemma bit_len_bounds: "n \<noteq> 0 \<Longrightarrow> 2 ^ (bit_len n - 1) \<le> n \<and> n < 2 ^ bit_len n \<and> 0 < bit_len n"
proof (induction n rule: bit_len.induct)
  case (1 n)
  show ?case
  proof (cases "n = 1")
    case True
    then show ?thesis by (simp add: bit_len.simps [of "Suc 0"] bit_len.simps [of 0])
  next
    case False
    with "1.prems" have half: "n div 2 \<noteq> 0" by linarith
    have len: "bit_len n = Suc (bit_len (n div 2))"
      using "1.prems" by (simp add: bit_len.simps [of n])
    have IH: "2 ^ (bit_len (n div 2) - 1) \<le> n div 2" "n div 2 < 2 ^ bit_len (n div 2)" "0 < bit_len (n div 2)"
      using "1.IH" [OF "1.prems" half] by auto
    have "2 ^ bit_len (n div 2) = 2 * (2::nat) ^ (bit_len (n div 2) - 1)"
      using IH(3) by (metis power_eq_if not_less_zero gr0_conv_Suc)
    then show ?thesis using IH(1,2) unfolding len by simp linarith
  qed
qed

lemma bit_len_le: "n < 2 ^ k \<Longrightarrow> bit_len n \<le> k"
proof (cases "n = 0")
  case False
  assume "n < 2 ^ k"
  then have "(2::nat) ^ (bit_len n - 1) < 2 ^ k" using bit_len_bounds [OF False] by linarith
  then show ?thesis by simp
qed (simp add: bit_len.simps)

lemma bit_len_mono: "m \<le> n \<Longrightarrow> bit_len m \<le> bit_len n"
  using bit_len_bounds [of n] by (cases "n = 0") (auto intro!: bit_len_le)

section \<open>createUDivRemFunc\<close>

text \<open>The "Loop" and "Continue" blocks: \<open>y r i q\<close> are the four phi nodes.\<close>

function udivrem_loop :: "'a::len word \<Rightarrow> 'a word \<Rightarrow> 'a word \<Rightarrow> 'a word \<Rightarrow> ('a word \<times> 'a word) option" where
  "udivrem_loop y r i q =
     (let rUpdate = ir_nuw_sub (Some r) (Some y);
          qUpdate = q OR 1;
          rGEy = (r \<ge> y);
          q1 = (if rGEy then qUpdate else q)
      in do {
        r1 \<leftarrow> ir_select (Some rGEy) rUpdate (Some r);
        if i = 0 then Some (q1, r1)
        else do {
          i2 \<leftarrow> ir_nuw_sub (Some i) (Some 1);
          udivrem_loop (drop_bit 1 y) r1 i2 (push_bit 1 q1)
        }
      })"
  by pat_completeness auto
termination
  by (relation "measure (\<lambda>(y, r, i, q). unat i)")
    (auto simp: ir_simps split: if_splits intro: measure_unat)

declare udivrem_loop.simps [simp del]

definition createUDivRemFunc :: "'a::len word \<Rightarrow> 'a word \<Rightarrow> ('a word \<times> 'a word) option" where
  "createUDivRemFunc x y =
     (if y \<le> x then do {
        yLz \<leftarrow> ir_ctlz y True;
        rLz \<leftarrow> ir_ctlz x True;
        i0 \<leftarrow> ir_nuw_sub (Some yLz) (Some rLz);
        y0 \<leftarrow> ir_shl_by y i0;
        udivrem_loop y0 x i0 0
      } else Some (0, x))"

definition getUDiv256Func :: "word256 \<Rightarrow> word256 \<Rightarrow> word256 option" where
  "getUDiv256Func x y = map_option fst (createUDivRemFunc x y)"

definition createURemFunc :: "'a::len word \<Rightarrow> 'a word \<Rightarrow> 'a word option" where
  "createURemFunc x y = map_option snd (createUDivRemFunc x y)"

definition getURem256Func :: "word256 \<Rightarrow> word256 \<Rightarrow> word256 option" where
  "getURem256Func = createURemFunc"

definition getURem512Func :: "word512 \<Rightarrow> word512 \<Rightarrow> word512 option" where
  "getURem512Func = createURemFunc"

text \<open>One pass of the loop on defined operands.\<close>

lemma udivrem_loop_unfold:
  "udivrem_loop y r i q =
     (let r1 = (if y \<le> r then r - y else r); q1 = (if y \<le> r then q OR 1 else q)
      in if i = 0 then Some (q1, r1) else udivrem_loop (drop_bit 1 y) r1 (i - 1) (push_bit 1 q1))"
  by (subst udivrem_loop.simps) (auto simp: ir_simps Let_def word_gt_0 unat_minus_one word_neq_0_conv [symmetric]
      linorder_not_le word_less_1)

text \<open>The loop with the divisor \<open>d\<close> shifted left by \<open>n\<close> divides what is left of the dividend and
  appends the \<open>n + 1\<close> quotient bits to \<open>q\<close>.\<close>

lemma udivrem_loop_correct:
  fixes y r i q :: "'a::len word"
  assumes "unat y = d * 2 ^ unat i" "0 < d" "unat r < 2 * unat y" "even q"
    and "unat q * 2 ^ unat i + unat r div d < 2 ^ LENGTH('a)"
  shows "udivrem_loop y r i q =
    Some (of_nat (unat q * 2 ^ unat i + unat r div d), of_nat (unat r mod d))"
  using assms
proof (induction "unat i" arbitrary: y r i q)
  case 0
  then have i: "i = 0" by (simp add: unat_eq_0)
  show ?case
  proof (cases "y \<le> r")
    case True
    then have le: "d \<le> unat r" using 0 i by (simp add: word_le_nat_alt)
    with 0 i have div: "unat r div d = 1" by (intro div_nat_eqI) simp_all
    have "q OR 1 = of_nat (unat q + 1)" using \<open>even q\<close> by (simp add: or_one_eq)
    moreover have "unat (r - y) = unat r mod d"
      using 0 i div by (simp add: unat_sub_no_wrap [OF True] modulo_nat_def)
    then have "r - y = of_nat (unat r mod d)" by (metis of_nat_unat ucast_id)
    ultimately show ?thesis using True i div by (subst udivrem_loop_unfold) simp
  next
    case False
    then have "unat r < d" using 0 i by (simp add: word_le_nat_alt)
    with False i show ?thesis by (subst udivrem_loop_unfold) simp
  qed
next
  case (Suc n)
  let ?r1 = "if y \<le> r then r - y else r" and ?q1 = "if y \<le> r then q OR 1 else q"
  from Suc.hyps(2) have nz: "i \<noteq> 0" by auto
  then have n: "unat (i - 1) = n" using Suc.hyps(2) by (simp add: unat_minus_one)
  have y: "unat y = d * 2 ^ n * 2" using Suc.prems(1) Suc.hyps(2) [symmetric] by simp
  have y': "unat (drop_bit 1 y) = d * 2 ^ n" using y by (simp add: unat_drop_bit)
  have bit: "unat ?q1 = unat q + of_bool (y \<le> r) \<and> unat ?r1 = unat r - of_bool (y \<le> r) * unat y \<and>
      (unat q + of_bool (y \<le> r)) * (2 * 2 ^ n) + unat ?r1 div d = unat q * 2 ^ unat i + unat r div d"
  proof (cases "y \<le> r")
    case True
    then have r: "unat r = (unat r - unat y) + d * (2 * 2 ^ n)" using y by (simp add: word_le_nat_alt)
    have rd: "unat r div d = (unat r - unat y) div d + 2 * 2 ^ n"
      using \<open>0 < d\<close> by (subst r) simp
    have total: "(unat q + 1) * (2 * 2 ^ n) + (unat r - unat y) div d = unat q * 2 ^ unat i + unat r div d"
      using Suc.hyps(2) [symmetric] by (simp add: rd algebra_simps)
    have "unat q + 1 \<le> (unat q + 1) * (2 * 2 ^ n)"
      using mult_le_mono2 [of 1 "2 * 2 ^ n" "unat q + 1"] by simp
    then have "unat q + 1 < 2 ^ LENGTH('a)" using total Suc.prems(5) by linarith
    then have "unat (q + 1) = unat q + 1" by (simp add: unat_word_ariths)
    then show ?thesis using True total \<open>even q\<close> unat_sub_no_wrap [OF True] by (simp add: or_one_eq)
  next
    case False
    then show ?thesis using Suc.hyps(2) [symmetric] by (simp add: algebra_simps)
  qed
  have r1: "unat ?r1 < 2 * unat (drop_bit 1 y)"
    using bit Suc.prems(3) y y' by (auto simp: word_le_nat_alt)
  have "(unat q + of_bool (y \<le> r)) * 2 * 2 ^ n + unat ?r1 div d = unat q * 2 ^ unat i + unat r div d"
    using conjunct2 [OF conjunct2 [OF bit]] by (simp only: mult.assoc)
  then have cap: "(unat q + of_bool (y \<le> r)) * 2 * 2 ^ n + unat ?r1 div d < 2 ^ LENGTH('a)"
    using Suc.prems(5) by (simp only:)
  have "(unat q + of_bool (y \<le> r)) * 2 \<le> (unat q + of_bool (y \<le> r)) * 2 * 2 ^ n" by simp
  then have "(unat q + of_bool (y \<le> r)) * 2 < 2 ^ LENGTH('a)" using cap by (rule le_less_trans [OF order_trans, OF _ le_add1])
  then have "unat ?q1 * 2 ^ 1 < 2 ^ LENGTH('a)" using bit by (simp only: power_one_right)
  then have q1: "unat (push_bit 1 ?q1) = unat ?q1 * 2"
    using unat_push_bit_no_wrap [of ?q1 1] by simp
  have "udivrem_loop (drop_bit 1 y) ?r1 (i - 1) (push_bit 1 ?q1) =
     Some (of_nat (unat (push_bit 1 ?q1) * 2 ^ unat (i - 1) + unat ?r1 div d), of_nat (unat ?r1 mod d))"
    by (rule Suc.hyps(1)) (use n y' r1 q1 bit cap \<open>0 < d\<close> in \<open>simp_all add: push_bit_eq_mult\<close>)
  moreover have "unat ?r1 mod d = unat r mod d"
  proof (cases "y \<le> r")
    case True
    then have "unat r = (unat r - unat y) + d * (2 ^ n * 2)" using y by (simp add: word_le_nat_alt)
    then have "unat r mod d = (unat r - unat y) mod d" by (metis mod_mult_self2)
    then show ?thesis using True bit by simp
  qed simp
  moreover have "unat (push_bit 1 ?q1) * 2 ^ unat (i - 1) + unat ?r1 div d = unat q * 2 ^ unat i + unat r div d"
    using bit unfolding q1 n by (metis mult.assoc)
  ultimately have "udivrem_loop (drop_bit 1 y) ?r1 (i - 1) (push_bit 1 ?q1) =
     Some (of_nat (unat q * 2 ^ unat i + unat r div d), of_nat (unat r mod d))"
    by (simp only:)
  with nz show ?case by (subst udivrem_loop_unfold) (simp only: Let_def if_False)
qed

lemma ctlz_no_wrap: "unat (of_nat (LENGTH('a) - k) :: 'a::len word) = LENGTH('a) - k"
  by (simp add: unat_of_nat) (rule mod_less, rule le_less_trans [OF diff_le_self less_exp])

lemma createUDivRemFunc_correct:
  fixes x y :: "'a::len word"
  assumes "y \<noteq> 0"
  shows "createUDivRemFunc x y = Some (x div y, x mod y)"
proof (cases "y \<le> x")
  case False
  then have "createUDivRemFunc x y = Some (0, x)" by (simp add: createUDivRemFunc_def)
  with False show ?thesis by (simp add: div_word_less mod_word_less not_le)
next
  case True
  let ?L = "LENGTH('a)" and ?ly = "bit_len (unat y)" and ?lx = "bit_len (unat x)"
  have "unat y \<noteq> 0" using assms by (simp add: unat_eq_0)
  moreover from this True have "unat x \<noteq> 0" by (simp add: word_le_nat_alt)
  ultimately have nz: "unat y \<noteq> 0" "unat x \<noteq> 0" "x \<noteq> 0" by auto
  have le: "?ly \<le> ?lx" "?lx \<le> ?L"
    using bit_len_mono [OF True [unfolded word_le_nat_alt]] bit_len_le [OF unat_lt_exp [of x]] by auto
  have hy: "2 ^ (?ly - 1) \<le> unat y" "unat y < 2 ^ ?ly" "0 < ?ly" using bit_len_bounds [OF nz(1)] by auto
  have hx: "2 ^ (?lx - 1) \<le> unat x" "unat x < 2 ^ ?lx" "0 < ?lx" using bit_len_bounds [OF nz(2)] by auto
  define i0 where "i0 = (of_nat (?L - ?ly) - of_nat (?L - ?lx) :: 'a word)"
  have le_lz: "of_nat (?L - ?lx) \<le> (of_nat (?L - ?ly) :: 'a word)"
    using le unfolding word_le_nat_alt ctlz_no_wrap by simp
  have i0: "unat i0 = ?lx - ?ly"
    using le unfolding i0_def unat_sub_no_wrap [OF le_lz] ctlz_no_wrap by simp
  have "unat y * 2 ^ unat i0 < 2 ^ ?ly * 2 ^ (?lx - ?ly)" using hy(2) i0 by simp
  also have "\<dots> = 2 ^ ?lx" using le by (simp flip: power_add)
  finally have up: "unat y * 2 ^ unat i0 < 2 ^ ?lx" .
  then have "unat y * 2 ^ unat i0 < 2 ^ ?L"
    by (rule less_le_trans) (use le(2) in simp)
  then have y0: "unat (push_bit (unat i0) y) = unat y * 2 ^ unat i0" by (rule unat_push_bit_no_wrap)
  have "2 * (2 ^ (?ly - 1) * 2 ^ unat i0) = (2::nat) ^ ?lx"
    using le hy(3) i0 by (simp flip: power_add power_Suc)
  then have "unat x < 2 * (unat y * 2 ^ unat i0)"
    using hx(2) mult_le_mono1 [OF hy(1), of "2 ^ unat i0"] by linarith
  then have r: "unat x < 2 * unat (push_bit (unat i0) y)" using y0 by simp
  have "unat x div unat y < 2 ^ ?L"
    using div_le_dividend [of "unat x" "unat y"] unat_lt_exp [of x] by linarith
  then have loop: "udivrem_loop (push_bit (unat i0) y) x i0 0 =
     Some (of_nat (unat x div unat y), of_nat (unat x mod unat y))"
    using udivrem_loop_correct [OF y0 _ r, of 0] nz by simp
  have "unat i0 < ?L" using i0 le hy(3) by simp
  then have "createUDivRemFunc x y = udivrem_loop (push_bit (unat i0) y) x i0 0"
    using True assms nz le_lz by (simp add: createUDivRemFunc_def ir_ctlz_def ir_simps ir_shl_by_def i0_def)
  then show ?thesis by (simp add: loop word_arith_nat_div word_arith_nat_mod)
qed

lemma createUDivRemFunc_by_zero: "createUDivRemFunc x 0 = None"
  by (simp add: createUDivRemFunc_def ir_ctlz_def)


lemma getUDiv256Func_correct: "y \<noteq> 0 \<Longrightarrow> getUDiv256Func x y = Some (x div y)"
  by (simp add: getUDiv256Func_def createUDivRemFunc_correct)

lemma createURemFunc_correct: "y \<noteq> 0 \<Longrightarrow> createURemFunc x y = Some (x mod y)"
  by (simp add: createURemFunc_def createUDivRemFunc_correct)

section \<open>Signed division\<close>

definition ir_slt0 :: "'a::len word \<Rightarrow> bool" where
  "ir_slt0 w \<longleftrightarrow> sint w < 0"

definition getSDivRem256Func :: "word256 \<Rightarrow> word256 \<Rightarrow> (word256 \<times> word256) option" where
  "getSDivRem256Func x y =
     (let xIsNeg = ir_slt0 x;
          xNeg = 0 - x;
          xAbs = (if xIsNeg then xNeg else x);
          yIsNeg = ir_slt0 y;
          yNeg = 0 - y;
          yAbs = (if yIsNeg then yNeg else y)
      in do {
        (qAbs, rAbs) \<leftarrow> createUDivRemFunc xAbs yAbs;
        let rNeg = 0 - rAbs;
        let r = (if xIsNeg then rNeg else rAbs);
        let qNeg = 0 - qAbs;
        let xyOpposite = (xIsNeg \<noteq> yIsNeg);
        let q = (if xyOpposite then qNeg else qAbs);
        Some (q, r)
      })"

definition getSDiv256Func :: "word256 \<Rightarrow> word256 \<Rightarrow> word256 option" where
  "getSDiv256Func x y = map_option fst (getSDivRem256Func x y)"

definition getSRem256Func :: "word256 \<Rightarrow> word256 \<Rightarrow> word256 option" where
  "getSRem256Func x y = map_option snd (getSDivRem256Func x y)"

text \<open>The reference: division truncating towards zero of the signed values, reduced to 256 bits.\<close>

definition sdiv_word :: "word256 \<Rightarrow> word256 \<Rightarrow> word256" where
  "sdiv_word x y = word_of_int (sint x sdiv sint y)"

definition smod_word :: "word256 \<Rightarrow> word256 \<Rightarrow> word256" where
  "smod_word x y = word_of_int (sint x smod sint y)"

lemma uint_abs:
  fixes x :: "'a::len word"
  shows "uint (if sint x < 0 then - x else x) = \<bar>sint x\<bar>"
proof (cases "sint x < 0")
  case True
  have "- (2 ^ (LENGTH('a) - 1)) \<le> sint x" by (rule sint_ge)
  moreover have "(2::int) ^ (LENGTH('a) - 1) < 2 ^ LENGTH('a)" by simp
  ultimately have lt: "- sint x < 2 ^ LENGTH('a)" by linarith
  have neg: "- x = word_of_int (- sint x)" by simp
  have "- sint x mod 2 ^ LENGTH('a) = - sint x"
    by (rule mod_pos_pos_trivial) (use True lt in linarith)+
  then have "uint (- x) = - sint x" by (simp only: neg uint_word_of_int)
  then show ?thesis using True by simp
next
  case False
  then show ?thesis using sint_eq_unat_nonneg [of x] by simp
qed

lemma getSDivRem256Func_correct:
  assumes "y \<noteq> 0"
  shows "getSDivRem256Func x y = Some (sdiv_word x y, smod_word x y)"
proof -
  let ?ax = "if sint x < 0 then - x else x" and ?ay = "if sint y < 0 then - y else y"
  have "?ay \<noteq> 0" using assms by simp
  then have div: "createUDivRemFunc ?ax ?ay = Some (?ax div ?ay, ?ax mod ?ay)"
    by (rule createUDivRemFunc_correct)
  have q: "?ax div ?ay = word_of_int (\<bar>sint x\<bar> div \<bar>sint y\<bar>)"
    by (simp only: word_div_def uint_abs)
  have r: "?ax mod ?ay = word_of_int (\<bar>sint x\<bar> mod \<bar>sint y\<bar>)"
    by (simp only: word_mod_def uint_abs)
  have sy: "sint y \<noteq> 0" using assms by simp
  then show ?thesis
    using div unfolding q r
    by (auto simp: getSDivRem256Func_def ir_slt0_def sdiv_word_def smod_word_def signed_divide_int_def
        signed_modulo_int_def sgn_if Let_def minus_mult_div_eq_mod [symmetric] algebra_simps)
qed

section \<open>Exponentiation\<close>

text \<open>The loop of the emitted \<^verbatim>\<open>exp\<close> function (\<open>r b e\<close> are the phi nodes of "LoopHeader").\<close>

function exp_loop :: "word256 \<Rightarrow> word256 \<Rightarrow> word256 \<Rightarrow> word256" where
  "exp_loop r b e =
     (if e \<noteq> 0 then
        let eOdd = (e AND 1 \<noteq> 0);
            r0 = r * b;
            r1 = (if eOdd then r0 else r);
            b1 = b * b;
            e1 = drop_bit 1 e
        in exp_loop r1 b1 e1
      else r)"
  by pat_completeness auto
termination
  by (relation "measure (\<lambda>(r, b, e). unat e)") (simp_all add: unat_drop_bit unat_gt_0)

declare exp_loop.simps [simp del]

definition getExpFunc :: "word256 \<Rightarrow> word256 \<Rightarrow> word256" where
  "getExpFunc base exponent = exp_loop 1 base exponent"

text \<open>An SSA value is a constant the compiler can see, or the result of an instruction.\<close>

datatype 'a ssa = ConstantInt 'a | Inst 'a

fun ssa_value :: "'a ssa \<Rightarrow> 'a" where
  "ssa_value (ConstantInt x) = x"
| "ssa_value (Inst x) = x"

text \<open>The compile-time loop of \<^verbatim>\<open>Arith256::exp\<close> on \<^verbatim>\<open>APInt\<close> values.\<close>

function exp_fold :: "word256 \<Rightarrow> word256 \<Rightarrow> word256 \<Rightarrow> word256" where
  "exp_fold r b e =
     (if e \<noteq> 0 then exp_fold (if bit e 0 then r * b else r) (b * b) (drop_bit 1 e) else r)"
  by pat_completeness auto
termination
  by (relation "measure (\<lambda>(r, b, e). unat e)") (simp_all add: unat_drop_bit unat_gt_0)

declare exp_fold.simps [simp del]

fun exp :: "word256 ssa \<Rightarrow> word256 ssa \<Rightarrow> word256 ssa" where
  "exp (ConstantInt b) (ConstantInt e) = ConstantInt (exp_fold 1 b e)"
| "exp x y = Inst (getExpFunc (ssa_value x) (ssa_value y))"

lemma odd_unat: "odd (unat e) \<longleftrightarrow> odd e"
  for e :: "'a::len word"
  using bit_0 [of "unat e"] bit_0 [of e] by (simp add: bit_unsigned_iff)

lemma exp_loop_power: "exp_loop r b e = r * b ^ unat e"
proof (induction r b e rule: exp_loop.induct)
  case (1 r b e)
  show ?case
  proof (cases "e = 0")
    case True
    then show ?thesis by (subst exp_loop.simps) simp
  next
    case False
    have half: "unat (drop_bit 1 e) = unat e div 2" by (simp add: unat_drop_bit)
    have odd: "(e AND 1 \<noteq> 0) = odd (unat e)"
      by (simp add: and_one_eq mod_2_eq_odd odd_unat)
    have "b ^ unat e = (if odd (unat e) then b else 1) * (b * b) ^ (unat e div 2)"
      by (auto simp flip: power2_eq_square power_mult power_Suc elim!: oddE evenE)
    then show ?thesis
      using 1 [OF _ refl refl refl refl refl] False half odd
      by (subst exp_loop.simps) (simp add: Let_def mult.assoc)
  qed
qed

lemma exp_fold_eq_loop: "exp_fold r b e = exp_loop r b e"
proof (induction r b e rule: exp_fold.induct)
  case (1 r b e)
  have "bit e 0 \<longleftrightarrow> e AND 1 \<noteq> 0" by (simp add: and_one_eq bit_0 odd_iff_mod_2_eq_one)
  then show ?case using 1 by (subst exp_fold.simps, subst exp_loop.simps) simp
qed

end
