(* ===== verification/GasMeter.thy ===== *)
theory GasMeter
  imports Arith256
begin

text \<open>
  Gas: \<^verbatim>\<open>JITSchedule\<close> of \<^verbatim>\<open>libevmjit/JIT.h\<close> and \<^verbatim>\<open>libevmjit/GasMeter.cpp\<close>.  The meter has two halves.
  At compile time it adds up the step costs of a cost block and patches the sum into the check call
  it placed at the block's start (\<open>gas_meter\<close>, \<open>count\<close>, \<open>commitCostBlock\<close>).  At run time the emitted
  \<^verbatim>\<open>gas.check\<close> function subtracts a cost from the gas or leaves through the jump buffer (\<open>gas_check\<close>
  and the \<open>count...\<close> operations that compute dynamic costs).
\<close>

section \<open>EVM revisions\<close>

text \<open>The revisions of the EVMC interface, in the order of the enumeration.\<close>

datatype evmc_revision = EVMC_FRONTIER | EVMC_HOMESTEAD | EVMC_TANGERINE_WHISTLE
  | EVMC_SPURIOUS_DRAGON | EVMC_BYZANTIUM | EVMC_CONSTANTINOPLE

primrec revision_index :: "evmc_revision \<Rightarrow> nat" where
  "revision_index EVMC_FRONTIER = 0"
| "revision_index EVMC_HOMESTEAD = 1"
| "revision_index EVMC_TANGERINE_WHISTLE = 2"
| "revision_index EVMC_SPURIOUS_DRAGON = 3"
| "revision_index EVMC_BYZANTIUM = 4"
| "revision_index EVMC_CONSTANTINOPLE = 5"

lemma revision_index_inj: "revision_index r = revision_index s \<Longrightarrow> r = s"
  by (cases r; cases s) simp_all

instantiation evmc_revision :: linorder
begin

definition less_eq_evmc_revision :: "evmc_revision \<Rightarrow> evmc_revision \<Rightarrow> bool" where
  "less_eq_evmc_revision r s \<longleftrightarrow> revision_index r \<le> revision_index s"

definition less_evmc_revision :: "evmc_revision \<Rightarrow> evmc_revision \<Rightarrow> bool" where
  "less_evmc_revision r s \<longleftrightarrow> revision_index r < revision_index s"

instance
  by standard (auto simp: less_eq_evmc_revision_def less_evmc_revision_def intro: revision_index_inj)

end

lemmas revision_order [simp] = less_eq_evmc_revision_def less_evmc_revision_def

section \<open>The schedule\<close>

named_theorems schedule \<open>the gas schedule's constants\<close>

definition stackLimit :: nat where [schedule]: "stackLimit = 1024"
definition stepGas0 :: int where [schedule]: "stepGas0 = 0"
definition stepGas1 :: int where [schedule]: "stepGas1 = 2"
definition stepGas2 :: int where [schedule]: "stepGas2 = 3"
definition stepGas3 :: int where [schedule]: "stepGas3 = 5"
definition stepGas4 :: int where [schedule]: "stepGas4 = 8"
definition stepGas5 :: int where [schedule]: "stepGas5 = 10"
definition stepGas6 :: int where [schedule]: "stepGas6 = 20"
definition expByteGas :: int where [schedule]: "expByteGas = 10"
definition sha3Gas :: int where [schedule]: "sha3Gas = 30"
definition sha3WordGas :: int where [schedule]: "sha3WordGas = 6"
definition sloadGas :: int where [schedule]: "sloadGas = 50"
definition sstoreSetGas :: int where [schedule]: "sstoreSetGas = 20000"
definition sstoreResetGas :: int where [schedule]: "sstoreResetGas = 5000"
definition jumpdestGas :: int where [schedule]: "jumpdestGas = 1"
definition logGas :: int where [schedule]: "logGas = 375"
definition logDataGas :: int where [schedule]: "logDataGas = 8"
definition logTopicGas :: int where [schedule]: "logTopicGas = 375"
definition createGas :: int where [schedule]: "createGas = 32000"
definition callGas :: int where [schedule]: "callGas = 40"
definition memoryGas :: int where [schedule]: "memoryGas = 3"
definition copyGas :: int where [schedule]: "copyGas = 3"
definition valueTransferGas :: int where [schedule]: "valueTransferGas = 9000"
definition callStipend :: int where [schedule]: "callStipend = 2300"
definition callNewAccount :: int where [schedule]: "callNewAccount = 25000"

text \<open>\<^verbatim>\<open>GasMeter::getStepCost\<close>; \<open>None\<close> is a byte that is no instruction.\<close>

fun getStepCost :: "evmc_revision \<Rightarrow> instruction option \<Rightarrow> int" where
  "getStepCost m_rev None = 0"
| "getStepCost m_rev (Some inst) =
    (case inst of
       STOP \<Rightarrow> stepGas0 | RETURN \<Rightarrow> stepGas0 | REVERT \<Rightarrow> stepGas0 | SSTORE \<Rightarrow> stepGas0
     | ADDRESS \<Rightarrow> stepGas1 | ORIGIN \<Rightarrow> stepGas1 | CALLER \<Rightarrow> stepGas1 | CALLVALUE \<Rightarrow> stepGas1
     | CALLDATASIZE \<Rightarrow> stepGas1 | RETURNDATASIZE \<Rightarrow> stepGas1 | CODESIZE \<Rightarrow> stepGas1
     | GASPRICE \<Rightarrow> stepGas1 | COINBASE \<Rightarrow> stepGas1 | TIMESTAMP \<Rightarrow> stepGas1 | NUMBER \<Rightarrow> stepGas1
     | DIFFICULTY \<Rightarrow> stepGas1 | GASLIMIT \<Rightarrow> stepGas1 | POP \<Rightarrow> stepGas1 | PC \<Rightarrow> stepGas1
     | MSIZE \<Rightarrow> stepGas1 | GAS \<Rightarrow> stepGas1
     | ADD \<Rightarrow> stepGas2 | SUB \<Rightarrow> stepGas2 | LT \<Rightarrow> stepGas2 | GT \<Rightarrow> stepGas2 | SLT \<Rightarrow> stepGas2
     | SGT \<Rightarrow> stepGas2 | EQ \<Rightarrow> stepGas2 | ISZERO \<Rightarrow> stepGas2 | AND_i \<Rightarrow> stepGas2 | OR_i \<Rightarrow> stepGas2
     | XOR_i \<Rightarrow> stepGas2 | NOT_i \<Rightarrow> stepGas2 | BYTE \<Rightarrow> stepGas2 | CALLDATALOAD \<Rightarrow> stepGas2
     | CALLDATACOPY \<Rightarrow> stepGas2 | RETURNDATACOPY \<Rightarrow> stepGas2 | CODECOPY \<Rightarrow> stepGas2
     | MLOAD \<Rightarrow> stepGas2 | MSTORE \<Rightarrow> stepGas2 | MSTORE8 \<Rightarrow> stepGas2
     | PUSH n \<Rightarrow> stepGas2 | DUP n \<Rightarrow> stepGas2 | SWAP n \<Rightarrow> stepGas2
     | MUL \<Rightarrow> stepGas3 | DIV \<Rightarrow> stepGas3 | SDIV \<Rightarrow> stepGas3 | MOD \<Rightarrow> stepGas3 | SMOD \<Rightarrow> stepGas3
     | SIGNEXTEND \<Rightarrow> stepGas3
     | ADDMOD \<Rightarrow> stepGas4 | MULMOD \<Rightarrow> stepGas4 | JUMP \<Rightarrow> stepGas4
     | EXP \<Rightarrow> stepGas5 | JUMPI \<Rightarrow> stepGas5
     | BALANCE \<Rightarrow> (if m_rev \<ge> EVMC_TANGERINE_WHISTLE then 400 else stepGas6)
     | EXTCODESIZE \<Rightarrow> (if m_rev \<ge> EVMC_TANGERINE_WHISTLE then 700 else stepGas6)
     | EXTCODECOPY \<Rightarrow> (if m_rev \<ge> EVMC_TANGERINE_WHISTLE then 700 else stepGas6)
     | BLOCKHASH \<Rightarrow> (if m_rev \<ge> EVMC_CONSTANTINOPLE then 800 else stepGas6)
     | SHA3 \<Rightarrow> sha3Gas
     | SLOAD \<Rightarrow> (if m_rev \<ge> EVMC_TANGERINE_WHISTLE then 200 else sloadGas)
     | JUMPDEST \<Rightarrow> jumpdestGas
     | LOG n \<Rightarrow> logGas + int n * logTopicGas
     | CALL \<Rightarrow> (if m_rev \<ge> EVMC_TANGERINE_WHISTLE then 700 else callGas)
     | CALLCODE \<Rightarrow> (if m_rev \<ge> EVMC_TANGERINE_WHISTLE then 700 else callGas)
     | DELEGATECALL \<Rightarrow> (if m_rev \<ge> EVMC_TANGERINE_WHISTLE then 700 else callGas)
     | STATICCALL \<Rightarrow> (if m_rev \<ge> EVMC_TANGERINE_WHISTLE then 700 else callGas)
     | CREATE \<Rightarrow> createGas
     | SUICIDE \<Rightarrow> (if m_rev \<ge> EVMC_TANGERINE_WHISTLE then 5000 else stepGas0))"

lemma getStepCost_nonneg: "0 \<le> getStepCost m_rev inst"
  by (cases inst; cases "the inst") (simp_all add: schedule)

lemma getStepCost_bound:
  assumes "\<And>i. inst = Some i \<Longrightarrow> valid_instruction i"
  shows "getStepCost m_rev inst \<le> 32000"
proof (cases inst)
  case (Some i)
  from assms [OF Some] Some show ?thesis by (cases i) (simp_all add: schedule valid_instruction_def)
qed simp

section \<open>The emitted gas check\<close>

definition gasMax :: i64 where
  "gasMax = 0x7fffffffffffffff"

text \<open>The function \<^verbatim>\<open>gas.check\<close>: the gas counter after paying \<open>cost\<close>.\<close>

definition gas_check :: "i64 \<Rightarrow> i64 pv \<Rightarrow> i64 outcome" where
  "gas_check gas cost =
     (let gasUpdated = ir_nsw_sub (Some gas) cost;
          gasOk = ir_sge gasUpdated (Some 0)
      in use gasOk (\<lambda>ok. if ok then use gasUpdated Done else LongJmp))"

text \<open>\<^verbatim>\<open>GasMeter::count(llvm::Value*)\<close> for an i64 cost and for a 256-bit cost, which is clamped.\<close>

definition count64 :: "i64 \<Rightarrow> i64 pv \<Rightarrow> i64 outcome" where
  "count64 gas cost = gas_check gas cost"

definition count256 :: "i64 \<Rightarrow> word256 pv \<Rightarrow> i64 outcome" where
  "count256 gas cost =
     (let gasMax256 = ir_zext (Some gasMax);
          tooHigh = ir_ugt cost gasMax256;
          cost64 = ir_trunc cost
      in gas_check gas (ir_select tooHigh (Some gasMax) cost64))"

definition exponentByteCost :: "evmc_revision \<Rightarrow> int" where
  "exponentByteCost m_rev = (if m_rev \<ge> EVMC_SPURIOUS_DRAGON then 50 else expByteGas)"

definition countExp :: "evmc_revision \<Rightarrow> i64 \<Rightarrow> word256 \<Rightarrow> i64 outcome" where
  "countExp m_rev gas exponent =
     (let lz256 = ir_ctlz exponent False;
          lz = ir_trunc lz256;
          sigBits = ir_sub (Some 256) lz;
          sigBytes = ir_udivc (ir_add sigBits (Some 7)) 8
      in count64 gas (ir_nuw_mul sigBytes (Some (of_int (exponentByteCost m_rev)))))"

definition countSStore :: "i64 \<Rightarrow> word256 \<Rightarrow> word256 \<Rightarrow> i64 outcome" where
  "countSStore gas oldValue newValue =
     (let oldValueIsZero = (oldValue = 0);
          newValueIsntZero = (newValue \<noteq> 0);
          isInsert = (oldValueIsZero \<and> newValueIsntZero);
          cost = (if isInsert then of_int sstoreSetGas else of_int sstoreResetGas)
      in count64 gas (Some cost))"

definition countLogData :: "i64 \<Rightarrow> word256 \<Rightarrow> i64 outcome" where
  "countLogData gas dataLength =
     count256 gas (ir_nuw_mul (Some dataLength) (Some (of_int logDataGas)))"

text \<open>Sizes are rounded up to words as \<^verbatim>\<open>(n + 31) / 32\<close> in several places.\<close>

definition words64 :: "i64 pv \<Rightarrow> i64 pv" where
  "words64 n = ir_udivc (ir_nuw_add n (Some 31)) 32"

definition countSha3Data :: "i64 \<Rightarrow> word256 \<Rightarrow> i64 outcome" where
  "countSha3Data gas dataLength =
     (let dataLength64 = ir_trunc (Some dataLength);
          w = words64 dataLength64;
          cost64 = ir_nuw_mul (Some (of_int sha3WordGas)) w
      in count64 gas cost64)"

definition giveBack :: "i64 \<Rightarrow> i64 \<Rightarrow> i64" where
  "giveBack gas returned = gas + returned"

definition countMemory :: "i64 \<Rightarrow> i64 pv \<Rightarrow> i64 outcome" where
  "countMemory gas additionalMemoryInWords = count64 gas additionalMemoryInWords"

definition countCopy :: "i64 \<Rightarrow> i64 pv \<Rightarrow> i64 outcome" where
  "countCopy gas copyWords = count64 gas (ir_nuw_mul copyWords (Some (of_int copyGas)))"

subsection \<open>What the checks do\<close>

lemma sint64_nonneg_iff: "0 \<le> sint w \<longleftrightarrow> unat w < 2 ^ 63"
  for w :: i64
proof
  assume "0 \<le> sint w"
  moreover have "sint w < 2 ^ 63" using sint_lt [of w] by simp
  ultimately have "int (unat w) < int (2 ^ 63)" using sint_eq_unat_nonneg [of w] by simp
  then show "unat w < 2 ^ 63" by (simp only: of_nat_less_iff)
next
  assume "unat w < 2 ^ 63"
  then have "int (unat w) < int (2 ^ 63)" by (simp only: of_nat_less_iff)
  then have "uint w < 2 ^ 63" by simp
  then have "sint w = uint w" unfolding sint_uint
    by (intro signed_take_bit_int_eq_self) (simp_all add: order_trans [OF _ uint_ge_0])
  then show "0 \<le> sint w" by simp
qed

lemma sint64_eq: "unat w < 2 ^ 63 \<Longrightarrow> sint w = int (unat w)"
  for w :: i64
  using sint64_nonneg_iff [of w] sint_eq_unat_nonneg [of w] by simp

text \<open>The gas counters the development reasons about: non-negative, and below the largest i64, which
  the clamps use as the cost that no gas covers.\<close>

definition gas_ok :: "i64 \<Rightarrow> bool" where
  "gas_ok gas \<longleftrightarrow> unat gas < 2 ^ 63 - 1"

text \<open>The abstract meter: pay \<open>n\<close> or stop.\<close>

definition charge :: "i64 \<Rightarrow> nat \<Rightarrow> i64 outcome" where
  "charge gas n = (if n \<le> unat gas then Done (gas - of_nat n) else LongJmp)"

lemma unat_charge: "n \<le> unat gas \<Longrightarrow> unat (gas - of_nat n) = unat gas - n"
  for gas :: i64
proof -
  assume n: "n \<le> unat gas"
  then have eq: "unat (of_nat n :: i64) = n"
    using unat_lt_exp [of gas] by (intro unat_of_nat_small) linarith
  have "of_nat n \<le> gas" unfolding word_le_nat_alt eq by (rule n)
  then show ?thesis by (simp only: unat_sub_no_wrap eq)
qed

lemma charge_0 [simp]: "charge gas 0 = Done gas"
  by (simp add: charge_def)

lemma charge_gas_ok: "charge gas n = Done gas' \<Longrightarrow> gas_ok gas \<Longrightarrow> gas_ok gas'"
  by (auto simp: charge_def gas_ok_def unat_charge split: if_splits)

lemma charge_neq_Undefined [simp]: "charge gas n \<noteq> Undefined"
  by (simp add: charge_def)

lemma charge_charge: "obind (charge gas m) (\<lambda>g. charge g n) = charge gas (m + n)"
  by (auto simp: charge_def unat_charge algebra_simps)

lemma uint_le_iff_unat: "uint a \<le> uint b \<longleftrightarrow> unat a \<le> unat b"
  for a b :: "'a::len word"
  by (simp add: word_le_def [symmetric] word_le_nat_alt)

lemma diff_int_bounds: "0 \<le> a \<Longrightarrow> 0 \<le> b \<Longrightarrow> a < k \<Longrightarrow> b < k \<Longrightarrow> - k \<le> a - b \<and> a - b < k"
  for a b k :: int
  by linarith

lemma gas_check_charge:
  assumes gas: "unat gas < 2 ^ 63" and c: "unat c < 2 ^ 63"
  shows "gas_check gas (Some c) = charge gas (unat c)"
proof -
  have s: "sint gas = int (unat gas)" "sint c = int (unat c)"
    using gas c by (simp_all add: sint64_eq)
  have ok: "in_sint TYPE(64) (sint gas - sint c)"
    using uint_less_of_unat [OF gas] uint_less_of_unat [OF c] diff_int_bounds [OF uint_ge_0 uint_ge_0, of gas _ c]
    by (simp add: in_sint_def s)
  have "sint (gas - c) = sint gas - sint c"
    unfolding sint_word_diff using ok by (intro signed_take_bit_int_eq_self) (simp_all add: in_sint_def)
  then show ?thesis
    using ok by (auto simp: gas_check_def ir_simps charge_def Let_def s uint_le_iff_unat)
qed

lemma gas_check_poison: "gas_check gas None = Undefined"
  by (simp add: gas_check_def ir_nsw_sub_def ir_sge_def guarded2_def lift2_def)

lemma count64_charge: "gas_ok gas \<Longrightarrow> unat c < 2 ^ 63 \<Longrightarrow> count64 gas (Some c) = charge gas (unat c)"
  by (simp add: count64_def gas_check_charge gas_ok_def)

lemma unat_gasMax: "unat gasMax = 2 ^ 63 - 1"
  by (simp add: gasMax_def)

lemma count256_charge:
  assumes "gas_ok gas"
  shows "count256 gas (Some c) = charge gas (unat c)"
proof (cases "ucast gasMax < c")
  case True
  then have "2 ^ 63 - 1 < unat c" by (simp add: word_less_nat_alt gasMax_def)
  moreover have "gas_check gas (Some gasMax) = LongJmp"
    using assms by (subst gas_check_charge) (simp_all add: gas_ok_def unat_gasMax charge_def)
  ultimately show ?thesis
    using True assms by (simp add: count256_def ir_simps charge_def gas_ok_def)
next
  case False
  then have c: "unat c < 2 ^ 63" by (simp add: word_less_nat_alt gasMax_def)
  then have "unat (ucast c :: i64) = unat c" by (intro unat_ucast_small) simp
  then show ?thesis
    using False assms c gas_check_charge [of gas "ucast c"] by (simp add: count256_def ir_simps gas_ok_def)
qed

text \<open>The dynamic costs.\<close>

definition exp_bytes :: "word256 \<Rightarrow> nat" where
  "exp_bytes e = (bit_len (unat e) + 7) div 8"

lemma countExp_charge:
  assumes "gas_ok gas"
  shows "countExp m_rev gas e = charge gas (nat (exponentByteCost m_rev) * exp_bytes e)"
proof -
  have len: "bit_len (unat e) \<le> 256" using bit_len_le [OF unat_lt_exp [of e]] by simp
  have lz: "unat (of_nat (256 - bit_len (unat e)) :: word256) = 256 - bit_len (unat e)"
    by (rule unat_of_nat_small) simp
  have "unat (ucast (of_nat (256 - bit_len (unat e)) :: word256) :: i64) = 256 - bit_len (unat e)"
    by (subst unat_ucast_small) (simp_all add: lz)
  moreover from this have "ucast (of_nat (256 - bit_len (unat e)) :: word256) \<le> (256 :: i64)"
    by (simp add: word_le_nat_alt)
  ultimately have bits: "unat (256 - ucast (of_nat (256 - bit_len (unat e)) :: word256) :: i64) = bit_len (unat e)"
    using len by (simp add: unat_sub_no_wrap)
  define sb :: i64 where "sb = 256 - ucast (of_nat (256 - bit_len (unat e)) :: word256)"
  have sb: "unat sb = bit_len (unat e)" unfolding sb_def by (rule bits)
  let ?b = "(sb + 7) div 8"
  have bytes: "unat ?b = exp_bytes e"
    using len sb by (simp add: unat_div unat_add_no_wrap exp_bytes_def)
  have small: "exp_bytes e \<le> 32" using len by (simp add: exp_bytes_def)
  have c: "unat (of_int (exponentByteCost m_rev) :: i64) = nat (exponentByteCost m_rev)"
    "nat (exponentByteCost m_rev) \<le> 50"
    by (simp_all add: exponentByteCost_def schedule)
  have "exp_bytes e * nat (exponentByteCost m_rev) \<le> 32 * 50"
    by (rule mult_le_mono [OF small c(2)])
  then have "unat (?b * of_int (exponentByteCost m_rev)) = exp_bytes e * nat (exponentByteCost m_rev)"
    "unat ?b * unat (of_int (exponentByteCost m_rev) :: i64) < 2 ^ 64"
    "unat (?b * of_int (exponentByteCost m_rev)) < 2 ^ 63"
    by (simp_all add: unat_mul_no_wrap bytes c)
  then show ?thesis
    using assms
    by (simp add: countExp_def ir_ctlz_def ir_simps count64_charge mult.commute Let_def sb_def [symmetric])
qed

definition sstore_cost :: "word256 \<Rightarrow> word256 \<Rightarrow> nat" where
  "sstore_cost oldValue newValue = (if oldValue = 0 \<and> newValue \<noteq> 0 then 20000 else 5000)"

lemma countSStore_charge: "gas_ok gas \<Longrightarrow> countSStore gas old new = charge gas (sstore_cost old new)"
  by (simp add: countSStore_def sstore_cost_def schedule count64_charge)

lemma countLogData_charge:
  assumes "gas_ok gas" "unat len < 2 ^ 253"
  shows "countLogData gas len = charge gas (8 * unat len)"
  using assms by (simp add: countLogData_def schedule ir_simps count256_charge unat_mul_no_wrap mult.commute)

definition word_count :: "nat \<Rightarrow> nat" where
  "word_count n = (n + 31) div 32"

lemma words64_Some:
  assumes "unat n + 31 < 2 ^ 64"
  shows "words64 (Some n) = Some (of_nat (word_count (unat n)))"
proof -
  have "unat ((n + 31) div 32) = word_count (unat n)"
    using assms by (simp add: unat_div unat_add_no_wrap word_count_def)
  then have "(n + 31) div 32 = of_nat (word_count (unat n))" by (metis of_nat_unat ucast_id)
  then show ?thesis using assms by (simp add: words64_def ir_simps)
qed

lemma unat_word_count:
  assumes "unat n + 31 < 2 ^ 64"
  shows "unat (of_nat (word_count (unat n)) :: i64) = word_count (unat n)"
  using assms by (intro unat_of_nat_small) (simp add: word_count_def)

lemma countSha3Data_charge:
  assumes "gas_ok gas" "unat len + 31 < 2 ^ 64"
    and "6 * word_count (unat len) < 2 ^ 63"
  shows "countSha3Data gas len = charge gas (6 * word_count (unat len))"
proof -
  have len: "unat (ucast len :: i64) = unat len" using assms(2) by (intro unat_ucast_small) simp
  have w: "words64 (Some (ucast len)) = Some (of_nat (word_count (unat len)))"
    "unat (of_nat (word_count (unat len)) :: i64) = word_count (unat len)"
    using words64_Some [of "ucast len"] unat_word_count [OF assms(2)] assms(2) unfolding len by auto
  show ?thesis
    using assms by (simp add: countSha3Data_def schedule ir_simps count64_charge unat_mul_no_wrap w Let_def)
qed

lemma countCopy_charge:
  assumes "gas_ok gas" "3 * unat w < 2 ^ 63"
  shows "countCopy gas (Some w) = charge gas (3 * unat w)"
  using assms by (simp add: countCopy_def schedule ir_simps count64_charge unat_mul_no_wrap mult.commute)

section \<open>Cost blocks\<close>

text \<open>
  Code under construction: instructions of some kind \<open>'a\<close> and calls of \<open>gas.check\<close>, whose cost
  argument is undefined (\<open>None\<close>) until the cost block is committed.  \<open>m_checkCall\<close> is the position of
  the call that is still open.
\<close>

datatype 'a emitted = GasCheck "int option" | Emit 'a

record 'a gas_meter =
  m_blockCost :: int
  m_checkCall :: "nat option"
  m_code :: "'a emitted list"

definition new_gas_meter :: "'a gas_meter" where
  "new_gas_meter = \<lparr> m_blockCost = 0, m_checkCall = None, m_code = [] \<rparr>"

definition emit :: "'a \<Rightarrow> 'a gas_meter \<Rightarrow> 'a gas_meter" where
  "emit a gm = gm\<lparr> m_code := m_code gm @ [Emit a] \<rparr>"

definition count :: "evmc_revision \<Rightarrow> instruction option \<Rightarrow> 'a gas_meter \<Rightarrow> 'a gas_meter" where
  "count m_rev inst gm =
     (let gm1 = (if m_checkCall gm = None
                 then gm\<lparr> m_checkCall := Some (length (m_code gm)), m_code := m_code gm @ [GasCheck None] \<rparr>
                 else gm)
      in gm1\<lparr> m_blockCost := m_blockCost gm1 + getStepCost m_rev inst \<rparr>)"

definition eraseFromParent :: "nat \<Rightarrow> 'a list \<Rightarrow> 'a list" where
  "eraseFromParent k xs = take k xs @ drop (Suc k) xs"

definition commitCostBlock :: "'a gas_meter \<Rightarrow> 'a gas_meter" where
  "commitCostBlock gm =
     (case m_checkCall gm of
        None \<Rightarrow> gm
      | Some k \<Rightarrow>
          if m_blockCost gm = 0
          then gm\<lparr> m_code := eraseFromParent k (m_code gm), m_checkCall := None \<rparr>
          else gm\<lparr> m_code := (m_code gm)[k := GasCheck (Some (m_blockCost gm))],
                   m_checkCall := None, m_blockCost := 0 \<rparr>)"

text \<open>The calls a compilation makes of the meter, in order, and their effect.\<close>

datatype 'a cost_action = Count "instruction option" | Op 'a | Commit

primrec do_cost_action :: "evmc_revision \<Rightarrow> 'a cost_action \<Rightarrow> 'a gas_meter \<Rightarrow> 'a gas_meter" where
  "do_cost_action m_rev (Count inst) gm = count m_rev inst gm"
| "do_cost_action m_rev (Op a) gm = emit a gm"
| "do_cost_action m_rev Commit gm = commitCostBlock gm"

definition cost_actions :: "evmc_revision \<Rightarrow> 'a cost_action list \<Rightarrow> 'a gas_meter \<Rightarrow> 'a gas_meter" where
  "cost_actions m_rev as gm = fold (do_cost_action m_rev) as gm"

lemma cost_actions_simps [simp]:
  "cost_actions m_rev [] gm = gm"
  "cost_actions m_rev (a # as) gm = cost_actions m_rev as (do_cost_action m_rev a gm)"
  "cost_actions m_rev (as @ bs) gm = cost_actions m_rev bs (cost_actions m_rev as gm)"
  by (simp_all add: cost_actions_def)

text \<open>
  The code the meter is to produce: every cost block, which runs to the next commit, starts with a
  check of the sum of the step costs counted in it, or with no check when the sum is 0.
\<close>

fun pending :: "evmc_revision \<Rightarrow> 'a cost_action list \<Rightarrow> int" where
  "pending m_rev [] = 0"
| "pending m_rev (Count inst # as) = getStepCost m_rev inst + pending m_rev as"
| "pending m_rev (Op a # as) = pending m_rev as"
| "pending m_rev (Commit # as) = 0"

definition check_of :: "int \<Rightarrow> 'a emitted list" where
  "check_of c = (if c = 0 then [] else [GasCheck (Some c)])"

fun layout :: "evmc_revision \<Rightarrow> bool \<Rightarrow> 'a cost_action list \<Rightarrow> 'a emitted list" where
  "layout m_rev opened [] = []"
| "layout m_rev opened (Count inst # as) =
     (if opened then [] else check_of (getStepCost m_rev inst + pending m_rev as)) @ layout m_rev True as"
| "layout m_rev opened (Op a # as) = Emit a # layout m_rev opened as"
| "layout m_rev opened (Commit # as) = layout m_rev False as"

lemma pending_nonneg: "0 \<le> pending m_rev as"
  by (induction m_rev as rule: pending.induct) (simp_all add: getStepCost_nonneg)

text \<open>Patching position \<open>k\<close>, which splits the code into what comes before and after it.\<close>

lemma commit_splits:
  assumes "m_checkCall gm = Some (length xs)" "m_code gm = xs @ GasCheck None # ys"
  shows "m_code (commitCostBlock gm) = xs @ check_of (m_blockCost gm) @ ys"
    and "m_checkCall (commitCostBlock gm) = None"
    and "m_blockCost (commitCostBlock gm) = 0"
  using assms by (simp_all add: commitCostBlock_def check_of_def eraseFromParent_def)

lemma cost_actions_layout:
  "m_checkCall gm = None \<Longrightarrow> m_blockCost gm = 0 \<Longrightarrow>
     m_code (commitCostBlock (cost_actions m_rev as gm)) = m_code gm @ layout m_rev False as"
  "m_checkCall gm = Some (length xs) \<Longrightarrow> m_code gm = xs @ GasCheck None # ys \<Longrightarrow>
     m_code (commitCostBlock (cost_actions m_rev as gm)) =
       xs @ check_of (m_blockCost gm + pending m_rev as) @ ys @ layout m_rev True as"
proof (induction as arbitrary: gm xs ys)
  case Nil
  {
    case 1
    then show ?case by (simp add: commitCostBlock_def)
  next
    case 2
    then show ?case by (simp add: commit_splits)
  }
next
  case (Cons a as)
  {
    case 1
    show ?case
    proof (cases a)
      case (Count inst)
      let ?gm = "count m_rev inst gm"
      have "m_checkCall ?gm = Some (length (m_code gm))" "m_code ?gm = m_code gm @ GasCheck None # []"
        "m_blockCost ?gm = getStepCost m_rev inst"
        using 1 by (simp_all add: count_def Let_def)
      then show ?thesis using Cons.IH(2) [of ?gm "m_code gm" "[]"] Count by simp
    next
      case (Op x)
      then show ?thesis using Cons.IH(1) [of "emit x gm"] 1 by (simp add: emit_def)
    next
      case Commit
      then show ?thesis using Cons.IH(1) [of gm] 1 by (simp add: commitCostBlock_def)
    qed
  next
    case 2
    show ?case
    proof (cases a)
      case (Count inst)
      let ?gm = "count m_rev inst gm"
      have "m_checkCall ?gm = Some (length xs)" "m_code ?gm = xs @ GasCheck None # ys"
        "m_blockCost ?gm = m_blockCost gm + getStepCost m_rev inst"
        using 2 by (simp_all add: count_def Let_def)
      then show ?thesis using Cons.IH(2) [of ?gm xs ys] Count by (simp add: add.assoc)
    next
      case (Op x)
      then show ?thesis using Cons.IH(2) [of "emit x gm" xs "ys @ [Emit x]"] 2 by (simp add: emit_def)
    next
      case Commit
      then show ?thesis
        using Cons.IH(1) [of "commitCostBlock gm"] commit_splits [OF 2] by simp
    qed
  }
qed

lemma cost_actions_code:
  "m_code (commitCostBlock (cost_actions m_rev as new_gas_meter)) = layout m_rev False as"
  using cost_actions_layout(1) [of new_gas_meter m_rev as] by (simp add: new_gas_meter_def)

text \<open>What the checks of a piece of code charge; \<open>None\<close> if the cost of one is undefined.\<close>

fun paid :: "'a emitted list \<Rightarrow> int option" where
  "paid [] = Some 0"
| "paid (GasCheck c # xs) = lift2 (+) c (paid xs)"
| "paid (Emit a # xs) = paid xs"

fun counted :: "evmc_revision \<Rightarrow> 'a cost_action list \<Rightarrow> int" where
  "counted m_rev [] = 0"
| "counted m_rev (Count inst # as) = getStepCost m_rev inst + counted m_rev as"
| "counted m_rev (Op a # as) = counted m_rev as"
| "counted m_rev (Commit # as) = counted m_rev as"

lemma paid_append: "paid (xs @ ys) = lift2 (+) (paid xs) (paid ys)"
  by (induction xs rule: paid.induct) (auto simp: lift2_def split: option.splits)

lemma paid_check_of: "paid (check_of c) = Some c"
  by (simp add: check_of_def)

lemma paid_layout:
  "paid (layout m_rev opened as) = Some (counted m_rev as - (if opened then pending m_rev as else 0))"
  by (induction m_rev opened as rule: layout.induct) (simp_all add: paid_append paid_check_of)

section \<open>Properties\<close>

text \<open>
  C29. Whatever sequence of instructions is counted, code emitted and cost blocks committed, after
  the final commit the code has exactly the checks of its cost blocks: each block that costs
  something begins with one check of the sum of the step costs counted in it, no check is left with
  an undefined cost, and together the checks charge every instruction once.
\<close>

theorem cost_blocks_are_prepaid:
  "m_code (commitCostBlock (cost_actions m_rev as new_gas_meter)) = layout m_rev False as \<and>
   paid (m_code (commitCostBlock (cost_actions m_rev as new_gas_meter))) = Some (counted m_rev as)"
  by (simp add: cost_actions_code paid_layout)



text \<open>
  The clamp that stands for "more than any gas" is the largest i64, and \<^verbatim>\<open>gas.check\<close> lets the gas
  fall to 0: with the counter at the largest i64, every cost above it is accepted, at the price of
  all the gas.
\<close>

lemma clamp_is_payable:
  "2 ^ 63 - 1 \<le> unat c \<Longrightarrow> count256 gasMax (Some c) = Done 0"
proof -
  assume c: "2 ^ 63 - 1 \<le> unat c"
  have all: "gas_check gasMax (Some gasMax) = Done 0"
    by (simp add: gas_check_charge unat_gasMax charge_def gasMax_def)
  show ?thesis
  proof (cases "unat c = 2 ^ 63 - 1")
    case True
    then have "c = ucast gasMax" by (intro word_eq_by_unat) (simp add: gasMax_def)
    then show ?thesis using all by (simp add: count256_def ir_simps gasMax_def)
  next
    case False
    with c have "ucast gasMax < c" by (simp add: word_less_nat_alt gasMax_def)
    then show ?thesis using all by (simp add: count256_def ir_simps)
  qed
qed

end
