(* ===== verification/Prepay.thy ===== *)
theory Prepay
  imports GasMeter
begin

text \<open>
  Why charging a cost block up front is right.  The gas meter of \<^verbatim>\<open>libevmjit/GasMeter.cpp\<close> moves the
  step costs of all instructions of a cost block to one check at its front.  The locale
  \<open>metered_machine\<close> is the contract between the meter and the operations it is used with: paying is
  additive, and an operation inside a cost block may be swapped with a payment.  Under it, code laid
  out in cost blocks does what the same operations do when every instruction pays for itself.
\<close>

section \<open>Refinement of outcomes\<close>

text \<open>Code implements a reference where the reference has a defined outcome.\<close>

definition refines :: "'a outcome \<Rightarrow> 'a outcome \<Rightarrow> bool" where
  "refines r c \<longleftrightarrow> r = Undefined \<or> r = c"

lemma refines_refl [simp, intro]: "refines r r"
  by (simp add: refines_def)

lemma refines_Undefined [simp]: "refines Undefined c"
  by (simp add: refines_def)

lemma refines_trans [trans]: "refines a b \<Longrightarrow> refines b c \<Longrightarrow> refines a c"
  by (auto simp: refines_def)

lemma refines_eq [trans]: "refines a b \<Longrightarrow> b = c \<Longrightarrow> refines a c" "a = b \<Longrightarrow> refines b c \<Longrightarrow> refines a c"
  by simp_all

lemma refines_obind:
  "refines a b \<Longrightarrow> (\<And>x. a = Done x \<Longrightarrow> refines (f x) (g x)) \<Longrightarrow> refines (obind a f) (obind b g)"
  by (cases a) (auto simp: refines_def)

lemma refines_bind_left: "refines a b \<Longrightarrow> refines (obind a f) (obind b f)"
  by (auto simp: refines_def)

lemma refines_bind_right: "(\<And>x. a = Done x \<Longrightarrow> refines (f x) (g x)) \<Longrightarrow> refines (obind a f) (obind a g)"
  by (rule refines_obind) auto

lemma refines_eqI: "(r \<noteq> Undefined \<Longrightarrow> r = c) \<Longrightarrow> refines r c"
  by (auto simp: refines_def)

section \<open>Instructions that pay for themselves, and laid out code\<close>

primrec run_acts ::
    "evmc_revision \<Rightarrow> ('a \<Rightarrow> 's \<Rightarrow> 's outcome) \<Rightarrow> (nat \<Rightarrow> 's \<Rightarrow> 's outcome) \<Rightarrow> 'a cost_action list \<Rightarrow> 's \<Rightarrow> 's outcome" where
  "run_acts m_rev ex pay [] s = Done s"
| "run_acts m_rev ex pay (a # as) s =
     obind (case a of Count inst \<Rightarrow> pay (nat (getStepCost m_rev inst)) s | Op x \<Rightarrow> ex x s | Commit \<Rightarrow> Done s)
       (run_acts m_rev ex pay as)"

primrec run_code ::
    "('a \<Rightarrow> 's \<Rightarrow> 's outcome) \<Rightarrow> (int option \<Rightarrow> 's \<Rightarrow> 's outcome) \<Rightarrow> 'a emitted list \<Rightarrow> 's \<Rightarrow> 's outcome" where
  "run_code ex check [] s = Done s"
| "run_code ex check (x # xs) s =
     obind (case x of GasCheck c \<Rightarrow> check c s | Emit a \<Rightarrow> ex a s) (run_code ex check xs)"

lemma run_acts_append:
  "run_acts m_rev ex pay (as @ bs) = (\<lambda>s. obind (run_acts m_rev ex pay as s) (run_acts m_rev ex pay bs))"
proof (induction as)
  case (Cons a as)
  show ?case by (rule ext) (simp add: Cons.IH obind_assoc)
qed simp

lemma run_code_append:
  "run_code ex check (xs @ ys) = (\<lambda>s. obind (run_code ex check xs s) (run_code ex check ys))"
proof (induction xs)
  case (Cons x xs)
  show ?case by (rule ext) (simp add: Cons.IH obind_assoc)
qed simp

lemma run_code_Nil [simp]: "run_code ex check [] = Done"
  by (rule ext) simp

lemma run_code_Emit: "run_code ex check (Emit a # xs) = (\<lambda>s. obind (ex a s) (run_code ex check xs))"
  by (rule ext) simp

text \<open>The operations of an open cost block are the ones a payment commutes with.\<close>

fun well_metered :: "('a \<Rightarrow> bool) \<Rightarrow> bool \<Rightarrow> 'a cost_action list \<Rightarrow> bool" where
  "well_metered metered opened [] = True"
| "well_metered metered opened (Count inst # as) = well_metered metered True as"
| "well_metered metered opened (Op a # as) = ((opened \<longrightarrow> metered a) \<and> well_metered metered opened as)"
| "well_metered metered opened (Commit # as) = well_metered metered False as"

definition opened_after :: "bool \<Rightarrow> 'a cost_action list \<Rightarrow> bool" where
  "opened_after opened as = foldl (\<lambda>opened a. case a of Count _ \<Rightarrow> True | Op _ \<Rightarrow> opened | Commit \<Rightarrow> False) opened as"

lemma opened_after_simps [simp]:
  "opened_after opened [] = opened"
  "opened_after opened (Count inst # as) = opened_after True as"
  "opened_after opened (Op a # as) = opened_after opened as"
  "opened_after opened (Commit # as) = opened_after False as"
  by (simp_all add: opened_after_def)

lemma well_metered_append:
  "well_metered metered opened (as @ bs) \<longleftrightarrow>
     well_metered metered opened as \<and> well_metered metered (opened_after opened as) bs"
  by (induction metered opened as rule: well_metered.induct) simp_all

lemma counted_append: "counted m_rev (as @ bs) = counted m_rev as + counted m_rev bs"
  by (induction m_rev as rule: counted.induct) simp_all

lemma counted_nonneg: "0 \<le> counted m_rev as"
  by (induction m_rev as rule: counted.induct) (simp_all add: getStepCost_nonneg)

lemma pending_le_counted: "pending m_rev as \<le> counted m_rev as"
  by (induction m_rev as rule: counted.induct) (simp_all add: getStepCost_nonneg counted_nonneg)

section \<open>The contract\<close>

locale metered_machine =
  fixes ex :: "'a \<Rightarrow> 's \<Rightarrow> 's outcome"
    and pay :: "nat \<Rightarrow> 's \<Rightarrow> 's outcome"
    and check :: "int option \<Rightarrow> 's \<Rightarrow> 's outcome"
    and inv :: "'s \<Rightarrow> bool"
    and metered :: "'a \<Rightarrow> bool"
  assumes pay_0: "inv s \<Longrightarrow> pay 0 s = Done s"
    and pay_pay: "inv s \<Longrightarrow> obind (pay m s) (pay n) = pay (m + n) s"
    and pay_inv: "inv s \<Longrightarrow> pay n s = Done s' \<Longrightarrow> inv s'"
    and check_pay: "inv s \<Longrightarrow> 0 \<le> c \<Longrightarrow> c < 2 ^ 63 \<Longrightarrow> check (Some c) s = pay (nat c) s"
    and ex_inv: "inv s \<Longrightarrow> ex a s = Done s' \<Longrightarrow> inv s'"
    and ex_pay: "metered a \<Longrightarrow> inv s \<Longrightarrow> refines (obind (ex a s) (pay n)) (obind (pay n s) (ex a))"
begin

lemma run_acts_inv: "inv s \<Longrightarrow> run_acts m_rev ex pay as s = Done s' \<Longrightarrow> inv s'"
proof (induction as arbitrary: s)
  case (Cons a as)
  then show ?case by (cases a) (auto simp: obind_eq_Done_iff dest: pay_inv ex_inv)
qed simp

lemma check_of_pay:
  assumes "inv s" "0 \<le> c" "c < 2 ^ 63"
  shows "run_code ex check (check_of c) s = pay (nat c) s"
  using assms by (simp add: check_of_def check_pay pay_0)

theorem prepaid_code:
  assumes "well_metered metered opened as" "inv s" "counted m_rev as < 2 ^ 63"
  shows "refines (run_acts m_rev ex pay as s)
    (if opened then obind (pay (nat (pending m_rev as)) s) (run_code ex check (layout m_rev True as))
     else run_code ex check (layout m_rev False as) s)"
  using assms
proof (induction as arbitrary: s opened)
  case Nil
  then show ?case by (simp add: pay_0)
next
  case (Cons a as)
  show ?case
  proof (cases a)
    case (Count inst)
    let ?c = "getStepCost m_rev inst" and ?p = "pending m_rev as"
    note nn = getStepCost_nonneg [of m_rev inst] pending_nonneg [of m_rev as]
    have lt: "counted m_rev as < 2 ^ 63" "?c + ?p < 2 ^ 63"
      using Cons.prems(3) nn pending_le_counted [of m_rev as] by (simp_all add: Count)
    have "refines (run_acts m_rev ex pay (a # as) s)
        (obind (pay (nat ?c) s) (\<lambda>s1. obind (pay (nat ?p) s1) (run_code ex check (layout m_rev True as))))"
      using Cons.IH [of True, OF _ pay_inv [OF Cons.prems(2)] lt(1)] Cons.prems(1)
      by (auto simp: Count intro!: refines_bind_right)
    also have "\<dots> = obind (pay (nat (?c + ?p)) s) (run_code ex check (layout m_rev True as))"
      using nn by (simp add: obind_assoc [symmetric] pay_pay [OF Cons.prems(2)] nat_add_distrib)
    finally show ?thesis
      using check_of_pay [OF Cons.prems(2) _ lt(2)] nn by (simp add: Count run_code_append)
  next
    case (Op x)
    have lt: "counted m_rev as < 2 ^ 63" using Cons.prems(3) by (simp add: Op)
    have IH: "ex x s = Done s1 \<Longrightarrow> refines (run_acts m_rev ex pay as s1)
        (if opened then obind (pay (nat (pending m_rev as)) s1) (run_code ex check (layout m_rev True as))
         else run_code ex check (layout m_rev False as) s1)" for s1
      using Cons.IH [of opened, OF _ ex_inv [OF Cons.prems(2)] lt] Cons.prems(1) by (simp add: Op)
    show ?thesis
    proof (cases opened)
      case True
      let ?p = "nat (pending m_rev as)" and ?K = "run_code ex check (layout m_rev True as)"
      have "refines (run_acts m_rev ex pay (a # as) s) (obind (obind (ex x s) (pay ?p)) ?K)"
        using IH True by (auto simp: Op obind_assoc intro!: refines_bind_right)
      also have "refines \<dots> (obind (obind (pay ?p s) (ex x)) ?K)"
        using ex_pay [of x s ?p] Cons.prems(1,2) True by (intro refines_bind_left) (simp add: Op)
      finally show ?thesis using True by (simp add: Op obind_assoc run_code_Emit)
    next
      case False
      then show ?thesis using IH by (auto simp: Op intro!: refines_bind_right)
    qed
  next
    case Commit
    have lt: "counted m_rev as < 2 ^ 63" using Cons.prems(3) by (simp add: Commit)
    show ?thesis
      using Cons.IH [of False, OF _ Cons.prems(2) lt] Cons.prems(1) pay_0 [OF Cons.prems(2)] by (simp add: Commit)
  qed
qed

end

end
