(* ===== verification/Array.thy ===== *)
theory Array
  imports Bytes
begin

text \<open>
  \<^verbatim>\<open>libevmjit/Array.cpp\<close>: the growable buffer \<^verbatim>\<open>{data, size, cap}\<close>.  The emitted functions
  \<^verbatim>\<open>array.push/set/get\<close> use it as an array of 256-bit words, \<^verbatim>\<open>array.getPtr\<close> and \<^verbatim>\<open>array.extend\<close>
  as bytes; the EVM memory is of the second kind.  The bytes \<^verbatim>\<open>data\<close> points to are a list, as long as
  the allocation.  An access outside of it is \<open>Undefined\<close>.

  What the code depends on of the machine it runs on is the record \<open>machine\<close>: the byte order, the
  largest allocation that \<^verbatim>\<open>realloc\<close> grants, and the bytes it leaves in the part it adds.
\<close>

section \<open>The machine\<close>

record machine =
  little_endian :: bool
  heap_limit :: nat
  heap_junk :: "nat \<Rightarrow> byte"

definition realloc :: "machine \<Rightarrow> byte list \<Rightarrow> nat \<Rightarrow> byte list option" where
  "realloc mc data n =
     (if n \<le> heap_limit mc
      then Some (take n data @ map (heap_junk mc) [length data..<n])
      else None)"

text \<open>Loads and stores through a pointer into an allocation.\<close>

definition mem_read :: "byte list \<Rightarrow> nat \<Rightarrow> nat \<Rightarrow> byte list option" where
  "mem_read data p n = (if p + n \<le> length data then Some (take n (drop p data)) else None)"

definition mem_write :: "byte list \<Rightarrow> nat \<Rightarrow> byte list \<Rightarrow> byte list option" where
  "mem_write data p bs =
     (if p + length bs \<le> length data
      then Some (take p data @ bs @ drop (p + length bs) data)
      else None)"

lemma length_realloc: "realloc mc data n = Some data' \<Longrightarrow> length data' = n"
  unfolding realloc_def by (auto split: if_split_asm)

lemma take_realloc: "realloc mc data n = Some data' \<Longrightarrow> length data \<le> n \<Longrightarrow> take (length data) data' = data"
  unfolding realloc_def by (auto split: if_split_asm)

lemma length_mem_write: "mem_write data p bs = Some data' \<Longrightarrow> length data' = length data"
  unfolding mem_write_def by (auto split: if_split_asm)

lemma mem_write_0 [simp]: "mem_write data p [] = (if p \<le> length data then Some data else None)"
  by (simp add: mem_write_def)

lemma mem_write_Some_iff:
  "mem_write data p bs = Some data' \<longleftrightarrow>
     p + length bs \<le> length data \<and> data' = take p data @ bs @ drop (p + length bs) data"
  unfolding mem_write_def by auto

lemma mem_read_Some_iff:
  "mem_read data p n = Some bs \<longleftrightarrow> p + n \<le> length data \<and> bs = take n (drop p data)"
  unfolding mem_read_def by auto

lemma mem_read_write:
  "mem_write data p bs = Some data' \<Longrightarrow> mem_read data' p (length bs) = Some bs"
  by (simp add: mem_write_Some_iff mem_read_Some_iff)

lemma mem_write_nth:
  assumes "mem_write data p bs = Some data'" "i < length data"
  shows "data' ! i = (if p \<le> i \<and> i < p + length bs then bs ! (i - p) else data ! i)"
  using assms by (auto simp: mem_write_Some_iff nth_append)

lemma mem_read_write_other:
  assumes "mem_write data p bs = Some data'" "q + n \<le> p \<or> p + length bs \<le> q"
  shows "mem_read data' q n = mem_read data q n"
proof -
  have len: "length data' = length data" using assms(1) by (rule length_mem_write)
  have "take n (drop q data') = take n (drop q data)" if "q + n \<le> length data"
    using assms(2) that by (intro nth_equalityI) (auto simp: mem_write_nth [OF assms(1)] len)
  then show ?thesis by (simp add: mem_read_def len)
qed

section \<open>The array\<close>

record array =
  a_data :: "byte list"
  a_size :: i64
  a_cap :: i64

text \<open>Both constructors store the zero aggregate: a null pointer and no elements.\<close>

definition new_array :: array where
  "new_array = \<lparr> a_data = [], a_size = 0, a_cap = 0 \<rparr>"

definition c_reallocStep :: i64 where
  "c_reallocStep = 1"

definition array_push :: "machine \<Rightarrow> array \<Rightarrow> word256 \<Rightarrow> array outcome" where
  "array_push mc arr value =
     (let data = a_data arr;
          size = a_size arr;
          cap = a_cap arr;
          reallocReq = (cap = size)
      in obind
        (if reallocReq then
           use (ir_nuw_add (Some cap) (Some c_reallocStep)) (\<lambda>newCap.
             let reallocSize = push_bit 5 newCap
             in use (realloc mc data (unat reallocSize)) (\<lambda>newData.
                  Done (arr\<lparr> a_data := newData, a_cap := newCap \<rparr>)))
         else Done arr)
        (\<lambda>arr1.
           use (mem_write (a_data arr1) (32 * unat size) (host_store (little_endian mc) value)) (\<lambda>data1.
             use (ir_nuw_add (Some size) (Some 1)) (\<lambda>newSize.
               Done (arr1\<lparr> a_data := data1, a_size := newSize \<rparr>)))))"

definition array_set :: "machine \<Rightarrow> array \<Rightarrow> i64 \<Rightarrow> word256 \<Rightarrow> array outcome" where
  "array_set mc arr index value =
     use (mem_write (a_data arr) (32 * unat index) (host_store (little_endian mc) value)) (\<lambda>data.
       Done (arr\<lparr> a_data := data \<rparr>))"

definition array_get :: "machine \<Rightarrow> array \<Rightarrow> i64 \<Rightarrow> word256 outcome" where
  "array_get mc arr index =
     use (mem_read (a_data arr) (32 * unat index) 32) (\<lambda>bs. Done (host_load (little_endian mc) bs))"

definition array_pop :: "array \<Rightarrow> i64 \<Rightarrow> array outcome" where
  "array_pop arr n = use (ir_nuw_sub (Some (a_size arr)) (Some n)) (\<lambda>newSize. Done (arr\<lparr> a_size := newSize \<rparr>))"

definition array_free :: "array \<Rightarrow> byte list option" where
  "array_free arr = (if a_data arr = [] then None else Some (a_data arr))"

text \<open>\<^verbatim>\<open>array.extend\<close>: the bytes between the old and the new size become 0.  The result of \<^verbatim>\<open>realloc\<close>
  is not checked: a null pointer goes into the \<^verbatim>\<open>memset\<close>.\<close>

definition array_extend :: "machine \<Rightarrow> array \<Rightarrow> i64 \<Rightarrow> array outcome" where
  "array_extend mc arr newSize =
     (let data = a_data arr;
          size = a_size arr
      in use (ir_nuw_sub (Some newSize) (Some size)) (\<lambda>extSize.
           use (realloc mc data (unat newSize)) (\<lambda>newData.
             use (mem_write newData (unat size) (replicate (unat extSize) 0)) (\<lambda>data1.
               Done (arr\<lparr> a_data := data1, a_size := newSize, a_cap := newSize \<rparr>)))))"

section \<open>Arrays of words\<close>

text \<open>The well-formed word arrays and the list of words one holds.\<close>

definition word_array_ok :: "array \<Rightarrow> bool" where
  "word_array_ok arr \<longleftrightarrow>
     a_size arr \<le> a_cap arr \<and> unat (a_cap arr) < 2 ^ 58 \<and> length (a_data arr) = 32 * unat (a_cap arr)"

definition words_of :: "machine \<Rightarrow> array \<Rightarrow> word256 list" where
  "words_of mc arr =
     map (\<lambda>i. host_load (little_endian mc) (take 32 (drop (32 * i) (a_data arr)))) [0..<unat (a_size arr)]"

lemma length_words_of [simp]: "length (words_of mc arr) = unat (a_size arr)"
  by (simp add: words_of_def)

lemma host_load_store [simp]: "8 dvd LENGTH('a) \<Longrightarrow> host_load le (host_store le w) = (w :: 'a::len word)"
  by (auto simp: host_load_def host_store_def of_le_def to_be_def [symmetric])

lemma to_be_rev: "rev (to_le w) = to_be w"
  by (simp add: to_be_def)

text \<open>Overwriting the 32 bytes of one word changes that word only.\<close>

lemma word_write:
  assumes "mem_write data (32 * k) (host_store le (v :: word256)) = Some data'"
  shows "take 32 (drop (32 * i) data') =
    (if i = k then host_store le v else take 32 (drop (32 * i) data))"
proof (cases "i = k")
  case True
  then show ?thesis using mem_read_write [OF assms] by (simp add: mem_read_Some_iff)
next
  case False
  then have apart: "32 * i + 32 \<le> 32 * k \<or> 32 * k + 32 \<le> 32 * i" by linarith
  have len: "length data' = length data" using assms by (rule length_mem_write)
  have "take 32 (drop (32 * i) data') = take 32 (drop (32 * i) data)"
    using apart by (intro nth_equalityI) (auto simp: mem_write_nth [OF assms] len)
  with False show ?thesis by simp
qed

lemma take32_prefix:
  assumes "take (length d) d' = d" "32 * (i + 1) \<le> length d"
  shows "take 32 (drop (32 * i) d') = take 32 (drop (32 * i) d)"
proof -
  have "take 32 (drop (32 * i) (take (length d) d')) = take 32 (drop (32 * i) d')"
    using assms(2) by (simp add: drop_take min_def)
  then show ?thesis using assms(1) by simp
qed

lemma words_of_nth:
  "i < unat (a_size arr) \<Longrightarrow>
   words_of mc arr ! i = host_load (little_endian mc) (take 32 (drop (32 * i) (a_data arr)))"
  by (simp add: words_of_def)

text \<open>Storing a word in an array with room for it.\<close>

lemma store_word_ok:
  assumes "32 * (k + 1) \<le> length d"
  obtains d' where "mem_write d (32 * k) (host_store le (v :: word256)) = Some d'" "length d' = length d"
  using assms by (auto simp: mem_write_def)

lemma array_push_ok:
  assumes ok: "word_array_ok arr" and cap: "unat (a_cap arr) + 1 < 2 ^ 58"
    and heap: "32 * (unat (a_cap arr) + 1) \<le> heap_limit mc"
  obtains arr' where "array_push mc arr v = Done arr'" "word_array_ok arr'"
    "words_of mc arr' = words_of mc arr @ [v]"
proof -
  let ?n = "unat (a_size arr)"
  have "\<exists>arr1. (if a_cap arr = a_size arr
       then use (ir_nuw_add (Some (a_cap arr)) (Some c_reallocStep)) (\<lambda>newCap.
         let reallocSize = push_bit 5 newCap
         in use (realloc mc (a_data arr) (unat reallocSize)) (\<lambda>newData.
              Done (arr\<lparr> a_data := newData, a_cap := newCap \<rparr>)))
       else Done arr) = Done arr1 \<and> a_size arr1 = a_size arr \<and>
       a_size arr < a_cap arr1 \<and> unat (a_cap arr1) < 2 ^ 58 \<and>
       length (a_data arr1) = 32 * unat (a_cap arr1) \<and>
       take (length (a_data arr)) (a_data arr1) = a_data arr"
  proof (cases "a_cap arr = a_size arr")
    case True
    have c1: "unat (a_cap arr + 1) = unat (a_cap arr) + 1" using cap by (simp add: unat_add_no_wrap)
    have sz: "unat (push_bit 5 (a_cap arr + 1)) = 32 * (unat (a_cap arr) + 1)"
      using cap c1 by (subst unat_push_bit_no_wrap) simp_all
    obtain d where d: "realloc mc (a_data arr) (32 * (unat (a_cap arr) + 1)) = Some d"
      using heap by (simp add: realloc_def)
    then show ?thesis
      using True ok cap c1 sz length_realloc [OF d] take_realloc [OF d]
      by (simp add: ir_simps c_reallocStep_def word_array_ok_def word_less_nat_alt)
  next
    case False
    with ok show ?thesis by (simp add: word_array_ok_def order_less_le)
  qed
  then obtain arr1 where grow: "(if a_cap arr = a_size arr
       then use (ir_nuw_add (Some (a_cap arr)) (Some c_reallocStep)) (\<lambda>newCap.
         let reallocSize = push_bit 5 newCap
         in use (realloc mc (a_data arr) (unat reallocSize)) (\<lambda>newData.
              Done (arr\<lparr> a_data := newData, a_cap := newCap \<rparr>)))
       else Done arr) = Done arr1"
    and arr1: "a_size arr1 = a_size arr" "a_size arr < a_cap arr1" "unat (a_cap arr1) < 2 ^ 58"
      "length (a_data arr1) = 32 * unat (a_cap arr1)"
      "take (length (a_data arr)) (a_data arr1) = a_data arr"
    by auto
  have room: "32 * (?n + 1) \<le> length (a_data arr1)" using arr1 by (simp add: word_less_nat_alt)
  obtain d where d: "mem_write (a_data arr1) (32 * ?n) (host_store (little_endian mc) v) = Some d"
    "length d = length (a_data arr1)" using room by (rule store_word_ok)
  have s1: "unat (a_size arr + 1) = ?n + 1" "?n + 1 < 2 ^ 64"
    using arr1 by (simp_all add: word_less_nat_alt unat_add_no_wrap)
  let ?arr' = "arr1\<lparr> a_data := d, a_size := a_size arr + 1 \<rparr>"
  have "array_push mc arr v = Done ?arr'"
    using grow d s1 by (simp add: array_push_def Let_def ir_simps cong: if_cong)
  moreover have "word_array_ok ?arr'"
    using arr1 d s1 by (simp add: word_array_ok_def word_less_nat_alt word_le_nat_alt)
  moreover have "words_of mc ?arr' = words_of mc arr @ [v]"
  proof (rule nth_equalityI)
    fix i assume "i < length (words_of mc ?arr')"
    then have i: "i < ?n + 1" by (simp add: s1)
    have "words_of mc ?arr' ! i = host_load (little_endian mc) (take 32 (drop (32 * i) d))"
      using i by (simp add: words_of_nth s1)
    moreover have "32 * (i + 1) \<le> length (a_data arr)" if "i < ?n"
      using that ok by (simp add: word_array_ok_def word_le_nat_alt)
    ultimately show "words_of mc ?arr' ! i = (words_of mc arr @ [v]) ! i"
      using i word_write [OF d(1), of i] take32_prefix [OF arr1(5), of i]
      by (cases "i = ?n") (simp_all add: nth_append words_of_nth)
  qed (simp add: s1)
  ultimately show ?thesis by (rule that)
qed

lemma array_get_ok:
  assumes "word_array_ok arr" "i < a_size arr"
  shows "array_get mc arr i = Done (words_of mc arr ! unat i)"
  using assms by (simp add: array_get_def mem_read_def words_of_nth word_array_ok_def word_le_nat_alt word_less_nat_alt)

lemma array_set_ok:
  assumes "word_array_ok arr" "i < a_size arr"
  obtains arr' where "array_set mc arr i v = Done arr'" "word_array_ok arr'"
    "words_of mc arr' = (words_of mc arr)[unat i := v]"
proof -
  have "32 * (unat i + 1) \<le> length (a_data arr)"
    using assms by (simp add: word_array_ok_def word_le_nat_alt word_less_nat_alt)
  then obtain d where d: "mem_write (a_data arr) (32 * unat i) (host_store (little_endian mc) v) = Some d"
    "length d = length (a_data arr)" by (rule store_word_ok)
  have "words_of mc (arr\<lparr> a_data := d \<rparr>) = (words_of mc arr)[unat i := v]"
    using word_write [OF d(1)] by (intro nth_equalityI) (simp_all add: words_of_nth nth_list_update)
  moreover have "word_array_ok (arr\<lparr> a_data := d \<rparr>)" using assms d by (simp add: word_array_ok_def)
  ultimately show ?thesis using d by (intro that [of "arr\<lparr> a_data := d \<rparr>"]) (simp_all add: array_set_def)
qed

lemma array_pop_ok:
  assumes "word_array_ok arr" "n \<le> a_size arr"
  shows "array_pop arr n = Done (arr\<lparr> a_size := a_size arr - n \<rparr>)"
    and "word_array_ok (arr\<lparr> a_size := a_size arr - n \<rparr>)"
    and "words_of mc (arr\<lparr> a_size := a_size arr - n \<rparr>) = take (unat (a_size arr) - unat n) (words_of mc arr)"
  using assms
  by (simp_all add: array_pop_def ir_simps word_array_ok_def words_of_def take_map unat_sub_no_wrap
      word_le_nat_alt le_diff_conv trans_le_add1)

section \<open>Properties\<close>

text \<open>
  On a well-formed word array the emitted operations refine the list of its words: \<^verbatim>\<open>array.push\<close>
  appends, reallocating exactly when the array is full, \<^verbatim>\<open>array.get\<close> reads the last word back, and
  \<^verbatim>\<open>Array::pop\<close> undoes the push; all stay inside the allocation as long as \<^verbatim>\<open>realloc\<close> succeeds.
\<close>

lemma word_array_refines_list:
  assumes "word_array_ok arr" "unat (a_cap arr) + 1 < 2 ^ 58"
    and "32 * (unat (a_cap arr) + 1) \<le> heap_limit mc"
  shows "\<exists>arr'. array_push mc arr v = Done arr' \<and> word_array_ok arr' \<and>
    words_of mc arr' = words_of mc arr @ [v] \<and>
    array_get mc arr' (a_size arr' - 1) = Done v \<and>
    (\<exists>arr''. array_pop arr' 1 = Done arr'' \<and> words_of mc arr'' = words_of mc arr)"
proof -
  obtain arr' where arr': "array_push mc arr v = Done arr'" "word_array_ok arr'"
    "words_of mc arr' = words_of mc arr @ [v]" using assms by (rule array_push_ok)
  have size: "unat (a_size arr') = unat (a_size arr) + 1"
    using arg_cong [OF arr'(3), of length] by simp
  then have pos: "1 \<le> a_size arr'" by (simp add: word_le_nat_alt)
  then have last: "unat (a_size arr' - 1) = unat (a_size arr)" by (simp add: unat_sub_no_wrap size)
  then have "a_size arr' - 1 < a_size arr'" using size by (simp add: word_less_nat_alt)
  then have "array_get mc arr' (a_size arr' - 1) = Done v"
    using arr'(2,3) last by (simp add: array_get_ok nth_append)
  moreover have "\<exists>arr''. array_pop arr' 1 = Done arr'' \<and> words_of mc arr'' = words_of mc arr"
    using array_pop_ok(1) [OF arr'(2) pos] array_pop_ok(3) [OF arr'(2) pos, of mc] arr'(3) size by simp
  ultimately show ?thesis using arr' by blast
qed

end
