(* ===== verification/Host.thy ===== *)
theory Host
  imports Array GasMeter
begin

text \<open>
  The host interface.  \<^verbatim>\<open>evmc_context_fn_table\<close> belongs to the EVMC headers, a submodule that is not
  part of the repository: it is the record \<open>evmc_host\<close>, a parameter of every definition that uses
  it, over an abstract type \<open>'h\<close> of host states.  Addresses, storage keys and values are the byte
  strings that cross the C interface.  On it rest the callbacks that \<^verbatim>\<open>libevmjit/JIT.cpp\<close> gives the
  compiled code: \<open>call\<close> (the symbol \<^verbatim>\<open>evm.call\<close>) and \<open>getCode\<close> (the symbol \<^verbatim>\<open>evm.code\<close>).
\<close>

section \<open>The EVMC interface\<close>

text \<open>\<^verbatim>\<open>evmc_call_kind\<close> and the constant \<^verbatim>\<open>EVM_STATICCALL\<close> that \<^verbatim>\<open>Ext.h\<close> adds to it.\<close>

datatype call_kind = EVMC_CALL | EVMC_DELEGATECALL | EVMC_CALLCODE | EVMC_CREATE | EVM_STATICCALL

datatype status_code = EVMC_SUCCESS | EVMC_FAILURE | EVMC_REVERT | EVMC_REJECTED | EVMC_INTERNAL_ERROR
  | EVMC_OTHER int

definition EVMC_STATIC :: "32 word" where
  "EVMC_STATIC = 1"

text \<open>\<^verbatim>\<open>evmc_message\<close>; \<open>None\<close> for the destination is the undefined address that \<^verbatim>\<open>Ext::create\<close> passes,
  \<open>None\<close> for the code hash the field that \<open>call\<close> leaves uninitialised.\<close>

record evmc_message =
  destination :: "byte list option"
  sender :: "byte list"
  msg_value :: "byte list"
  input_data :: "byte list"
  msg_gas :: i64
  msg_depth :: "32 word"
  msg_flags :: "32 word"
  msg_kind :: call_kind
  msg_code_hash :: "byte list option"

record evmc_result =
  status_code :: status_code
  gas_left :: i64
  output_data :: "byte list"
  create_address :: "byte list"

record tx_context =
  tx_gas_price :: "byte list"
  tx_origin :: "byte list"
  block_coinbase :: "byte list"
  block_number :: i64
  block_timestamp :: i64
  block_gas_limit :: i64
  block_difficulty :: "byte list"

record 'h evmc_host =
  account_exists :: "'h \<Rightarrow> byte list \<Rightarrow> 32 word"
  get_storage :: "'h \<Rightarrow> byte list \<Rightarrow> byte list \<Rightarrow> byte list"
  set_storage :: "'h \<Rightarrow> byte list \<Rightarrow> byte list \<Rightarrow> byte list \<Rightarrow> 'h"
  get_balance :: "'h \<Rightarrow> byte list \<Rightarrow> byte list"
  get_code_size :: "'h \<Rightarrow> byte list \<Rightarrow> i64"
  copy_code :: "'h \<Rightarrow> byte list \<Rightarrow> nat \<Rightarrow> nat \<Rightarrow> byte list"
  host_selfdestruct :: "'h \<Rightarrow> byte list \<Rightarrow> byte list \<Rightarrow> 'h"
  host_call :: "'h \<Rightarrow> evmc_message \<Rightarrow> evmc_result \<times> 'h"
  get_tx_context :: "'h \<Rightarrow> tx_context"
  get_block_hash :: "'h \<Rightarrow> i64 \<Rightarrow> byte list"
  emit_log :: "'h \<Rightarrow> byte list \<Rightarrow> byte list \<Rightarrow> byte list list \<Rightarrow> 'h"

section \<open>The call callback\<close>

definition EVM_CALL_FAILURE :: i64 where
  "EVM_CALL_FAILURE = 0x8000000000000000"

text \<open>
  \<^verbatim>\<open>call\<close>: builds the message from the arguments and the message \<open>cur\<close> of the running frame, calls
  the host and returns the gas left with the failure flag, the bytes written to the output buffer,
  the new RETURNDATA buffer and the host's state.
\<close>

definition call_message ::
    "evmc_message \<Rightarrow> call_kind \<Rightarrow> i64 \<Rightarrow> byte list option \<Rightarrow> byte list \<Rightarrow> byte list \<Rightarrow> evmc_message" where
  "call_message cur kind gas address value inputData =
     \<lparr> destination = address,
       sender = (if kind \<noteq> EVMC_DELEGATECALL then (case destination cur of Some a \<Rightarrow> a | None \<Rightarrow> []) else sender cur),
       msg_value = (if kind \<noteq> EVMC_DELEGATECALL then value else msg_value cur),
       input_data = inputData,
       msg_gas = gas,
       msg_depth = msg_depth cur + 1,
       msg_flags = (if kind = EVM_STATICCALL then msg_flags cur OR EVMC_STATIC else msg_flags cur),
       msg_kind = (if kind = EVM_STATICCALL then EVMC_CALL else kind),
       msg_code_hash = None \<rparr>"

definition call ::
    "'h evmc_host \<Rightarrow> evmc_message \<Rightarrow> 'h \<Rightarrow> call_kind \<Rightarrow> i64 \<Rightarrow> byte list option \<Rightarrow> byte list \<Rightarrow> byte list \<Rightarrow>
     nat \<Rightarrow> i64 \<times> byte list \<times> byte list \<times> 'h" where
  "call host cur h kind gas address value inputData outputSize =
     (let msg = call_message cur kind gas address value inputData;
          (result, h1) = host_call host h msg;
          r = gas_left result;
          sz = min outputSize (length (output_data result));
          out = take sz (output_data result);
          returnBuffer = output_data result;
          out1 = (if kind = EVMC_CREATE \<and> status_code result = EVMC_SUCCESS
                  then create_address result @ drop (length (create_address result)) out else out);
          r1 = (if status_code result \<noteq> EVMC_SUCCESS then r OR EVM_CALL_FAILURE else r)
      in (r1, out1, returnBuffer, h1))"

text \<open>\<^verbatim>\<open>getCode\<close>: the bytes the host copied into the code buffer.\<close>

definition getCode :: "'h evmc_host \<Rightarrow> 'h \<Rightarrow> byte list \<Rightarrow> byte list" where
  "getCode host h address =
     (let codeSize = unat (get_code_size host h address)
      in copy_code host h address 0 codeSize)"

section \<open>What the host promises\<close>

text \<open>
  The documented contract of EVMC: the lengths of what it writes are those of the C types, the gas
  left is not negative and at most the gas of the message.
\<close>

definition host_ok :: "'h evmc_host \<Rightarrow> bool" where
  "host_ok host \<longleftrightarrow>
     (\<forall>h a k. length (get_storage host h a k) = 32) \<and>
     (\<forall>h a. length (get_balance host h a) = 32) \<and>
     (\<forall>h n. length (get_block_hash host h n) = 32) \<and>
     (\<forall>h a o' n. length (copy_code host h a o' n) \<le> n) \<and> (\<forall>h a. unat (get_code_size host h a) < 2 ^ 63) \<and>
     (\<forall>h. length (tx_gas_price (get_tx_context host h)) = 32 \<and> length (tx_origin (get_tx_context host h)) = 20 \<and>
          length (block_coinbase (get_tx_context host h)) = 20 \<and> length (block_difficulty (get_tx_context host h)) = 32) \<and>
     (\<forall>h m r h'. host_call host h m = (r, h') \<longrightarrow>
        unat (gas_left r) \<le> unat (msg_gas m) \<and> length (create_address r) = 20 \<and> length (output_data r) < 2 ^ 63)"

lemma host_okD:
  assumes "host_ok host"
  shows "length (get_storage host h a k) = 32" "length (get_balance host h a) = 32"
    "length (get_block_hash host h n) = 32" "length (copy_code host h a i m) \<le> m"
    "unat (get_code_size host h a) < 2 ^ 63"
    "length (tx_gas_price (get_tx_context host h)) = 32" "length (tx_origin (get_tx_context host h)) = 20"
    "length (block_coinbase (get_tx_context host h)) = 20" "length (block_difficulty (get_tx_context host h)) = 32"
  using assms unfolding host_ok_def by blast+

lemma host_ok_call:
  assumes "host_ok host" "host_call host h m = (r, h')"
  shows "unat (gas_left r) \<le> unat (msg_gas m)" "length (create_address r) = 20" "length (output_data r) < 2 ^ 63"
  using assms unfolding host_ok_def by blast+

section \<open>The failure flag\<close>

text \<open>The flag is the sign bit, so a gas value below \<open>2 ^ 63\<close> is recovered by subtracting it.\<close>

lemma call_failure_flag:
  assumes "unat r < 2 ^ 63"
  shows "r OR EVM_CALL_FAILURE = r + EVM_CALL_FAILURE" "sint (r OR EVM_CALL_FAILURE) < 0"
    "(r OR EVM_CALL_FAILURE) - EVM_CALL_FAILURE = r"
proof -
  have F: "EVM_CALL_FAILURE = push_bit 63 1" by (simp add: EVM_CALL_FAILURE_def)
  have "unat (drop_bit 63 r) = 0" using assms by (simp add: unat_drop_bit)
  then have "drop_bit 63 r = 0" by (simp only: unat_eq_0)
  then have nb: "\<not> bit r n" if "63 \<le> n" for n
    using that bit_drop_bit_eq [of 63 r, THEN fun_cong, of "n - 63"] by simp
  have disj: "r AND EVM_CALL_FAILURE = 0"
  proof (rule bit_eqI)
    fix n
    have "bit EVM_CALL_FAILURE n \<Longrightarrow> 63 \<le> n" unfolding F by (simp only: bit_simps)
    then show "bit (r AND EVM_CALL_FAILURE) n = bit (0 :: i64) n" using nb by (auto simp: bit_and_iff)
  qed
  show eq: "r OR EVM_CALL_FAILURE = r + EVM_CALL_FAILURE"
    using word_plus_and_or [of r EVM_CALL_FAILURE] by (simp add: disj)
  then show "(r OR EVM_CALL_FAILURE) - EVM_CALL_FAILURE = r" by simp
  have "unat (r + EVM_CALL_FAILURE) = unat r + 2 ^ 63"
    using assms by (subst unat_add_no_wrap) (simp_all add: EVM_CALL_FAILURE_def)
  then have "\<not> unat (r OR EVM_CALL_FAILURE) < 2 ^ 63" by (simp add: eq)
  then show "sint (r OR EVM_CALL_FAILURE) < 0" using sint64_nonneg_iff [of "r OR EVM_CALL_FAILURE"] by linarith
qed

end
