(* ===== verification/Memory.thy ===== *)
theory Memory
  imports Array GasMeter
begin

text \<open>
  \<^verbatim>\<open>libevmjit/Memory.cpp\<close>: the EVM memory, an \<^verbatim>\<open>Array\<close> used as bytes, and the gas it costs.  The state
  of the emitted code that these operations read and write is the pair of the array and the gas
  counter.  The reference for gas is the EVM's memory cost function \<open>Cmem\<close> on unbounded numbers.
\<close>

section \<open>mem.require\<close>

type_synonym mem_state = "array \<times> i64"

definition c_inputMax :: nat where
  "c_inputMax = 2 ^ 33"

text \<open>The cost of a number of words, as the "Resize" block computes it.\<close>

definition memory_cost64 :: "i64 \<Rightarrow> i64 pv" where
  "memory_cost64 w =
     (let ws = ir_nuw_mul (Some w) (Some w)
      in ir_add (ir_nuw_mul (Some w) (Some 3)) (ir_lshr ws 9))"

definition require_func :: "machine \<Rightarrow> word256 \<Rightarrow> word256 \<Rightarrow> mem_state \<Rightarrow> mem_state outcome" where
  "require_func mc blkOffset blkSize = (\<lambda>(mem, gas).
     if blkSize \<noteq> 0 then
       (let inputMax = (of_nat c_inputMax :: i64);
            blkOffsetOk = (blkOffset \<le> of_nat c_inputMax);
            blkO = (if blkOffsetOk then ucast blkOffset else inputMax);
            blkSizeOk = (blkSize \<le> of_nat c_inputMax);
            blkS = (if blkSizeOk then ucast blkSize else inputMax);
            sizeReq0 = ir_nuw_add (Some blkO) (Some blkS);
            sizeReq = ir_and (ir_nuw_add sizeReq0 (Some 31)) (Some (push_bit 5 (- 1)));
            sizeCur = a_size mem
        in use sizeReq (\<lambda>sizeReq.
          if sizeReq \<le> sizeCur then Done (mem, gas)
          else
            (let w1 = drop_bit 5 sizeReq;
                 c1 = memory_cost64 w1;
                 w0 = drop_bit 5 sizeCur;
                 c0 = memory_cost64 w0;
                 cc = ir_nuw_sub c1 c0;
                 costOk = (blkOffsetOk \<and> blkSizeOk);
                 c = ir_select (Some costOk) cc (Some gasMax)
             in obind (countMemory gas c) (\<lambda>gas1.
                obind (array_extend mc mem sizeReq) (\<lambda>mem1.
                Done (mem1, gas1))))))
     else Done (mem, gas))"

text \<open>\<^verbatim>\<open>Memory::require\<close>: no call is emitted for a size that is the constant 0.\<close>

definition require :: "machine \<Rightarrow> word256 \<Rightarrow> word256 ssa \<Rightarrow> mem_state \<Rightarrow> mem_state outcome" where
  "require mc off len s =
     (case len of
        ConstantInt c \<Rightarrow> if c = 0 then Done s else require_func mc off c s
      | Inst c \<Rightarrow> require_func mc off c s)"

section \<open>Loads and stores\<close>

text \<open>The functions \<^verbatim>\<open>mstore\<close>, \<^verbatim>\<open>mstore8\<close>, \<^verbatim>\<open>mload\<close> that \<^verbatim>\<open>Memory::createFunc\<close> emits.\<close>

definition store_word_func :: "machine \<Rightarrow> word256 \<Rightarrow> word256 \<Rightarrow> array \<Rightarrow> array outcome" where
  "store_word_func mc index valueArg mem =
     (let value = toBE (little_endian mc) valueArg
      in use (mem_write (a_data mem) (unat (ucast index :: i64)) (host_store (little_endian mc) value))
           (\<lambda>data. Done (mem\<lparr> a_data := data \<rparr>)))"

definition store_byte_func :: "word256 \<Rightarrow> byte \<Rightarrow> array \<Rightarrow> array outcome" where
  "store_byte_func index value mem =
     use (mem_write (a_data mem) (unat (ucast index :: i64)) [value]) (\<lambda>data. Done (mem\<lparr> a_data := data \<rparr>))"

definition load_word_func :: "machine \<Rightarrow> word256 \<Rightarrow> array \<Rightarrow> word256 outcome" where
  "load_word_func mc index mem =
     use (mem_read (a_data mem) (unat (ucast index :: i64)) 32)
       (\<lambda>bs. Done (toNative (little_endian mc) (host_load (little_endian mc) bs)))"

definition loadWord :: "machine \<Rightarrow> word256 \<Rightarrow> mem_state \<Rightarrow> (word256 \<times> mem_state) outcome" where
  "loadWord mc addr s =
     obind (require mc addr (ConstantInt 32) s) (\<lambda>(mem, gas).
     obind (load_word_func mc addr mem) (\<lambda>v. Done (v, (mem, gas))))"

definition storeWord :: "machine \<Rightarrow> word256 \<Rightarrow> word256 \<Rightarrow> mem_state \<Rightarrow> mem_state outcome" where
  "storeWord mc addr word s =
     obind (require mc addr (ConstantInt 32) s) (\<lambda>(mem, gas).
     obind (store_word_func mc addr word mem) (\<lambda>mem1. Done (mem1, gas)))"

definition storeByte :: "machine \<Rightarrow> word256 \<Rightarrow> word256 \<Rightarrow> mem_state \<Rightarrow> mem_state outcome" where
  "storeByte mc addr word s =
     obind (require mc addr (ConstantInt 1) s) (\<lambda>(mem, gas).
     obind (store_byte_func addr (ucast word) mem) (\<lambda>mem1. Done (mem1, gas)))"

definition getSize :: "array \<Rightarrow> word256" where
  "getSize mem = ucast (a_size mem)"

section \<open>Copies\<close>

text \<open>\<^verbatim>\<open>memcpy\<close> from the bytes \<open>src\<close> points to, at most as many as there are.\<close>

definition memcpy :: "byte list \<Rightarrow> nat \<Rightarrow> byte list \<Rightarrow> nat \<Rightarrow> nat \<Rightarrow> byte list option" where
  "memcpy dst p src q n =
     (if n = 0 then Some dst
      else Option.bind (mem_read src q n) (mem_write dst p))"

definition memset0 :: "byte list \<Rightarrow> nat \<Rightarrow> nat \<Rightarrow> byte list option" where
  "memset0 dst p n = (if n = 0 then Some dst else mem_write dst p (replicate n 0))"

definition copyBytes ::
    "machine \<Rightarrow> byte list \<Rightarrow> word256 \<Rightarrow> word256 \<Rightarrow> word256 \<Rightarrow> word256 ssa \<Rightarrow> mem_state \<Rightarrow> mem_state outcome" where
  "copyBytes mc src srcSize srcIdx destMemIdx reqBytes0 s =
     obind (require mc destMemIdx reqBytes0 s) (\<lambda>(mem, gas).
       (let reqBytes = Some (ucast (ssa_value reqBytes0) :: i64);
            copyWords = words64 reqBytes
        in obind (countCopy gas copyWords) (\<lambda>gas1.
          (let isOutsideData = Some (srcIdx \<ge> srcSize);
               idx64 = (ucast srcIdx :: i64);
               size64 = (ucast srcSize :: i64);
               dataLeftSize = ir_nuw_sub (Some size64) (Some idx64);
               outOfBound = ir_ugt reqBytes dataLeftSize;
               bytesToCopyInner = ir_select outOfBound dataLeftSize reqBytes;
               bytesToCopy = ir_select isOutsideData (Some 0) bytesToCopyInner;
               bytesToZero = ir_nuw_sub reqBytes bytesToCopy;
               dstIdx = (ucast destMemIdx :: i64);
               padIdx = ir_nuw_add (Some dstIdx) bytesToCopy
           in use bytesToCopy (\<lambda>bytesToCopy. use bytesToZero (\<lambda>bytesToZero. use padIdx (\<lambda>padIdx.
                use (memcpy (a_data mem) (unat dstIdx) src (unat idx64) (unat bytesToCopy)) (\<lambda>data1.
                use (memset0 data1 (unat padIdx) (unat bytesToZero)) (\<lambda>data2.
                  Done (mem\<lparr> a_data := data2 \<rparr>, gas1))))))))))"

definition copyBytesNoPadding ::
    "machine \<Rightarrow> byte list \<Rightarrow> i64 \<Rightarrow> word256 \<Rightarrow> word256 \<Rightarrow> word256 ssa \<Rightarrow> mem_state \<Rightarrow> mem_state outcome" where
  "copyBytesNoPadding mc src srcSize srcIdx0 destMemIdx reqBytes0 s =
     obind (require mc destMemIdx reqBytes0 s) (\<lambda>(mem, gas).
       (let reqBytes256 = ssa_value reqBytes0;
            reqBytes = (ucast reqBytes256 :: i64);
            copyWords = words64 (Some reqBytes);
            reqSize = srcIdx0 + reqBytes256;
            overflow = (reqSize < reqBytes256);
            outOfRange = (reqSize > ucast srcSize);
            bufferOverrun = (overflow \<or> outOfRange);
            penalty = gasMax;
            cost = ir_select (Some bufferOverrun) (Some penalty) copyWords
        in obind (countCopy gas cost) (\<lambda>gas1.
          (let srcIdx = (ucast srcIdx0 :: i64);
               dstIdx = (ucast destMemIdx :: i64)
           in use (memcpy (a_data mem) (unat dstIdx) src (unat srcIdx) (unat reqBytes)) (\<lambda>data1.
                Done (mem\<lparr> a_data := data1 \<rparr>, gas1))))))"

section \<open>The reference: memory as the EVM defines it\<close>

definition Cmem :: "nat \<Rightarrow> nat" where
  "Cmem w = 3 * w + w * w div 512"

definition mem_words :: "array \<Rightarrow> nat" where
  "mem_words mem = unat (a_size mem) div 32"

text \<open>Well-formed memory: whole words, all of the allocation.\<close>

definition mem_ok :: "array \<Rightarrow> bool" where
  "mem_ok mem \<longleftrightarrow>
     unat (a_size mem) = 32 * mem_words mem \<and> length (a_data mem) = 32 * mem_words mem \<and>
     a_cap mem = a_size mem"

text \<open>The gas a run has and the gas its memory has cost stay below the price of \<open>2 ^ 28\<close> words,
  i.e. of the 8 GiB to which \<^verbatim>\<open>mem.require\<close> clamps offsets and sizes.\<close>

definition budget :: "array \<Rightarrow> i64 \<Rightarrow> nat" where
  "budget mem gas = unat gas + Cmem (mem_words mem)"

definition state_ok :: "mem_state \<Rightarrow> bool" where
  "state_ok = (\<lambda>(mem, gas). mem_ok mem \<and> budget mem gas < 2 ^ 47)"

text \<open>The words that an access touches; the bytes of the memory extended with zeros.\<close>

definition words_needed :: "nat \<Rightarrow> nat \<Rightarrow> nat" where
  "words_needed off len = (if len = 0 then 0 else (off + len + 31) div 32)"

definition grow :: "nat \<Rightarrow> array \<Rightarrow> array" where
  "grow n mem =
     (let w = max (mem_words mem) n
      in \<lparr> a_data = a_data mem @ replicate (32 * w - length (a_data mem)) 0,
           a_size = of_nat (32 * w), a_cap = of_nat (32 * w) \<rparr>)"

definition evm_require :: "nat \<Rightarrow> nat \<Rightarrow> mem_state \<Rightarrow> mem_state outcome" where
  "evm_require off len = (\<lambda>(mem, gas).
     (let n = words_needed off len
      in obind (charge gas (Cmem (max (mem_words mem) n) - Cmem (mem_words mem))) (\<lambda>gas1.
         Done (grow n mem, gas1))))"

subsection \<open>Cmem\<close>

lemma Cmem_mono: "m \<le> n \<Longrightarrow> Cmem m \<le> Cmem n"
  unfolding Cmem_def by (intro add_mono mult_le_mono div_le_mono) auto

lemma Cmem_28: "Cmem (2 ^ 28) = 3 * 2 ^ 28 + 2 ^ 47"
  by (simp add: Cmem_def)

lemma Cmem_bound: "Cmem n < 2 ^ 47 \<Longrightarrow> n < 2 ^ 28"
  using Cmem_mono [of "2 ^ 28" n] Cmem_28 by (cases "2 ^ 28 \<le> n") linarith+

lemma Cmem_small: "n < 2 ^ 30 \<Longrightarrow> Cmem n < 2 ^ 52"
proof -
  assume n: "n < 2 ^ 30"
  then have "Cmem n \<le> Cmem (2 ^ 30)" by (intro Cmem_mono) simp
  also have "\<dots> < 2 ^ 52" by (simp add: Cmem_def)
  finally show ?thesis .
qed

lemma memory_cost64_eq:
  assumes "unat w < 2 ^ 30"
  shows "memory_cost64 w = Some (of_nat (Cmem (unat w)))"
    and "unat (of_nat (Cmem (unat w)) :: i64) = Cmem (unat w)"
proof -
  have "unat w * unat w < 2 ^ 30 * 2 ^ 30" using assms by (intro mult_strict_mono) auto
  then have sq: "unat w * unat w < 2 ^ 60" by simp
  then have "unat (w * w) = unat w * unat w" by (intro unat_mul_no_wrap) simp
  then have sh: "unat (drop_bit 9 (w * w)) = unat w * unat w div 512" by (simp add: unat_drop_bit)
  have tr: "unat (w * 3) = 3 * unat w" using assms by (simp add: unat_mul_no_wrap)
  show C: "unat (of_nat (Cmem (unat w)) :: i64) = Cmem (unat w)"
    using Cmem_small [OF assms] by (intro unat_of_nat_small) simp
  have "unat (w * 3 + drop_bit 9 (w * w)) = Cmem (unat w)"
    using Cmem_small [OF assms] sh tr by (subst unat_add_no_wrap) (simp_all add: Cmem_def)
  then have "w * 3 + drop_bit 9 (w * w) = of_nat (Cmem (unat w))" using C by (intro word_eq_by_unat) simp
  then show "memory_cost64 w = Some (of_nat (Cmem (unat w)))"
    using assms sq by (simp add: memory_cost64_def ir_simps Let_def)
qed

subsection \<open>mem.require implements the reference\<close>

lemma unat_round: "unat (x AND push_bit 5 (- 1)) = 32 * (unat x div 32)"
  for x :: i64
proof -
  have "x AND push_bit 5 (- 1) = push_bit 5 (drop_bit 5 x)"
    by (rule bit_eqI) (auto simp: bit_simps)
  moreover have "unat (drop_bit 5 x) * 2 ^ 5 < 2 ^ 64"
    using unat_lt_exp [of x] by (simp add: unat_drop_bit)
  ultimately show ?thesis by (simp add: unat_push_bit_no_wrap unat_drop_bit)
qed

lemma mem_ok_dest:
  assumes "mem_ok mem"
  shows "unat (a_size mem) = 32 * mem_words mem" "length (a_data mem) = 32 * mem_words mem"
    "a_cap mem = a_size mem" "of_nat (32 * mem_words mem) = a_size mem"
proof -
  show u: "unat (a_size mem) = 32 * mem_words mem" "length (a_data mem) = 32 * mem_words mem"
    "a_cap mem = a_size mem" using assms unfolding mem_ok_def by auto
  show "of_nat (32 * mem_words mem) = a_size mem" unfolding u(1) [symmetric] by simp
qed

lemma grow_same: "mem_ok mem \<Longrightarrow> n \<le> mem_words mem \<Longrightarrow> grow n mem = mem"
  using mem_ok_dest [of mem] by (simp add: grow_def Let_def max_def del: of_nat_mult)

lemma grow_ok:
  assumes "max (mem_words mem) n < 2 ^ 58" "mem_ok mem"
  shows "mem_words (grow n mem) = max (mem_words mem) n" "mem_ok (grow n mem)"
proof -
  have sz: "unat (of_nat (32 * max (mem_words mem) n) :: i64) = 32 * max (mem_words mem) n"
    using assms(1) by (intro unat_of_nat_small) simp
  then show w: "mem_words (grow n mem) = max (mem_words mem) n"
    unfolding mem_words_def [of "grow n mem"] by (simp add: grow_def Let_def del: of_nat_mult)
  show "mem_ok (grow n mem)"
    unfolding mem_ok_def w using mem_ok_dest(2) [OF assms(2)] sz
    by (simp add: grow_def Let_def del: of_nat_mult)
qed

lemma array_extend_grow:
  assumes ok: "mem_ok mem" and n: "mem_words mem < n" "n < 2 ^ 58" and heap: "32 * n \<le> heap_limit mc"
    and sz: "unat newSize = 32 * n"
  shows "array_extend mc mem newSize = Done (grow n mem)"
proof -
  let ?s = "32 * mem_words mem"
  note s = mem_ok_dest [OF ok]
  have le: "a_size mem \<le> newSize" using n sz s by (simp add: word_le_nat_alt)
  obtain d where d: "realloc mc (a_data mem) (32 * n) = Some d" using heap by (simp add: realloc_def)
  have len: "length d = 32 * n" using d by (rule length_realloc)
  have keep: "take ?s d = a_data mem" using take_realloc [OF d] s(2) n by simp
  have "mem_write d ?s (replicate (32 * n - ?s) 0) = Some (a_data mem @ replicate (32 * n - ?s) 0)"
    using n by (simp add: mem_write_def len keep)
  moreover have "of_nat (32 * n) = newSize" unfolding sz [symmetric] by simp
  ultimately show ?thesis
    using le n d by (simp add: array_extend_def ir_simps Let_def sz s(1,2) unat_sub_no_wrap grow_def max_def
        del: of_nat_mult)
qed

lemma state_ok_bounds:
  assumes "state_ok (mem, gas)"
  shows "mem_ok mem" "mem_words mem < 2 ^ 28" "unat gas < 2 ^ 47" "gas_ok gas"
    "unat gas + Cmem (mem_words mem) < 2 ^ 47"
  using assms Cmem_bound [of "mem_words mem"] by (simp_all add: state_ok_def budget_def gas_ok_def)

text \<open>The reference preserves well-formedness and the budget, and grows the memory at most to the
  clamp.\<close>

lemma evm_require_Done:
  assumes ok: "state_ok (mem, gas)" and r: "evm_require off len (mem, gas) = Done (mem', gas')"
  shows "state_ok (mem', gas')" "budget mem' gas' = budget mem gas" "words_needed off len < 2 ^ 28"
    "words_needed off len \<le> mem_words mem'" "mem' = grow (words_needed off len) mem"
proof -
  let ?n = "words_needed off len" and ?w = "mem_words mem"
  note b = state_ok_bounds [OF ok]
  have pay: "Cmem (max ?w ?n) - Cmem ?w \<le> unat gas" "gas' = gas - of_nat (Cmem (max ?w ?n) - Cmem ?w)"
    and mem': "mem' = grow ?n mem"
    using r by (auto simp: evm_require_def charge_def Let_def split: if_splits)
  have mono: "Cmem ?w \<le> Cmem (max ?w ?n)" by (rule Cmem_mono) simp
  have gas': "unat gas' = unat gas - (Cmem (max ?w ?n) - Cmem ?w)"
    unfolding pay(2) by (rule unat_charge [OF pay(1)])
  then have total: "unat gas' + Cmem (max ?w ?n) = unat gas + Cmem ?w" using mono pay(1) by linarith
  then have max: "max ?w ?n < 2 ^ 28" using b(5) by (intro Cmem_bound) linarith
  then show "?n < 2 ^ 28" by simp
  have "max ?w ?n < 2 ^ 58" using max by simp
  note g = grow_ok [OF this b(1)]
  show "budget mem' gas' = budget mem gas" using total by (simp add: budget_def mem' g)
  then show "state_ok (mem', gas')" using ok g by (simp add: state_ok_def mem')
  show "?n \<le> mem_words mem'" by (simp add: mem' g)
qed (use r in \<open>auto simp: evm_require_def charge_def Let_def split: if_splits\<close>)

lemma evm_require_defined: "evm_require off len s \<noteq> Undefined"
  by (cases s) (simp add: evm_require_def charge_def Let_def)

text \<open>The size \<open>mem.require\<close> computes: the needed bytes in whole words, from the clamped operands.\<close>

definition clamp :: "nat \<Rightarrow> nat" where
  "clamp n = min n c_inputMax"

lemma unat_clamped:
  fixes w :: word256
  shows "unat (if w \<le> of_nat c_inputMax then ucast w else of_nat c_inputMax :: i64) = clamp (unat w)"
    and "w \<le> of_nat c_inputMax \<longleftrightarrow> unat w \<le> c_inputMax"
proof -
  show le: "w \<le> of_nat c_inputMax \<longleftrightarrow> unat w \<le> c_inputMax"
    by (simp add: word_le_nat_alt c_inputMax_def)
  have "unat (ucast w :: i64) = unat w" if "unat w \<le> c_inputMax"
    using that by (intro unat_ucast_small) (simp add: c_inputMax_def)
  then show "unat (if w \<le> of_nat c_inputMax then ucast w else of_nat c_inputMax :: i64) = clamp (unat w)"
    unfolding le clamp_def by (simp add: c_inputMax_def)
qed

lemma sizeReq_eq:
  fixes blkO blkS :: i64
  assumes "unat blkO \<le> c_inputMax" "unat blkS \<le> c_inputMax"
  obtains r where "ir_and (ir_nuw_add (ir_nuw_add (Some blkO) (Some blkS)) (Some 31)) (Some (push_bit 5 (- 1))) = Some r"
    "unat r = 32 * ((unat blkO + unat blkS + 31) div 32)"
proof -
  have sum: "unat (blkO + blkS) = unat blkO + unat blkS"
    using assms by (intro unat_add_no_wrap) (simp add: c_inputMax_def)
  moreover have "unat (blkO + blkS + 31) = unat blkO + unat blkS + 31"
    using assms sum by (subst unat_add_no_wrap) (simp_all add: c_inputMax_def)
  ultimately show ?thesis
    using assms
    by (intro that [of "(blkO + blkS + 31) AND push_bit 5 (- 1)"])
      (simp_all only: ir_simps lift2_Some guarded2_Some unat_round, simp_all add: c_inputMax_def)
qed

lemma drop_words: "unat s = 32 * n \<Longrightarrow> unat (drop_bit 5 s) = n"
  for s :: i64
  by (simp add: unat_drop_bit)

lemma Cmem_diff:
  assumes "unat w1 = n" "unat w0 = m" "m \<le> n" "n < 2 ^ 30"
  shows "\<exists>cc. ir_nuw_sub (memory_cost64 w1) (memory_cost64 w0) = Some cc \<and> unat cc = Cmem n - Cmem m"
proof -
  have b: "unat w1 < 2 ^ 30" "unat w0 < 2 ^ 30" using assms by simp_all
  note c1 = memory_cost64_eq [OF b(1)] and c0 = memory_cost64_eq [OF b(2)]
  have "of_nat (Cmem m) \<le> (of_nat (Cmem n) :: i64)"
    unfolding word_le_nat_alt using c1(2) c0(2) assms Cmem_mono [OF assms(3)] by simp
  then show ?thesis
    using c1 c0 assms by (simp add: ir_simps unat_sub_no_wrap)
qed

lemma require_func_step:
  assumes "blkSize \<noteq> 0"
  obtains r where "unat r = 32 * ((clamp (unat blkOffset) + clamp (unat blkSize) + 31) div 32)"
    "require_func mc blkOffset blkSize (mem, gas) =
       (if r \<le> a_size mem then Done (mem, gas)
        else obind (countMemory gas
                (ir_select (Some (unat blkOffset \<le> c_inputMax \<and> unat blkSize \<le> c_inputMax))
                   (ir_nuw_sub (memory_cost64 (drop_bit 5 r)) (memory_cost64 (drop_bit 5 (a_size mem))))
                   (Some gasMax))) (\<lambda>gas1.
             obind (array_extend mc mem r) (\<lambda>mem1. Done (mem1, gas1))))"
proof -
  let ?O = "if blkOffset \<le> of_nat c_inputMax then ucast blkOffset else of_nat c_inputMax :: i64"
  let ?S = "if blkSize \<le> of_nat c_inputMax then ucast blkSize else of_nat c_inputMax :: i64"
  have "unat ?O \<le> c_inputMax" "unat ?S \<le> c_inputMax" by (simp_all only: unat_clamped(1) clamp_def)
  then obtain r where r: "ir_and (ir_nuw_add (ir_nuw_add (Some ?O) (Some ?S)) (Some 31)) (Some (push_bit 5 (- 1))) = Some r"
    "unat r = 32 * ((unat ?O + unat ?S + 31) div 32)" by (rule sizeReq_eq)
  show ?thesis
  proof (rule that [of r])
    show "unat r = 32 * ((clamp (unat blkOffset) + clamp (unat blkSize) + 31) div 32)"
      using r(2) by (simp only: unat_clamped(1))
  qed (simp only: require_func_def Let_def prod.case assms simp_thms if_True r(1) [unfolded unat_clamped(2)] use_Some
      unat_clamped(2))
qed

lemma require_func_in_range:
  assumes ok: "state_ok (mem, gas)" and heap: "2 ^ 33 \<le> heap_limit mc"
    and len: "blkSize \<noteq> 0" and range: "unat blkOffset \<le> c_inputMax" "unat blkSize \<le> c_inputMax"
  shows "require_func mc blkOffset blkSize (mem, gas) = evm_require (unat blkOffset) (unat blkSize) (mem, gas)"
proof -
  note b = state_ok_bounds [OF ok]
  define n where "n = words_needed (unat blkOffset) (unat blkSize)"
  have n_eq: "n = (clamp (unat blkOffset) + clamp (unat blkSize) + 31) div 32"
    using range len by (simp add: n_def words_needed_def clamp_def unat_eq_zero)
  obtain r where r: "unat r = 32 * n" and step: "require_func mc blkOffset blkSize (mem, gas) =
       (if r \<le> a_size mem then Done (mem, gas)
        else obind (countMemory gas
                (ir_select (Some (unat blkOffset \<le> c_inputMax \<and> unat blkSize \<le> c_inputMax))
                   (ir_nuw_sub (memory_cost64 (drop_bit 5 r)) (memory_cost64 (drop_bit 5 (a_size mem))))
                   (Some gasMax))) (\<lambda>gas1.
             obind (array_extend mc mem r) (\<lambda>mem1. Done (mem1, gas1))))"
    unfolding n_eq using len by (rule require_func_step)
  have n30: "n < 2 ^ 30" using range len by (simp add: n_def words_needed_def c_inputMax_def unat_eq_zero)
  have le: "r \<le> a_size mem \<longleftrightarrow> n \<le> mem_words mem"
    using r mem_ok_dest(1) [OF b(1)] by (simp add: word_le_nat_alt)
  show ?thesis
  proof (cases "n \<le> mem_words mem")
    case True
    then show ?thesis
      using b(1) by (simp add: step le evm_require_def n_def [symmetric] max_def grow_same Let_def)
  next
    case False
    obtain cc where cc: "ir_nuw_sub (memory_cost64 (drop_bit 5 r)) (memory_cost64 (drop_bit 5 (a_size mem))) = Some cc"
      "unat cc = Cmem n - Cmem (mem_words mem)"
      using Cmem_diff [of "drop_bit 5 r" n "drop_bit 5 (a_size mem)" "mem_words mem"] False n30
        drop_words [OF r] drop_words [OF mem_ok_dest(1) [OF b(1)]] by auto
    have "unat cc < 2 ^ 63" using cc(2) Cmem_small [OF n30] by simp
    then have pay: "countMemory gas (Some cc) = charge gas (Cmem n - Cmem (mem_words mem))"
      using b(4) cc(2) by (simp add: countMemory_def count64_charge)
    have extend: "array_extend mc mem r = Done (grow n mem)" if "Cmem n - Cmem (mem_words mem) \<le> unat gas"
    proof -
      have "Cmem n < 2 ^ 47" using that b(5) by linarith
      then have "n < 2 ^ 28" by (rule Cmem_bound)
      then show ?thesis using b(1) False heap r by (intro array_extend_grow) simp_all
    qed
    have "obind (charge gas (Cmem n - Cmem (mem_words mem))) (\<lambda>gas1.
        obind (array_extend mc mem r) (\<lambda>mem1. Done (mem1, gas1))) =
      obind (charge gas (Cmem n - Cmem (mem_words mem))) (\<lambda>gas1. Done (grow n mem, gas1))"
      by (simp add: charge_def extend)
    then show ?thesis
      using False range
      by (simp add: step le cc(1) pay evm_require_def n_def [symmetric] max_def Let_def)
  qed
qed

lemma require_func_out_of_range:
  assumes ok: "state_ok (mem, gas)" and len: "blkSize \<noteq> 0"
    and range: "c_inputMax < unat blkOffset \<or> c_inputMax < unat blkSize"
  shows "require_func mc blkOffset blkSize (mem, gas) = LongJmp"
    and "evm_require (unat blkOffset) (unat blkSize) (mem, gas) = LongJmp"
proof -
  note b = state_ok_bounds [OF ok]
  define n where "n = words_needed (unat blkOffset) (unat blkSize)"
  obtain r where r: "unat r = 32 * ((clamp (unat blkOffset) + clamp (unat blkSize) + 31) div 32)"
    and step: "require_func mc blkOffset blkSize (mem, gas) =
       (if r \<le> a_size mem then Done (mem, gas)
        else obind (countMemory gas
                (ir_select (Some (unat blkOffset \<le> c_inputMax \<and> unat blkSize \<le> c_inputMax))
                   (ir_nuw_sub (memory_cost64 (drop_bit 5 r)) (memory_cost64 (drop_bit 5 (a_size mem))))
                   (Some gasMax))) (\<lambda>gas1.
             obind (array_extend mc mem r) (\<lambda>mem1. Done (mem1, gas1))))"
    using len by (rule require_func_step)
  have "2 ^ 33 \<le> unat r" using range unfolding r by (auto simp: clamp_def c_inputMax_def min_def)
  then have "\<not> r \<le> a_size mem"
    using b(2) mem_ok_dest(1) [OF b(1)] by (simp add: word_le_nat_alt)
  moreover have "countMemory gas (Some gasMax) = LongJmp"
    using b(3,4) by (simp add: countMemory_def count64_charge unat_gasMax charge_def)
  ultimately show "require_func mc blkOffset blkSize (mem, gas) = LongJmp"
    using range by (auto simp: step)
  have "2 ^ 28 \<le> n"
    using range len by (auto simp: n_def words_needed_def c_inputMax_def unat_eq_zero)
  then have "2 ^ 47 + 3 * 2 ^ 28 \<le> Cmem (max (mem_words mem) n)"
    using Cmem_mono [of "2 ^ 28" "max (mem_words mem) n"] Cmem_28 by linarith
  then show "evm_require (unat blkOffset) (unat blkSize) (mem, gas) = LongJmp"
    using b(5) by (simp add: evm_require_def charge_def Let_def n_def [symmetric])
qed

lemma evm_require_0: "state_ok s \<Longrightarrow> evm_require off 0 s = Done s"
  by (cases s) (simp add: evm_require_def words_needed_def grow_same state_ok_bounds(1))

lemma require_eq_evm:
  assumes "state_ok s" "2 ^ 33 \<le> heap_limit mc"
  shows "require mc off len s = evm_require (unat off) (unat (ssa_value len)) s"
proof -
  obtain mem gas where s: "s = (mem, gas)" by (cases s)
  have func: "require_func mc off c s = evm_require (unat off) (unat c) s" for c
  proof (cases "c = 0")
    case True
    then show ?thesis using assms(1) by (simp add: require_func_def s evm_require_0)
  next
    case False
    with assms show ?thesis
      unfolding s
      using require_func_in_range [of mem gas mc c off] require_func_out_of_range(1) [of mem gas c off mc]
        require_func_out_of_range(2) [of mem gas c off]
      by (cases "unat off \<le> c_inputMax \<and> unat c \<le> c_inputMax") auto
  qed
  then show ?thesis using assms(1) by (cases len) (simp_all add: require_def evm_require_0)
qed

subsection \<open>Accesses after mem.require\<close>

lemma evm_require_access:
  assumes ok: "state_ok s" and r: "evm_require off len s = Done (m, g)" and pos: "0 < len"
  shows "off + len \<le> length (a_data m)" "off + len < 2 ^ 33" "mem_ok m" "state_ok (m, g)"
proof -
  obtain mem gas where s: "s = (mem, gas)" by (cases s)
  note d = evm_require_Done [OF ok [unfolded s] r [unfolded s]]
  show st: "state_ok (m, g)" by (rule d(1))
  show mo: "mem_ok m" by (rule state_ok_bounds(1) [OF st])
  have "off + len \<le> 32 * words_needed off len" using pos by (simp add: words_needed_def)
  then show "off + len \<le> length (a_data m)" "off + len < 2 ^ 33"
    using d(3,4) mem_ok_dest(2) [OF mo] by simp_all
qed

lemma state_ok_evm_require: "state_ok s \<Longrightarrow> evm_require off len s = Done s' \<Longrightarrow> state_ok s'"
  using evm_require_Done(1) by (cases s; cases s') blast

lemma state_ok_charge:
  assumes "state_ok (mem, gas)" "charge gas n = Done gas'"
  shows "state_ok (mem, gas')" "budget mem gas' \<le> budget mem gas"
  using assms by (auto simp: state_ok_def budget_def charge_def unat_charge split: if_split_asm)

text \<open>Writing bytes inside the memory.\<close>

definition write_mem :: "nat \<Rightarrow> byte list \<Rightarrow> array \<Rightarrow> array" where
  "write_mem p bs mem =
     (if bs = [] then mem
      else mem\<lparr> a_data := take p (a_data mem) @ bs @ drop (p + length bs) (a_data mem) \<rparr>)"

definition read_mem :: "nat \<Rightarrow> nat \<Rightarrow> array \<Rightarrow> byte list" where
  "read_mem p n mem = take n (drop p (a_data mem))"

lemma write_mem_sizes [simp]:
  "a_size (write_mem p bs mem) = a_size mem" "a_cap (write_mem p bs mem) = a_cap mem"
  "mem_words (write_mem p bs mem) = mem_words mem"
  by (simp_all add: write_mem_def mem_words_def)

lemma length_write_mem: "p + length bs \<le> length (a_data mem) \<Longrightarrow> length (a_data (write_mem p bs mem)) = length (a_data mem)"
  by (simp add: write_mem_def)

lemma mem_ok_write_mem:
  "mem_ok mem \<Longrightarrow> bs \<noteq> [] \<longrightarrow> p + length bs \<le> length (a_data mem) \<Longrightarrow> mem_ok (write_mem p bs mem)"
  unfolding mem_ok_def by (cases "bs = []") (simp_all add: length_write_mem write_mem_def [of p "[]"])

lemma state_ok_write_mem:
  "state_ok (mem, gas) \<Longrightarrow> bs \<noteq> [] \<longrightarrow> p + length bs \<le> length (a_data mem) \<Longrightarrow> state_ok (write_mem p bs mem, gas)"
  by (simp add: state_ok_def budget_def mem_ok_write_mem)

lemma mem_write_write_mem:
  "bs \<noteq> [] \<Longrightarrow> p + length bs \<le> length (a_data mem) \<Longrightarrow>
   mem_write (a_data mem) p bs = Some (a_data (write_mem p bs mem))"
  by (simp add: mem_write_def write_mem_def)

lemma write_mem_data: "mem\<lparr> a_data := a_data (write_mem p bs mem) \<rparr> = write_mem p bs mem"
  by (simp add: write_mem_def)

lemma unat_trunc_addr: "unat a < 2 ^ 64 \<Longrightarrow> unat (ucast a :: i64) = unat a"
  for a :: word256
  by (rule unat_ucast_small) simp

lemma storeWord_eq:
  assumes "state_ok s" "2 ^ 33 \<le> heap_limit mc"
  shows "storeWord mc addr w s =
    obind (evm_require (unat addr) 32 s) (\<lambda>(m, g). Done (write_mem (unat addr) (to_be w) m, g))"
  unfolding storeWord_def require_eq_evm [OF assms]
proof (rule obind_cong, goal_cases)
  case (2 x)
  note r = 2
  obtain m g where x: "x = (m, g)" by (cases x)
  note acc = evm_require_access [OF assms(1) r [unfolded x]]
  have "mem_write (a_data m) (unat addr) (to_be w) = Some (a_data (write_mem (unat addr) (to_be w) m))"
    using acc by (intro mem_write_write_mem) (simp_all add: to_be_def to_le_def)
  then show ?case
    using acc by (simp add: x store_word_func_def Let_def unat_trunc_addr write_mem_data)
qed simp

lemma storeByte_eq:
  assumes "state_ok s" "2 ^ 33 \<le> heap_limit mc"
  shows "storeByte mc addr w s =
    obind (evm_require (unat addr) 1 s) (\<lambda>(m, g). Done (write_mem (unat addr) [ucast w] m, g))"
  unfolding storeByte_def require_eq_evm [OF assms]
proof (rule obind_cong, goal_cases)
  case (2 x)
  note r = 2
  obtain m g where x: "x = (m, g)" by (cases x)
  note acc = evm_require_access [OF assms(1) r [unfolded x]]
  have "mem_write (a_data m) (unat addr) [ucast w] = Some (a_data (write_mem (unat addr) [ucast w] m))"
    using acc by (intro mem_write_write_mem) simp_all
  then show ?case
    using acc by (simp add: x store_byte_func_def unat_trunc_addr write_mem_data)
qed simp

lemma loadWord_eq:
  assumes "state_ok s" "2 ^ 33 \<le> heap_limit mc"
  shows "loadWord mc addr s =
    obind (evm_require (unat addr) 32 s) (\<lambda>(m, g). Done (of_be (read_mem (unat addr) 32 m), (m, g)))"
  unfolding loadWord_def require_eq_evm [OF assms]
proof (rule obind_cong, goal_cases)
  case (2 x)
  note r = 2
  obtain m g where x: "x = (m, g)" by (cases x)
  note acc = evm_require_access [OF assms(1) r [unfolded x]]
  then have "mem_read (a_data m) (unat addr) 32 = Some (read_mem (unat addr) 32 m)"
    "length (read_mem (unat addr) 32 m) = 32"
    by (simp_all add: mem_read_def read_mem_def)
  then show ?case
    using acc by (simp add: x load_word_func_def unat_trunc_addr)
qed simp

subsection \<open>Copies\<close>

text \<open>The \<open>n\<close> bytes of \<open>src\<close> from \<open>idx\<close> on, zeros past its end.\<close>

definition src_window :: "byte list \<Rightarrow> nat \<Rightarrow> nat \<Rightarrow> byte list" where
  "src_window src idx n = take n (drop idx src) @ replicate (n - (length src - idx)) 0"

lemma length_src_window [simp]: "length (src_window src idx n) = n"
  by (simp add: src_window_def)

lemma memcpy_memset0:
  assumes "p + n \<le> length (a_data mem) \<or> n = 0" and k: "k = min n (length src - idx)"
  shows "\<exists>d1. memcpy (a_data mem) p src idx k = Some d1 \<and>
    memset0 d1 (p + k) (n - k) = Some (a_data (write_mem p (src_window src idx n) mem))"
proof (cases "n = 0")
  case True
  then show ?thesis by (simp add: k memcpy_def memset0_def write_mem_def src_window_def)
next
  case False
  let ?d = "a_data mem"
  let ?bs = "take n (drop idx src)"
  have len: "length ?bs = k" "?bs = take k (drop idx src)"
    by (simp_all add: k min_def)
  have room: "p + n \<le> length ?d" using assms(1) False by simp
  have win: "src_window src idx n = ?bs @ replicate (n - k) 0"
    by (simp add: src_window_def k min_def)
  have "memcpy ?d p src idx k = Some (take p ?d @ ?bs @ drop (p + k) ?d)"
  proof (cases "k = 0")
    case True
    then have "?bs = []" using len(1) by (simp only: length_0_conv)
    with True show ?thesis by (simp only: memcpy_def if_True) simp
  next
    case k0: False
    then have "idx + k \<le> length src" by (simp add: k min_def split: if_split_asm)
    then have "mem_read src idx k = Some ?bs" by (simp add: mem_read_def len(2))
    moreover have "p + k \<le> length ?d" using room by (simp add: k min_def)
    ultimately show ?thesis using k0 len(1) by (simp add: memcpy_def mem_write_def)
  qed
  moreover have "memset0 (take p ?d @ ?bs @ drop (p + k) ?d) (p + k) (n - k) =
      Some (take p ?d @ (?bs @ replicate (n - k) 0) @ drop (p + n) ?d)"
    using room len(1) by (auto simp: memset0_def mem_write_def k min_def add.commute)
  moreover have "src_window src idx n \<noteq> []"
    using False by (metis length_src_window list.size(3))
  then have "a_data (write_mem p (src_window src idx n) mem) = take p ?d @ (?bs @ replicate (n - k) 0) @ drop (p + n) ?d"
    by (simp add: write_mem_def win [symmetric])
  ultimately show ?thesis by simp
qed

lemma words64_trunc:
  fixes req :: word256
  assumes "unat req < 2 ^ 33"
  shows "words64 (Some (ucast req)) = Some (of_nat (word_count (unat req)))"
    and "gas_ok g \<Longrightarrow> countCopy g (Some (of_nat (word_count (unat req)))) = charge g (3 * word_count (unat req))"
proof -
  have r: "unat (ucast req :: i64) = unat req" using assms by (intro unat_trunc_addr) simp
  show "words64 (Some (ucast req)) = Some (of_nat (word_count (unat req)))"
    using words64_Some [of "ucast req"] assms r by simp
  have w: "unat (of_nat (word_count (unat req)) :: i64) = word_count (unat req)"
    using assms by (intro unat_word_count) simp
  have "word_count (unat req) < 2 ^ 33" using assms by (simp add: word_count_def)
  then show "gas_ok g \<Longrightarrow> countCopy g (Some (of_nat (word_count (unat req)))) = charge g (3 * word_count (unat req))"
    using countCopy_charge [of g "of_nat (word_count (unat req))"] by (simp add: w)
qed

lemma evm_require_small:
  assumes "state_ok s" "evm_require off len s = Done x"
  shows "len < 2 ^ 33"
  using evm_require_access(2) [of s off len "fst x" "snd x"] assms by (cases "len = 0") auto

lemma src_index:
  fixes idx :: word256
  assumes "length src < 2 ^ 63"
  shows "idx \<ge> of_nat (length src) \<longleftrightarrow> length src \<le> unat idx"
    and "unat (ucast (of_nat (length src) :: word256) :: i64) = length src"
    and "unat idx < length src \<Longrightarrow> unat (ucast idx :: i64) = unat idx"
proof -
  have l: "unat (of_nat (length src) :: word256) = length src"
    using assms by (intro unat_of_nat_small) simp
  show "idx \<ge> of_nat (length src) \<longleftrightarrow> length src \<le> unat idx" by (simp add: word_le_nat_alt l)
  show "unat (ucast (of_nat (length src) :: word256) :: i64) = length src"
    using assms by (subst unat_trunc_addr) (simp_all add: l)
  show "unat (ucast idx :: i64) = unat idx" if "unat idx < length src"
    using assms that by (intro unat_trunc_addr) simp
qed

text \<open>The number of bytes copied: the poison of the subtraction stays in the arm not chosen.\<close>

lemma bytesToCopy_eq:
  fixes srcIdx :: word256 and req :: i64
  assumes "length src < 2 ^ 63"
  shows "\<exists>k. ir_select (Some (srcIdx \<ge> of_nat (length src))) (Some 0)
      (ir_select (ir_ugt (Some req) (ir_nuw_sub (Some (ucast (of_nat (length src) :: word256))) (Some (ucast srcIdx))))
        (ir_nuw_sub (Some (ucast (of_nat (length src) :: word256))) (Some (ucast srcIdx))) (Some req)) = Some k \<and>
    unat k = min (unat req) (length src - unat srcIdx)"
proof (cases "length src \<le> unat srcIdx")
  case True
  then show ?thesis by (simp add: src_index(1) [OF assms])
next
  case False
  let ?s = "ucast (of_nat (length src) :: word256) :: i64" and ?i = "ucast srcIdx :: i64"
  have i: "unat ?i = unat srcIdx" using src_index(3) [OF assms] False by simp
  have s: "unat ?s = length src" using src_index(2) [OF assms] .
  have le: "?i \<le> ?s" unfolding word_le_nat_alt i s using False by simp
  have left: "unat (?s - ?i) = length src - unat srcIdx" by (simp only: unat_sub_no_wrap [OF le] i s)
  have "ir_select (ir_ugt (Some req) (Some (?s - ?i))) (Some (?s - ?i)) (Some req) =
      Some (if req > ?s - ?i then ?s - ?i else req)"
    by (simp add: ir_simps)
  moreover have "unat (if req > ?s - ?i then ?s - ?i else req) = min (unat req) (length src - unat srcIdx)"
    by (simp only: if_distrib [of unat] left word_less_nat_alt min_def) auto
  ultimately show ?thesis
    using False le by (simp only: src_index(1) [OF assms] ir_select_Some if_False)
      (simp only: ir_nuw_sub_def guarded2_Some if_True simp_thms ex_simps, blast)
qed

lemma copyBytes_eq:
  assumes ok: "state_ok s" and heap: "2 ^ 33 \<le> heap_limit mc" and src: "length src < 2 ^ 63"
  shows "copyBytes mc src (of_nat (length src)) srcIdx dest req s =
    obind (evm_require (unat dest) (unat (ssa_value req)) s) (\<lambda>(m, g).
    obind (charge g (3 * word_count (unat (ssa_value req)))) (\<lambda>g1.
    Done (write_mem (unat dest) (src_window src (unat srcIdx) (unat (ssa_value req))) m, g1)))"
  unfolding copyBytes_def require_eq_evm [OF ok heap]
proof (rule obind_cong, goal_cases)
  case (2 x)
  note r = 2
  obtain m g where x: "x = (m, g)" by (cases x)
  let ?n = "unat (ssa_value req)" and ?d = "ucast dest :: i64" and ?r = "ucast (ssa_value req) :: i64"
  have n: "?n < 2 ^ 33" using evm_require_small [OF ok r] .
  have ur: "unat ?r = ?n" using n by (intro unat_trunc_addr) simp
  have "state_ok (m, g)" using state_ok_evm_require [OF ok r] by (simp add: x)
  then have g: "gas_ok g" by (rule state_ok_bounds(4))
  obtain k where k: "ir_select (Some (srcIdx \<ge> of_nat (length src))) (Some 0)
      (ir_select (ir_ugt (Some ?r) (ir_nuw_sub (Some (ucast (of_nat (length src) :: word256))) (Some (ucast srcIdx))))
        (ir_nuw_sub (Some (ucast (of_nat (length src) :: word256))) (Some (ucast srcIdx))) (Some ?r)) = Some k"
    "unat k = min ?n (length src - unat srcIdx)"
    using bytesToCopy_eq [OF src, of srcIdx ?r] ur by auto
  have kr: "k \<le> ?r" by (simp add: word_le_nat_alt ur k(2))
  then have zero: "ir_nuw_sub (Some ?r) (Some k) = Some (?r - k)" "unat (?r - k) = ?n - unat k"
    by (simp_all add: ir_simps unat_sub_no_wrap ur)
  have room: "unat ?d + ?n \<le> length (a_data m) \<or> ?n = 0" and du: "?n \<noteq> 0 \<Longrightarrow> unat ?d = unat dest"
    and dk: "unat ?d + unat k < 2 ^ 64"
    using evm_require_access [OF ok r [unfolded x]] k(2) unat_lt_exp [of ?d]
    by (cases "?n = 0"; simp add: unat_trunc_addr)+
  then have pad: "ir_nuw_add (Some ?d) (Some k) = Some (?d + k)" "unat (?d + k) = unat ?d + unat k"
    by (simp_all add: ir_simps unat_add_no_wrap)
  have idx: "memcpy (a_data m) (unat ?d) src (unat (ucast srcIdx :: i64)) (unat k) =
      memcpy (a_data m) (unat ?d) src (unat srcIdx) (unat k)"
    using src_index(3) [OF src, of srcIdx] by (cases "unat srcIdx < length src") (simp_all add: k(2) memcpy_def)
  obtain d1 where d1: "memcpy (a_data m) (unat ?d) src (unat srcIdx) (unat k) = Some d1"
    "memset0 d1 (unat ?d + unat k) (?n - unat k) = Some (a_data (write_mem (unat ?d) (src_window src (unat srcIdx) ?n) m))"
    using memcpy_memset0 [OF room k(2)] by auto
  have dest: "write_mem (unat ?d) (src_window src (unat srcIdx) ?n) m = write_mem (unat dest) (src_window src (unat srcIdx) ?n) m"
    using du by (cases "?n = 0") (simp_all add: write_mem_def src_window_def)
  show ?case
    by (simp only: x prod.case Let_def words64_trunc(1) [OF n] words64_trunc(2) [OF n g] k(1) zero pad use_Some
        idx d1 write_mem_data dest)
qed simp

lemma copyBytesNoPadding_eq:
  assumes ok: "state_ok s" and heap: "2 ^ 33 \<le> heap_limit mc" and src: "length src < 2 ^ 63"
    and inside: "unat srcIdx + unat (ssa_value req) \<le> length src"
  shows "copyBytesNoPadding mc src (of_nat (length src)) srcIdx dest req s =
    obind (evm_require (unat dest) (unat (ssa_value req)) s) (\<lambda>(m, g).
    obind (charge g (3 * word_count (unat (ssa_value req)))) (\<lambda>g1.
    Done (write_mem (unat dest) (take (unat (ssa_value req)) (drop (unat srcIdx) src)) m, g1)))"
  unfolding copyBytesNoPadding_def require_eq_evm [OF ok heap]
proof (rule obind_cong, goal_cases)
  case (2 x)
  note r = 2
  obtain m g where x: "x = (m, g)" by (cases x)
  let ?n = "unat (ssa_value req)" and ?d = "ucast dest :: i64" and ?r = "ucast (ssa_value req) :: i64"
  have n: "?n < 2 ^ 33" using evm_require_small [OF ok r] .
  have ur: "unat ?r = ?n" using n by (intro unat_trunc_addr) simp
  have "state_ok (m, g)" using state_ok_evm_require [OF ok r] by (simp add: x)
  then have g: "gas_ok g" by (rule state_ok_bounds(4))
  have sum: "unat (srcIdx + ssa_value req) = unat srcIdx + ?n"
    using inside src by (intro unat_add_no_wrap) simp
  have l: "unat (ucast (of_nat (length src) :: i64) :: word256) = length src"
    using src by (subst unat_ucast_up) (simp_all add: unat_of_nat_small)
  have ok': "\<not> srcIdx + ssa_value req < ssa_value req"
    "\<not> srcIdx + ssa_value req > ucast (of_nat (length src) :: i64)"
    unfolding word_less_nat_alt sum l using inside by simp_all
  have "length (take ?n (drop (unat srcIdx) src)) = ?n" using inside by simp
  moreover have "memcpy (a_data m) (unat ?d) src (unat (ucast srcIdx :: i64)) ?n =
      Some (a_data (write_mem (unat dest) (take ?n (drop (unat srcIdx) src)) m))"
  proof (cases "?n = 0")
    case True
    then show ?thesis by (simp add: memcpy_def write_mem_def)
  next
    case False
    note acc = evm_require_access [OF ok r [unfolded x]]
    have idx: "unat (ucast srcIdx :: i64) = unat srcIdx" using inside src by (intro unat_trunc_addr) simp
    have d: "unat ?d = unat dest" using acc(2) False by (intro unat_trunc_addr) simp
    have "take ?n (drop (unat srcIdx) src) \<noteq> []" using calculation False by (metis list.size(3))
    then have "mem_write (a_data m) (unat dest) (take ?n (drop (unat srcIdx) src)) =
        Some (a_data (write_mem (unat dest) (take ?n (drop (unat srcIdx) src)) m))"
      using acc(1) False calculation by (intro mem_write_write_mem) simp_all
    then show ?thesis using False inside by (simp add: memcpy_def mem_read_def idx d)
  qed
  ultimately show ?case
    by (simp only: x prod.case Let_def ok' simp_thms ir_select_Some if_False words64_trunc(1) [OF n]
        words64_trunc(2) [OF n g] ur use_Some write_mem_data)
qed simp

text \<open>Past the end of the buffer the penalty goes through the multiplication by the price per word,
  whose \<^verbatim>\<open>nuw\<close> promise it breaks.\<close>

lemma copyBytesNoPadding_overrun:
  assumes ok: "state_ok s" and heap: "2 ^ 33 \<le> heap_limit mc" and src: "length src < 2 ^ 63"
    and outside: "length src < unat srcIdx + unat (ssa_value req)"
  shows "copyBytesNoPadding mc src (of_nat (length src)) srcIdx dest req s =
    obind (evm_require (unat dest) (unat (ssa_value req)) s) (\<lambda>_. Undefined)"
  unfolding copyBytesNoPadding_def require_eq_evm [OF ok heap]
proof (rule obind_cong, goal_cases)
  case (2 x)
  obtain m g where x: "x = (m, g)" by (cases x)
  have l: "unat (ucast (of_nat (length src) :: i64) :: word256) = length src"
    using src by (subst unat_ucast_up) (simp_all add: unat_of_nat_small)
  have over: "srcIdx + ssa_value req < ssa_value req \<or>
      srcIdx + ssa_value req > ucast (of_nat (length src) :: i64)"
  proof (cases "unat srcIdx + unat (ssa_value req) < 2 ^ 256")
    case True
    then have "unat (srcIdx + ssa_value req) = unat srcIdx + unat (ssa_value req)"
      by (intro unat_add_no_wrap) simp
    then show ?thesis unfolding word_less_nat_alt l using outside by simp
  next
    case False
    then have "unat (srcIdx + ssa_value req) = unat srcIdx + unat (ssa_value req) - 2 ^ 256"
      using unat_lt_exp [of srcIdx] unat_lt_exp [of "ssa_value req"]
      by (simp add: unat_word_ariths mod_if)
    moreover have "unat srcIdx < 2 ^ 256" using unat_lt_exp [of srcIdx] by simp
    ultimately have "unat (srcIdx + ssa_value req) < unat (ssa_value req)" using False by linarith
    then show ?thesis by (simp add: word_less_nat_alt)
  qed
  have "countCopy g (Some gasMax) = Undefined"
    by (simp add: countCopy_def count64_def schedule ir_simps unat_gasMax gas_check_poison)
  then show ?case
    using over by (simp only: x prod.case Let_def ir_select_Some if_True obind.simps)
qed simp

section \<open>Properties\<close>

abbreviation test_machine :: machine where
  "test_machine \<equiv> \<lparr> little_endian = True, heap_limit = 2 ^ 33, heap_junk = (\<lambda>_. 0xAA) \<rparr>"

lemma state_ok_new [simp]: "unat gas < 2 ^ 47 \<Longrightarrow> state_ok (new_array, gas)"
  by (simp add: state_ok_def new_array_def budget_def mem_ok_def mem_words_def Cmem_def)

lemma evm_require_new:
  assumes "len \<noteq> 0" "words_needed off len < 2 ^ 28"
  shows "evm_require off len (new_array, gas) =
    obind (charge gas (Cmem (words_needed off len))) (\<lambda>g.
      Done (\<lparr> a_data = replicate (32 * words_needed off len) 0, a_size = of_nat (32 * words_needed off len),
              a_cap = of_nat (32 * words_needed off len) \<rparr>, g))"
  by (simp add: evm_require_def mem_words_def grow_def new_array_def Let_def Cmem_def [of 0] del: of_nat_mult)

text \<open>
  C31. \<^verbatim>\<open>mem.require\<close> computes, in 64-bit arithmetic that never wraps and with the offset and the size
  clamped to 8 GiB, exactly what the EVM prescribes on unbounded numbers: nothing for an empty range,
  otherwise the difference of the memory cost function paid from the gas, and the memory extended
  with zeros to the words needed; it stops the run when the gas does not cover the difference.
\<close>

theorem mem_require_is_evm:
  assumes "state_ok s" "2 ^ 33 \<le> heap_limit mc"
  shows "require mc off len s = evm_require (unat off) (unat (ssa_value len)) s"
  using assms by (rule require_eq_evm)

theorem mem_require_is_evm_witness:
  "require test_machine 64 (Inst 1) (new_array, 100) =
     Done (\<lparr> a_data = replicate 96 0, a_size = 96, a_cap = 96 \<rparr>, 91)"
  using mem_require_is_evm [of "(new_array, 100)" test_machine 64 "Inst 1"]
  by (simp add: evm_require_new words_needed_def charge_def Cmem_def)

text \<open>
  C32. Memory reads back what was written, on a host of either byte order: MLOAD at the address of an
  MSTORE returns the stored word and costs no more memory gas, and the bytes outside the 32 written
  ones are those of the memory before, extended with zeros.
\<close>

theorem mstore_mload_roundtrip:
  assumes "state_ok (mem, gas)" "2 ^ 33 \<le> heap_limit mc"
    and "storeWord mc a w (mem, gas) = Done (mem', gas')"
  shows "loadWord mc a (mem', gas') = Done (w, (mem', gas')) \<and> state_ok (mem', gas') \<and>
    (\<forall>i < length (a_data mem'). i < unat a \<or> unat a + 32 \<le> i \<longrightarrow>
      a_data mem' ! i = (if i < length (a_data mem) then a_data mem ! i else 0))"
proof -
  obtain m where r: "evm_require (unat a) 32 (mem, gas) = Done (m, gas')"
    and mem': "mem' = write_mem (unat a) (to_be w) m"
    using assms(3) by (auto simp: storeWord_eq [OF assms(1,2)] obind_eq_Done_iff)
  note acc = evm_require_access [OF assms(1) r] and d = evm_require_Done [OF assms(1) r]
  have len: "length (to_be w) = 32" by simp
  then have ne: "to_be w \<noteq> []" by (metis list.size(3) zero_neq_numeral)
  have room: "unat a + 32 \<le> length (a_data m)" using acc by simp
  have ok: "state_ok (mem', gas')"
    unfolding mem' using acc(4) room len by (intro state_ok_write_mem) simp_all
  have need: "words_needed (unat a) 32 \<le> mem_words mem'" using d(4) by (simp add: mem')
  have "evm_require (unat a) 32 (mem', gas') = Done (mem', gas')"
    using need state_ok_bounds(1) [OF ok] by (simp add: evm_require_def max_def grow_same)
  moreover have "read_mem (unat a) 32 mem' = to_be w"
    using room len ne by (simp add: mem' read_mem_def write_mem_def)
  ultimately have load: "loadWord mc a (mem', gas') = Done (w, (mem', gas'))"
    by (simp add: loadWord_eq [OF ok assms(2)])
  have m: "a_data m = a_data mem @ replicate (length (a_data m) - length (a_data mem)) 0"
    using d(5) by (simp add: grow_def Let_def)
  have "a_data mem' ! i = (if i < length (a_data mem) then a_data mem ! i else 0)"
    if "i < length (a_data mem')" "i < unat a \<or> unat a + 32 \<le> i" for i
  proof -
    have "mem_write (a_data m) (unat a) (to_be w) = Some (a_data mem')"
      unfolding mem' using room len ne by (intro mem_write_write_mem) simp_all
    moreover have "i < length (a_data m)" using that(1) room len by (simp add: mem' length_write_mem)
    ultimately have "a_data mem' ! i = a_data m ! i" using that(2) len by (subst mem_write_nth) auto
    also have "\<dots> = (if i < length (a_data mem) then a_data mem ! i else 0)"
      using \<open>i < length (a_data m)\<close> by (subst m) (simp add: nth_append)
    finally show ?thesis .
  qed
  with load ok show ?thesis by blast
qed

theorem mstore_mload_roundtrip_witness:
  "\<exists>s. storeWord test_machine 5 77 (new_array, 100) = Done s \<and> loadWord test_machine 5 s = Done (77, s)"
proof -
  have ok: "state_ok (new_array, 100)" by simp
  obtain m g where "storeWord test_machine 5 77 (new_array, 100) = Done (m, g)"
    using storeWord_eq [OF ok, of test_machine 5 77]
    by (simp add: evm_require_new words_needed_def charge_def Cmem_def)
  with mstore_mload_roundtrip [OF ok _ this] show ?thesis by auto
qed

text \<open>
  C33. RETURNDATACOPY: inside the buffer \<^verbatim>\<open>copyBytesNoPadding\<close> pays and copies as prescribed; past its
  end the clamp value meant as an unpayable penalty is first multiplied by 3 under a \<^verbatim>\<open>nuw\<close> flag, so
  LLVM gives the check of the cost no meaning instead of stopping the run.
\<close>

theorem copyBytesNoPadding_bounds:
  assumes "state_ok s" "2 ^ 33 \<le> heap_limit mc" "length src < 2 ^ 63"
  shows "copyBytesNoPadding mc src (of_nat (length src)) srcIdx dest req s =
    obind (evm_require (unat dest) (unat (ssa_value req)) s) (\<lambda>(m, g).
    if unat srcIdx + unat (ssa_value req) \<le> length src
    then obind (charge g (3 * word_count (unat (ssa_value req)))) (\<lambda>g1.
      Done (write_mem (unat dest) (take (unat (ssa_value req)) (drop (unat srcIdx) src)) m, g1))
    else Undefined)"
  using copyBytesNoPadding_eq [OF assms, of srcIdx req] copyBytesNoPadding_overrun [OF assms, of srcIdx req]
  by (cases "unat srcIdx + unat (ssa_value req) \<le> length src") (auto simp: not_le split_def)

theorem copyBytesNoPadding_bounds_witness:
  "copyBytesNoPadding test_machine [1, 2, 3] 3 2 0 (Inst 2) (new_array, 100) = Undefined"
  using copyBytesNoPadding_bounds [of "(new_array, 100)" test_machine "[1, 2, 3]" 2 0 "Inst 2"]
  by (simp add: evm_require_new words_needed_def charge_def Cmem_def)

text \<open>
  C34. The clamp is only safe while the memory is below 8 GiB: once it is larger, a request beyond the
  clamp is accepted without a check, a payment or an extension, and the load that follows reads
  outside of the allocation.
\<close>

theorem require_clamp_hole:
  assumes "c_inputMax < unat off" "unat off < 2 ^ 64" "length (a_data mem) < unat off + 32"
    and "mem_ok mem" "c_inputMax + 63 \<le> unat (a_size mem)"
  shows "require mc off (ConstantInt 32) (mem, gas) = Done (mem, gas) \<and>
    loadWord mc off (mem, gas) = Undefined"
proof -
  have pos: "(32 :: word256) \<noteq> 0" by simp
  obtain r where r: "unat r = 32 * ((clamp (unat off) + clamp (unat (32 :: word256)) + 31) div 32)"
    and step: "require_func mc off 32 (mem, gas) =
       (if r \<le> a_size mem then Done (mem, gas)
        else obind (countMemory gas
                (ir_select (Some (unat off \<le> c_inputMax \<and> unat (32 :: word256) \<le> c_inputMax))
                   (ir_nuw_sub (memory_cost64 (drop_bit 5 r)) (memory_cost64 (drop_bit 5 (a_size mem))))
                   (Some gasMax))) (\<lambda>gas1.
             obind (array_extend mc mem r) (\<lambda>mem1. Done (mem1, gas1))))"
    using pos by (rule require_func_step)
  have "r \<le> a_size mem" using assms(1,5) by (simp add: word_le_nat_alt r clamp_def c_inputMax_def)
  then have req: "require mc off (ConstantInt 32) (mem, gas) = Done (mem, gas)"
    by (simp add: require_def step)
  moreover have "load_word_func mc off mem = Undefined"
    using assms(2,3) by (simp add: load_word_func_def mem_read_def unat_trunc_addr)
  ultimately show ?thesis by (simp add: loadWord_def)
qed

theorem require_clamp_hole_witness:
  "loadWord test_machine (2 ^ 40)
     (\<lparr> a_data = replicate (2 ^ 33 + 64) 0, a_size = 2 ^ 33 + 64, a_cap = 2 ^ 33 + 64 \<rparr>, 0) = Undefined"
  using require_clamp_hole [of "2 ^ 40"
      "\<lparr> a_data = replicate (2 ^ 33 + 64) 0, a_size = 2 ^ 33 + 64, a_cap = 2 ^ 33 + 64 \<rparr>" test_machine 0]
  by (simp add: c_inputMax_def mem_ok_def mem_words_def)

end
