(* ===== verification/Operators.thy ===== *)
theory Operators
  imports Arith256
begin

text \<open>
  The word-level cases of the opcode switch in \<^verbatim>\<open>Compiler::compileBasicBlock\<close>
  (\<^verbatim>\<open>libevmjit/Compiler.cpp\<close>): the SSA value each arithmetic, comparison and bitwise opcode pushes,
  as a function of the values it pops.  Division is LLVM's \<^verbatim>\<open>udiv\<close>, \<^verbatim>\<open>sdiv\<close>, \<^verbatim>\<open>urem\<close>, \<^verbatim>\<open>srem\<close>
  in the IR the compiler emits and a call of an \<^verbatim>\<open>Arith256\<close> function once the module has been
  lowered, so the division operations are a record and the cases take it as an argument.
\<close>

section \<open>Division back ends\<close>

record division =
  udiv256 :: "word256 \<Rightarrow> word256 \<Rightarrow> word256 option"
  urem256 :: "word256 \<Rightarrow> word256 \<Rightarrow> word256 option"
  sdiv256 :: "word256 \<Rightarrow> word256 \<Rightarrow> word256 option"
  srem256 :: "word256 \<Rightarrow> word256 \<Rightarrow> word256 option"
  urem512 :: "word512 \<Rightarrow> word512 \<Rightarrow> word512 option"

abbreviation min_word :: word256 where
  "min_word \<equiv> push_bit 255 1"

text \<open>The LLVM instructions: a zero divisor is undefined behaviour, and so is the signed division of
  the least value by -1.\<close>

definition llvm_division :: division where
  "llvm_division =
     \<lparr> udiv256 = (\<lambda>x y. if y = 0 then None else Some (x div y)),
       urem256 = (\<lambda>x y. if y = 0 then None else Some (x mod y)),
       sdiv256 = (\<lambda>x y. if y = 0 \<or> (x = min_word \<and> y = - 1) then None else Some (sdiv_word x y)),
       srem256 = (\<lambda>x y. if y = 0 \<or> (x = min_word \<and> y = - 1) then None else Some (smod_word x y)),
       urem512 = (\<lambda>x y. if y = 0 then None else Some (x mod y)) \<rparr>"

text \<open>What \<^verbatim>\<open>LowerEVMPass\<close> puts in their place.\<close>

definition lowered_division :: division where
  "lowered_division =
     \<lparr> udiv256 = getUDiv256Func,
       urem256 = getURem256Func,
       sdiv256 = getSDiv256Func,
       srem256 = getSRem256Func,
       urem512 = getURem512Func \<rparr>"

section \<open>The cases\<close>

definition code_DIV :: "division \<Rightarrow> word256 \<Rightarrow> word256 \<Rightarrow> word256 option" where
  "code_DIV B d n0 =
     (let divByZero = (n0 = 0);
          n = (if divByZero then 1 else n0)
      in do {
        r \<leftarrow> udiv256 B d n;
        Some (if divByZero then 0 else r)
      })"

definition code_SDIV :: "division \<Rightarrow> word256 \<Rightarrow> word256 \<Rightarrow> word256 option" where
  "code_SDIV B d n0 =
     (let divByZero = (n0 = 0);
          divByMinusOne = (n0 = - 1);
          n = (if divByZero then 1 else n0)
      in do {
        r0 \<leftarrow> sdiv256 B d n;
        let r1 = (if divByZero then 0 else r0);
        let dNeg = 0 - d;
        Some (if divByMinusOne then dNeg else r1)
      })"

definition code_MOD :: "division \<Rightarrow> word256 \<Rightarrow> word256 \<Rightarrow> word256 option" where
  "code_MOD B d n0 =
     (let divByZero = (n0 = 0);
          n = (if divByZero then 1 else n0)
      in do {
        r \<leftarrow> urem256 B d n;
        Some (if divByZero then 0 else r)
      })"

definition code_SMOD :: "division \<Rightarrow> word256 \<Rightarrow> word256 \<Rightarrow> word256 option" where
  "code_SMOD B d n0 =
     (let divByZero = (n0 = 0);
          divByMinusOne = (n0 = - 1);
          n = (if divByZero then 1 else n0)
      in do {
        r0 \<leftarrow> srem256 B d n;
        let r1 = (if divByZero then 0 else r0);
        Some (if divByMinusOne then 0 else r1)
      })"

definition code_ADDMOD :: "division \<Rightarrow> word256 \<Rightarrow> word256 \<Rightarrow> word256 \<Rightarrow> word256 option" where
  "code_ADDMOD B a0 b0 m0 =
     (let divByZero = (m0 = 0);
          a = ucast a0 :: word512;
          b = ucast b0 :: word512;
          m = ucast m0 :: word512
      in do {
        s \<leftarrow> ir_nuw_add (Some a) (Some b);
        s1 \<leftarrow> urem512 B s m;
        let s2 = (ucast s1 :: word256);
        Some (if divByZero then 0 else s2)
      })"

definition code_MULMOD :: "division \<Rightarrow> word256 \<Rightarrow> word256 \<Rightarrow> word256 \<Rightarrow> word256 option" where
  "code_MULMOD B a0 b0 m0 =
     (let divByZero = (m0 = 0);
          a = ucast a0 :: word512;
          b = ucast b0 :: word512;
          m = ucast m0 :: word512
      in do {
        p \<leftarrow> ir_nuw_mul (Some a) (Some b);
        p1 \<leftarrow> urem512 B p m;
        let p2 = (ucast p1 :: word256);
        Some (if divByZero then 0 else p2)
      })"

definition code_bool :: "bool \<Rightarrow> word256" where
  "code_bool b = (if b then 1 else 0)"

definition code_LT :: "word256 \<Rightarrow> word256 \<Rightarrow> word256" where
  "code_LT lhs rhs = code_bool (lhs < rhs)"

definition code_GT :: "word256 \<Rightarrow> word256 \<Rightarrow> word256" where
  "code_GT lhs rhs = code_bool (rhs < lhs)"

definition code_SLT :: "word256 \<Rightarrow> word256 \<Rightarrow> word256" where
  "code_SLT lhs rhs = code_bool (sint lhs < sint rhs)"

definition code_SGT :: "word256 \<Rightarrow> word256 \<Rightarrow> word256" where
  "code_SGT lhs rhs = code_bool (sint rhs < sint lhs)"

definition code_EQ :: "word256 \<Rightarrow> word256 \<Rightarrow> word256" where
  "code_EQ lhs rhs = code_bool (lhs = rhs)"

definition code_ISZERO :: "word256 \<Rightarrow> word256" where
  "code_ISZERO value = code_bool (value = 0)"

definition code_NOT :: "word256 \<Rightarrow> word256" where
  "code_NOT value = value XOR (- 1)"

text \<open>\<^verbatim>\<open>BYTE\<close>: the byte-swapped word seen as a vector of 32 bytes, in the order the host keeps them.\<close>

definition code_BYTE :: "bool \<Rightarrow> word256 \<Rightarrow> word256 \<Rightarrow> word256" where
  "code_BYTE le idx value0 =
     (let value = toBE le value0;
          idxValid = (idx < 32);
          bytes = host_store le value;
          safeIdx5 = (ucast idx :: 5 word);
          safeIdx = (ucast safeIdx5 :: i64);
          byte = bytes ! unat safeIdx
      in if idxValid then ucast byte else 0)"

definition code_SIGNEXTEND :: "word256 \<Rightarrow> word256 \<Rightarrow> word256" where
  "code_SIGNEXTEND idx word =
     (let k5 = (ucast idx :: 5 word);
          k32 = (ucast k5 :: i64);
          k32x8 = k32 * 8;
          bitpos = k32x8 + 7;
          bitposEx = (ucast bitpos :: word256);
          bitval = drop_bit (unat bitposEx) word;
          bittest = bit bitval 0;
          mask0 = push_bit (unat bitposEx) 1;
          mask = mask0 - 1;
          negmask = mask XOR (- 1);
          val1 = word OR negmask;
          val0 = word AND mask;
          kInRange = (idx \<le> 30)
      in if kInRange then (if bittest then val1 else val0) else word)"

section \<open>The EVM's functions\<close>

definition evm_div :: "word256 \<Rightarrow> word256 \<Rightarrow> word256" where
  "evm_div d n = (if n = 0 then 0 else word_of_int (uint d div uint n))"

definition evm_sdiv :: "word256 \<Rightarrow> word256 \<Rightarrow> word256" where
  "evm_sdiv d n = (if n = 0 then 0 else sdiv_word d n)"

definition evm_mod :: "word256 \<Rightarrow> word256 \<Rightarrow> word256" where
  "evm_mod d n = (if n = 0 then 0 else word_of_int (uint d mod uint n))"

definition evm_smod :: "word256 \<Rightarrow> word256 \<Rightarrow> word256" where
  "evm_smod d n = (if n = 0 then 0 else smod_word d n)"

definition evm_addmod :: "word256 \<Rightarrow> word256 \<Rightarrow> word256 \<Rightarrow> word256" where
  "evm_addmod a b m = (if m = 0 then 0 else of_nat ((unat a + unat b) mod unat m))"

definition evm_mulmod :: "word256 \<Rightarrow> word256 \<Rightarrow> word256 \<Rightarrow> word256" where
  "evm_mulmod a b m = (if m = 0 then 0 else of_nat ((unat a * unat b) mod unat m))"

definition evm_byte :: "word256 \<Rightarrow> word256 \<Rightarrow> word256" where
  "evm_byte i x = (if i < 32 then drop_bit (8 * (31 - unat i)) x AND 0xff else 0)"

definition evm_signextend :: "word256 \<Rightarrow> word256 \<Rightarrow> word256" where
  "evm_signextend k x = (if k < 31 then signed_take_bit (8 * unat k + 7) x else x)"

lemmas code_defs = code_DIV_def code_SDIV_def code_MOD_def code_SMOD_def

section \<open>The contract of a back end\<close>

locale division_backend =
  fixes B :: division
  assumes udiv: "y \<noteq> 0 \<Longrightarrow> udiv256 B x y = Some (x div y)"
    and urem: "y \<noteq> 0 \<Longrightarrow> urem256 B x y = Some (x mod y)"
    and sdiv: "y \<noteq> 0 \<Longrightarrow> \<not> (x = min_word \<and> y = - 1) \<Longrightarrow> sdiv256 B x y = Some (sdiv_word x y)"
    and srem: "y \<noteq> 0 \<Longrightarrow> \<not> (x = min_word \<and> y = - 1) \<Longrightarrow> srem256 B x y = Some (smod_word x y)"
    and uremL: "z \<noteq> 0 \<Longrightarrow> urem512 B w z = Some (w mod z)"

locale total_division_backend = division_backend +
  assumes sdiv_overflow: "sdiv256 B min_word (- 1) = Some (sdiv_word min_word (- 1))"
    and srem_overflow: "srem256 B min_word (- 1) = Some (smod_word min_word (- 1))"

lemma sdiv_word_minus_one: "sdiv_word d (- 1) = - d"
  by (simp add: sdiv_word_def)

lemma smod_word_minus_one: "smod_word d (- 1) = 0"
  by (simp add: smod_word_def signed_modulo_int_def)


lemma unat_zext512: "unat (ucast a :: word512) = unat a"
  for a :: word256
  by (rule unat_ucast_up) simp

lemma zext512_eq_0 [simp]: "(ucast m :: word512) = 0 \<longleftrightarrow> m = 0"
  for m :: word256
  using unat_zext512 [of m] by (metis unat_eq_zero)

lemma unat_mult_bound: "unat a * unat b < 2 ^ 512"
  for a b :: word256
  using mult_strict_mono [OF unat_lt_exp [of a] unat_lt_exp [of b]] by simp

lemma unat_add_bound: "unat a + unat b < 2 ^ 512"
  for a b :: word256
  using unat_lt_exp [of a] unat_lt_exp [of b] by simp

lemma trunc_mod:
  fixes w :: word512 and m :: word256
  shows "ucast (w mod ucast m) = (of_nat (unat w mod unat m) :: word256)"
proof -
  have "unat (w mod ucast m) = unat w mod unat m" by (simp add: unat_mod unat_zext512)
  then show ?thesis by (metis of_nat_unat)
qed

context division_backend
begin

lemma code_DIV_eq: "code_DIV B d n = Some (evm_div d n)"
  by (simp add: code_DIV_def evm_div_def udiv Let_def word_div_def)

lemma code_MOD_eq: "code_MOD B d n = Some (evm_mod d n)"
  by (simp add: code_MOD_def evm_mod_def urem Let_def word_mod_def)

lemma code_SDIV_eq: "\<not> (d = min_word \<and> n = - 1) \<Longrightarrow> code_SDIV B d n = Some (evm_sdiv d n)"
  by (simp add: code_SDIV_def evm_sdiv_def sdiv Let_def sdiv_word_minus_one)

lemma code_SMOD_eq: "\<not> (d = min_word \<and> n = - 1) \<Longrightarrow> code_SMOD B d n = Some (evm_smod d n)"
  by (simp add: code_SMOD_def evm_smod_def srem Let_def smod_word_minus_one)

lemma code_ADDMOD_eq:
  assumes "m \<noteq> 0"
  shows "code_ADDMOD B a b m = Some (evm_addmod a b m)"
  using assms unat_add_bound [of a b]
  by (simp add: code_ADDMOD_def evm_addmod_def uremL ir_simps unat_zext512 trunc_mod unat_add_no_wrap)

lemma code_MULMOD_eq:
  assumes "m \<noteq> 0"
  shows "code_MULMOD B a b m = Some (evm_mulmod a b m)"
  using assms unat_mult_bound [of a b]
  by (simp add: code_MULMOD_def evm_mulmod_def uremL ir_simps unat_zext512 trunc_mod unat_mul_no_wrap)

end

context total_division_backend
begin

lemma code_SDIV_total: "code_SDIV B d n = Some (evm_sdiv d n)"
  using code_SDIV_eq [of d n] sdiv_overflow
  by (cases "d = min_word \<and> n = - 1") (auto simp: code_SDIV_def evm_sdiv_def Let_def sdiv_word_minus_one)

lemma code_SMOD_total: "code_SMOD B d n = Some (evm_smod d n)"
  using code_SMOD_eq [of d n] srem_overflow
  by (cases "d = min_word \<and> n = - 1") (auto simp: code_SMOD_def evm_smod_def Let_def smod_word_minus_one)

end

interpretation llvm: division_backend llvm_division
  by unfold_locales (auto simp: llvm_division_def)

interpretation lowered: total_division_backend lowered_division
  by unfold_locales
    (simp_all add: lowered_division_def getUDiv256Func_correct getURem256Func_def getURem512Func_def
      createURemFunc_correct getSDiv256Func_def getSRem256Func_def getSDivRem256Func_correct)

lemma llvm_signed_overflow:
  "code_SDIV llvm_division min_word (- 1) = None" "code_SMOD llvm_division min_word (- 1) = None"
  by (simp_all add: code_SDIV_def code_SMOD_def llvm_division_def)

section \<open>The other cases\<close>

lemma ucast5_small:
  fixes k :: word256
  assumes "k < 32"
  shows "unat (ucast (ucast k :: 5 word) :: i64) = unat k"
proof -
  have k: "unat k < 32" using assms by (simp add: word_less_nat_alt)
  have "unat (ucast k :: 5 word) = unat k" by (rule unat_ucast_small) (use k in simp)
  then show ?thesis by (subst unat_ucast_up) simp_all
qed

lemma code_BYTE_eq: "code_BYTE le i x = evm_byte i x"
proof (cases "i < 32")
  case True
  have i: "unat i < 32" using True by (simp add: word_less_nat_alt)
  have "to_be x ! unat i = ucast (drop_bit (8 * (31 - unat i)) x)"
    using i by (subst to_be_nth) simp_all
  moreover have "ucast (ucast w :: byte) = w AND 0xff" for w :: word256
  proof -
    have "ucast (ucast w :: byte) = take_bit 8 w" by (rule bit_eqI) (auto simp: bit_simps)
    then show ?thesis by (simp add: take_bit_eq_mask mask_eq_exp_minus_1)
  qed
  ultimately show ?thesis
    using True by (simp add: code_BYTE_def evm_byte_def Let_def ucast5_small)
next
  case False
  then show ?thesis by (simp add: code_BYTE_def evm_byte_def Let_def)
qed

lemma code_SIGNEXTEND_eq: "code_SIGNEXTEND k x = evm_signextend k x"
proof (cases "k < 31")
  case True
  have small: "unat k < 31" using True by (simp add: word_less_nat_alt)
  have k: "unat (ucast (ucast k :: 5 word) :: i64) = unat k"
    using True by (intro ucast5_small) (simp add: word_less_nat_alt)
  have "unat ((ucast (ucast k :: 5 word) :: i64) * 8) = unat k * 8"
    using small by (subst unat_mul_no_wrap) (simp_all add: k)
  then have "unat ((ucast (ucast k :: 5 word) :: i64) * 8 + 7) = 8 * unat k + 7"
    using small by (subst unat_add_no_wrap) simp_all
  then have pos: "unat (ucast ((ucast (ucast k :: 5 word) :: i64) * 8 + 7) :: word256) = 8 * unat k + 7"
    by (subst unat_ucast_up) simp_all
  let ?n = "8 * unat k + 7"
  have "push_bit ?n 1 - 1 = (mask ?n :: word256)"
    by (simp add: mask_eq_exp_minus_1 push_bit_eq_mult)
  moreover have "k \<le> 30" using small by (simp add: word_le_nat_alt)
  moreover have "signed_take_bit ?n x = (if bit x ?n then x OR NOT (mask ?n) else x AND mask ?n)"
    by (rule bit_eqI) (auto simp: bit_simps min_def)
  ultimately show ?thesis
    using True by (simp add: code_SIGNEXTEND_def evm_signextend_def Let_def pos bit_drop_bit_eq)
next
  case False
  then have "\<not> k \<le> 30" by (simp add: word_le_nat_alt word_less_nat_alt)
  with False show ?thesis by (simp add: code_SIGNEXTEND_def evm_signextend_def Let_def)
qed

text \<open>Signed division truncates and its remainder has the sign of the dividend; the least value by -1 wraps.\<close>

lemma sdivrem_is_signed_division:
  "y \<noteq> 0 \<Longrightarrow> getSDivRem256Func x y =
     Some (word_of_int (sint x sdiv sint y), word_of_int (sint x smod sint y))"
  by (simp add: getSDivRem256Func_correct sdiv_word_def smod_word_def)

section \<open>Properties\<close>

text \<open>
  C25. The long division that replaces 256- and 512-bit \<^verbatim>\<open>udiv\<close> and \<^verbatim>\<open>urem\<close> (the shift-subtract loop
  that \<^verbatim>\<open>createUDivRemFunc\<close> emits) ends, keeps every \<^verbatim>\<open>nuw\<close> promise and returns the quotient and
  the remainder, at every width, for a divisor other than 0.  For a zero divisor the emitted code
  counts the leading zeros of 0 with "zero is undefined" set, so it has no defined result.
\<close>

theorem udivrem_is_division:
  fixes x y :: "'a::len word"
  shows "createUDivRemFunc x y = (if y = 0 then None else Some (x div y, x mod y))"
  by (simp add: createUDivRemFunc_correct createUDivRemFunc_by_zero)

text \<open>
  C26. \<^verbatim>\<open>Arith256::exp\<close> computes the base to the power of the exponent modulo 2 to the 256, both when
  it folds two constants at compile time and when it calls the emitted square-and-multiply loop.
\<close>

theorem exp_is_power:
  "ssa_value (exp b e) = ssa_value b ^ unat (ssa_value e)"
  by (cases b; cases e) (simp_all add: exp_fold_eq_loop getExpFunc_def exp_loop_power)

text \<open>After lowering, DIV, SDIV, MOD and SMOD push the EVM's result for every pair of operands.\<close>

lemma lowered_division_opcodes:
  "code_DIV lowered_division d n = Some (evm_div d n) \<and>
   code_MOD lowered_division d n = Some (evm_mod d n) \<and>
   code_SDIV lowered_division d n = Some (evm_sdiv d n) \<and>
   code_SMOD lowered_division d n = Some (evm_smod d n)"
  by (simp add: lowered.code_DIV_eq lowered.code_MOD_eq lowered.code_SDIV_total lowered.code_SMOD_total)

text \<open>
  C27. In the IR before lowering, SDIV and SMOD of the least value by -1 execute the division before
  the \<^verbatim>\<open>select\<close> that is there to protect it, so the run has no defined result; with every other pair of
  operands the result is the EVM's.
\<close>

theorem sdiv_guard_is_too_late:
  "code_SDIV llvm_division d n =
     (if d = min_word \<and> n = - 1 then None else Some (evm_sdiv d n)) \<and>
   code_SMOD llvm_division d n =
     (if d = min_word \<and> n = - 1 then None else Some (evm_smod d n))"
  using llvm.code_SDIV_eq [of d n] llvm.code_SMOD_eq [of d n] llvm_signed_overflow
  by (cases "d = min_word \<and> n = - 1") auto

text \<open>
  C28. ADDMOD and MULMOD compute in 512 bits, so the sum and the product never wrap and the result is
  the EVM's for every modulus other than 0; but the modulus goes into the division unguarded, and for
  a modulus of 0 the code has no defined result, in the emitted IR and after lowering.
\<close>

theorem addmod_mulmod_code:
  "B = llvm_division \<or> B = lowered_division \<Longrightarrow>
   code_ADDMOD B a b m = (if m = 0 then None else Some (evm_addmod a b m)) \<and>
   code_MULMOD B a b m = (if m = 0 then None else Some (evm_mulmod a b m))"
proof -
  assume B: "B = llvm_division \<or> B = lowered_division"
  then have zero: "urem512 B w 0 = None" for w
    by (auto simp: llvm_division_def lowered_division_def getURem512Func_def createURemFunc_def
        createUDivRemFunc_by_zero)
  show ?thesis
  proof (cases "m = 0")
    case True
    then show ?thesis
      by (simp add: code_ADDMOD_def code_MULMOD_def Let_def zero Option.bind_eq_None_conv)
  next
    case False
    with B show ?thesis
      by (auto simp: llvm.code_ADDMOD_eq llvm.code_MULMOD_eq lowered.code_ADDMOD_eq lowered.code_MULMOD_eq)
  qed
qed

theorem addmod_mulmod_code_witness:
  "code_MULMOD lowered_division 7 8 10 = Some 6 \<and> code_ADDMOD lowered_division 7 8 0 = None"
  using addmod_mulmod_code [of lowered_division 7 8 10] addmod_mulmod_code [of lowered_division 7 8 0]
  by (simp add: evm_mulmod_def)

end
