(* ===== verification/Runtime.thy ===== *)
theory Runtime
  imports Host Memory Operators
begin

text \<open>
  \<^verbatim>\<open>libevmjit/RuntimeManager.cpp\<close> and \<^verbatim>\<open>struct RuntimeData\<close> of \<^verbatim>\<open>JIT.h\<close>: what the emitted main
  function keeps while it runs.  \<open>env\<close> is what does not change during a run (the message data, the
  host's functions, the compiler's configuration), \<open>rt_state\<close> what does: the host's state, the EVM
  memory, the gas counter, the transaction context once it is loaded, the RETURNDATA buffer and the
  return data registered in \<^verbatim>\<open>RuntimeData\<close>.  \<open>e_msg\<close> is the message that the callback \<open>call\<close> finds as the
  JIT's current one, in the world as it is when the call is made: executions that the host starts may
  leave another one behind (\<open>Nested\<close>).
\<close>

section \<open>Data of a run\<close>

text \<open>The fields of 32 bytes are the i256 values that loading them gives.\<close>

record runtime_data =
  rd_gas :: i64
  rd_callData :: "byte list"
  rd_callDataSize :: i64
  rd_value :: word256
  rd_code :: "byte list"
  rd_codeSize :: nat
  rd_address :: word256
  rd_caller :: word256
  rd_depth :: i64

record 'h env =
  e_machine :: machine
  e_host :: "'h evmc_host"
  e_sha3 :: "byte list \<Rightarrow> byte list"
  e_msg :: "'h \<Rightarrow> evmc_message"
  e_data :: runtime_data
  e_rev :: evmc_revision
  e_static :: bool
  e_division :: division

abbreviation e_le :: "'h env \<Rightarrow> bool" where
  "e_le e \<equiv> little_endian (e_machine e)"

datatype return_code = Stop | Return | Revert | OutOfGas

record 'h rt_state =
  rt_host :: 'h
  rt_mem :: array
  rt_gas :: i64
  rt_txCtx :: "tx_context option"
  rt_returnBuf :: "byte list"
  rt_returnData :: "i64 \<times> i64"

text \<open>The main function's prologue: the gas counter is the message's, nothing is loaded, the RETURNDATA
  buffer is empty, and the slots for return data still hold the call data.\<close>

definition init_runtime :: "'h env \<Rightarrow> 'h \<Rightarrow> 'h rt_state" where
  "init_runtime e h =
     \<lparr> rt_host = h, rt_mem = new_array, rt_gas = rd_gas (e_data e), rt_txCtx = None, rt_returnBuf = [],
       rt_returnData = (0, 0) \<rparr>"

section \<open>Accessors\<close>

definition getAddress :: "'h env \<Rightarrow> word256" where
  "getAddress e = rd_address (e_data e)"

definition getSender :: "'h env \<Rightarrow> word256" where
  "getSender e = rd_caller (e_data e)"

definition getValue :: "'h env \<Rightarrow> word256" where
  "getValue e = rd_value (e_data e)"

definition getDepth :: "'h env \<Rightarrow> i64" where
  "getDepth e = rd_depth (e_data e)"

definition getCallData :: "'h env \<Rightarrow> byte list" where
  "getCallData e = rd_callData (e_data e)"

definition getCallDataSize :: "'h env \<Rightarrow> word256" where
  "getCallDataSize e = ucast (rd_callDataSize (e_data e))"

definition getCodeSize :: "'h env \<Rightarrow> word256" where
  "getCodeSize e = of_nat (rd_codeSize (e_data e))"

definition getGas :: "'h rt_state \<Rightarrow> i64" where
  "getGas s = rt_gas s"

definition setGas :: "i64 \<Rightarrow> 'h rt_state \<Rightarrow> 'h rt_state" where
  "setGas g s = s\<lparr> rt_gas := g \<rparr>"

definition resetReturnBuf :: "'h rt_state \<Rightarrow> 'h rt_state" where
  "resetReturnBuf s = s\<lparr> rt_returnBuf := [] \<rparr>"

text \<open>The function \<^verbatim>\<open>loadTxCtx\<close>: asks the host once and keeps the answer.\<close>

definition loadTxCtx :: "'h env \<Rightarrow> 'h rt_state \<Rightarrow> tx_context \<times> 'h rt_state" where
  "loadTxCtx e s =
     (case rt_txCtx s of
        Some t \<Rightarrow> (t, s)
      | None \<Rightarrow> (let t = get_tx_context (e_host e) (rt_host s) in (t, s\<lparr> rt_txCtx := Some t \<rparr>)))"

text \<open>\<^verbatim>\<open>getTxContextItem\<close>: the items are i256 (0 and 6), i160 (1 and 2) and i64 (3 to 5); the callers swap
  the bytes of the first two kinds and extend the others to a word, which is done here.\<close>

definition getTxContextItem :: "'h env \<Rightarrow> nat \<Rightarrow> 'h rt_state \<Rightarrow> word256 \<times> 'h rt_state" where
  "getTxContextItem e index s =
     (let (t, s1) = loadTxCtx e s;
          le = e_le e;
          item = (if index = 0 then toNative le (host_load le (tx_gas_price t))
                  else if index = 1 then ucast (toNative le (host_load le (tx_origin t)) :: 160 word)
                  else if index = 2 then ucast (toNative le (host_load le (block_coinbase t)) :: 160 word)
                  else if index = 3 then ucast (block_number t)
                  else if index = 4 then ucast (block_timestamp t)
                  else if index = 5 then ucast (block_gas_limit t)
                  else toNative le (host_load le (block_difficulty t)))
      in (item, s1))"

text \<open>\<^verbatim>\<open>registerReturnData\<close>: the pointer, as an offset into the memory, and the size.\<close>

definition registerReturnData :: "word256 \<Rightarrow> word256 \<Rightarrow> 'h rt_state \<Rightarrow> 'h rt_state" where
  "registerReturnData offset sz s = s\<lparr> rt_returnData := (ucast offset, ucast sz) \<rparr>"

section \<open>Running the helpers on the state\<close>

definition on_gas :: "(i64 \<Rightarrow> i64 outcome) \<Rightarrow> 'h rt_state \<Rightarrow> 'h rt_state outcome" where
  "on_gas f s = obind (f (rt_gas s)) (\<lambda>g. Done (s\<lparr> rt_gas := g \<rparr>))"

definition on_mem :: "(mem_state \<Rightarrow> mem_state outcome) \<Rightarrow> 'h rt_state \<Rightarrow> 'h rt_state outcome" where
  "on_mem f s = obind (f (rt_mem s, rt_gas s)) (\<lambda>(m, g). Done (s\<lparr> rt_mem := m, rt_gas := g \<rparr>))"

definition on_mem_value :: "(mem_state \<Rightarrow> (word256 \<times> mem_state) outcome) \<Rightarrow> 'h rt_state \<Rightarrow> (word256 \<times> 'h rt_state) outcome" where
  "on_mem_value f s = obind (f (rt_mem s, rt_gas s)) (\<lambda>(v, (m, g)). Done (v, s\<lparr> rt_mem := m, rt_gas := g \<rparr>))"

text \<open>The bytes that an external function reads through \<^verbatim>\<open>Memory::getBytePtr\<close> and a size; none are read
  when the size is 0, whatever the pointer.\<close>

definition mem_slice :: "array \<Rightarrow> word256 \<Rightarrow> word256 \<Rightarrow> byte list outcome" where
  "mem_slice mem off sz =
     (if (ucast sz :: i64) = 0 then Done []
      else use (mem_read (a_data mem) (unat (ucast off :: i64)) (unat (ucast sz :: i64))) Done)"

definition mem_put :: "word256 \<Rightarrow> byte list \<Rightarrow> array \<Rightarrow> array outcome" where
  "mem_put off bs mem =
     (if bs = [] then Done mem
      else use (mem_write (a_data mem) (unat (ucast off :: i64)) bs) (\<lambda>d. Done (mem\<lparr> a_data := d \<rparr>)))"

end
