(* ===== verification/Ext.thy ===== *)
theory Ext
  imports Runtime
begin

text \<open>
  \<^verbatim>\<open>libevmjit/Ext.cpp\<close>: the compiled code's side of the host interface.  Words go to the host
  byte-swapped to big-endian, addresses as their low 160 bits; the results are swapped back.  The
  arguments that \<^verbatim>\<open>createCABICall\<close> passes by pointer are the byte images of the swapped values.
\<close>

section \<open>Arguments\<close>

definition addr_arg :: "'h env \<Rightarrow> word256 \<Rightarrow> byte list" where
  "addr_arg e a = (let address = toBE (e_le e) (ucast a :: 160 word) in host_store (e_le e) address)"

definition word_arg :: "'h env \<Rightarrow> word256 \<Rightarrow> byte list" where
  "word_arg e w = host_store (e_le e) (toBE (e_le e) w)"

definition word_result :: "'h env \<Rightarrow> byte list \<Rightarrow> word256" where
  "word_result e bs = toNative (e_le e) (host_load (e_le e) bs)"

definition myAddr :: "'h env \<Rightarrow> byte list" where
  "myAddr e = addr_arg e (toNative (e_le e) (getAddress e))"

section \<open>State access\<close>

definition ext_sload :: "'h env \<Rightarrow> word256 \<Rightarrow> 'h rt_state \<Rightarrow> word256" where
  "ext_sload e index s = word_result e (get_storage (e_host e) (rt_host s) (myAddr e) (word_arg e index))"

definition ext_sstore :: "'h env \<Rightarrow> word256 \<Rightarrow> word256 \<Rightarrow> 'h rt_state \<Rightarrow> 'h rt_state" where
  "ext_sstore e index value s =
     s\<lparr> rt_host := set_storage (e_host e) (rt_host s) (myAddr e) (word_arg e index) (word_arg e value) \<rparr>"

definition ext_selfdestruct :: "'h env \<Rightarrow> word256 \<Rightarrow> 'h rt_state \<Rightarrow> 'h rt_state" where
  "ext_selfdestruct e beneficiary s =
     s\<lparr> rt_host := host_selfdestruct (e_host e) (rt_host s) (myAddr e) (addr_arg e beneficiary) \<rparr>"

definition ext_balance :: "'h env \<Rightarrow> word256 \<Rightarrow> 'h rt_state \<Rightarrow> word256" where
  "ext_balance e address s = word_result e (get_balance (e_host e) (rt_host s) (addr_arg e address))"

definition ext_exists :: "'h env \<Rightarrow> word256 \<Rightarrow> 'h rt_state \<Rightarrow> bool" where
  "ext_exists e address s = bit (account_exists (e_host e) (rt_host s) (addr_arg e address)) 0"

definition ext_blockHash :: "'h env \<Rightarrow> word256 \<Rightarrow> 'h rt_state \<Rightarrow> word256" where
  "ext_blockHash e number s = word_result e (get_block_hash (e_host e) (rt_host s) (ucast number))"

definition ext_sha3 :: "'h env \<Rightarrow> word256 \<Rightarrow> word256 \<Rightarrow> 'h rt_state \<Rightarrow> word256 outcome" where
  "ext_sha3 e inOff inSize s =
     obind (mem_slice (rt_mem s) inOff inSize) (\<lambda>bs. Done (word_result e (e_sha3 e bs)))"

text \<open>\<^verbatim>\<open>extcode\<close>: the code and its size as a word.\<close>

definition ext_extcode :: "'h env \<Rightarrow> word256 \<Rightarrow> 'h rt_state \<Rightarrow> byte list \<times> word256" where
  "ext_extcode e address s =
     (let code = getCode (e_host e) (rt_host s) (addr_arg e address)
      in (code, ucast (of_nat (length code) :: i64)))"

definition ext_extcodesize :: "'h env \<Rightarrow> word256 \<Rightarrow> 'h rt_state \<Rightarrow> word256" where
  "ext_extcodesize e address s = ucast (get_code_size (e_host e) (rt_host s) (addr_arg e address))"

section \<open>calldataload\<close>

definition ext_calldataload :: "'h env \<Rightarrow> word256 \<Rightarrow> word256 outcome" where
  "ext_calldataload e idx0 =
     (let callDataSize = getCallDataSize e;
          callDataSize64 = (ucast callDataSize :: i64);
          idxValid = (idx0 < callDataSize);
          idx = (ucast (if idxValid then idx0 else callDataSize) :: i64);
          end0 = ir_nuw_add (Some idx) (Some 32);
          dataEnd = ir_select (ir_ule end0 (Some callDataSize64)) end0 (Some callDataSize64);
          copySize = ir_nuw_sub dataEnd (Some idx);
          padSize = ir_nuw_sub (Some 32) copySize
      in use copySize (\<lambda>copySize. use padSize (\<lambda>padSize.
           use (memcpy (replicate 32 0) 0 (getCallData e) (unat idx) (unat copySize)) (\<lambda>result1.
           use (memset0 result1 (unat copySize) (unat padSize)) (\<lambda>result.
             Done (word_result e result))))))"

section \<open>Logs\<close>

definition ext_log :: "'h env \<Rightarrow> word256 \<Rightarrow> word256 \<Rightarrow> word256 list \<Rightarrow> 'h rt_state \<Rightarrow> 'h rt_state outcome" where
  "ext_log e memIdx numBytes topics s =
     obind (mem_slice (rt_mem s) memIdx numBytes) (\<lambda>bs.
       Done (s\<lparr> rt_host := emit_log (e_host e) (rt_host s) (myAddr e) bs (map (word_arg e) topics) \<rparr>))"

section \<open>Calls\<close>

text \<open>
  The emitted wrapper \<^verbatim>\<open>call\<close>: checks the call depth and, where value is transferred, the balance,
  and only then calls the host.  \<open>valuePtr\<close> is the i256 stored for the host, i.e. byte-swapped.
\<close>

definition call_wrapper ::
    "'h env \<Rightarrow> 'h \<Rightarrow> call_kind \<Rightarrow> i64 \<Rightarrow> byte list option \<Rightarrow> word256 \<Rightarrow> byte list \<Rightarrow> nat \<Rightarrow>
     i64 \<times> byte list \<times> byte list \<times> 'h" where
  "call_wrapper e h callKind gas address valuePtr inData outSize =
     (let depthOk = (sint (getDepth e) < 1024);
          notDelegateCall = (callKind \<noteq> EVMC_DELEGATECALL);
          valueNonZero = (valuePtr \<noteq> 0);
          transfer = (notDelegateCall \<and> valueNonZero);
          balance = word_result e (get_balance (e_host e) h (myAddr e));
          value = toNative (e_le e) valuePtr;
          balanceOk = (balance \<ge> value);
          fail = (gas OR EVM_CALL_FAILURE, [], [], h)
      in if depthOk \<and> (transfer \<longrightarrow> balanceOk)
         then call (e_host e) (e_msg e h) h callKind gas address (host_store (e_le e) valuePtr) inData outSize
         else fail)"

definition ext_call ::
    "'h env \<Rightarrow> call_kind \<Rightarrow> i64 \<Rightarrow> word256 \<Rightarrow> word256 \<Rightarrow> word256 \<Rightarrow> word256 \<Rightarrow> word256 \<Rightarrow> word256 \<Rightarrow>
     'h rt_state \<Rightarrow> (i64 \<times> 'h rt_state) outcome" where
  "ext_call e kind gas addr0 value0 inOff inSize outOff outSize s =
     (let addr = addr_arg e addr0;
          value = toBE (e_le e) value0;
          s1 = resetReturnBuf s
      in obind (mem_slice (rt_mem s1) inOff inSize) (\<lambda>inData.
         (let (r, out, retBuf, h1) =
                call_wrapper e (rt_host s1) kind gas (Some addr) value inData (unat (ucast outSize :: i64))
          in obind (mem_put outOff out (rt_mem s1)) (\<lambda>mem1.
             Done (r, s1\<lparr> rt_mem := mem1, rt_returnBuf := retBuf, rt_host := h1 \<rparr>)))))"

text \<open>\<^verbatim>\<open>create\<close>: the address comes back in the 20 bytes of \<^verbatim>\<open>pAddr\<close>.\<close>

definition ext_create ::
    "'h env \<Rightarrow> i64 \<Rightarrow> word256 \<Rightarrow> word256 \<Rightarrow> word256 \<Rightarrow> 'h rt_state \<Rightarrow> (i64 \<times> byte list \<times> 'h rt_state) outcome" where
  "ext_create e gas endowment initOff initSize s =
     (let value = toBE (e_le e) endowment;
          s1 = resetReturnBuf s
      in obind (mem_slice (rt_mem s1) initOff initSize) (\<lambda>inData.
         (let (r, pAddr, retBuf, h1) = call_wrapper e (rt_host s1) EVMC_CREATE gas None value inData 20
          in Done (r, pAddr, s1\<lparr> rt_returnBuf := retBuf, rt_host := h1 \<rparr>))))"

end
