(* ===== verification/Opcodes.thy ===== *)
theory Opcodes
  imports Ext
begin

text \<open>
  What the code emitted for one opcode does when it runs: for each case of the switch in
  \<^verbatim>\<open>Compiler::compileBasicBlock\<close> (\<^verbatim>\<open>libevmjit/Compiler.cpp\<close>) the calls it makes of the gas meter, the
  memory, the host interface and the runtime manager, in the order of the case.  The arguments are
  the SSA values the case pops, first popped first; an argument knows whether it is a constant at
  compile time, which only \<^verbatim>\<open>Memory::require\<close> looks at.  What the cases do at compile time, i.e.
  popping, pushing and committing cost blocks, is in \<open>Compiler\<close>.
\<close>

abbreviation arg :: "word256 ssa list \<Rightarrow> nat \<Rightarrow> word256" where
  "arg args i \<equiv> ssa_value (args ! i)"

section \<open>Operations on words\<close>

definition arith_op :: "division \<Rightarrow> instruction \<Rightarrow> word256 list \<Rightarrow> word256 option" where
  "arith_op B inst a =
     (case inst of
        ADD \<Rightarrow> Some (a ! 0 + a ! 1)
      | SUB \<Rightarrow> Some (a ! 0 - a ! 1)
      | MUL \<Rightarrow> Some (a ! 0 * a ! 1)
      | DIV \<Rightarrow> code_DIV B (a ! 0) (a ! 1)
      | SDIV \<Rightarrow> code_SDIV B (a ! 0) (a ! 1)
      | MOD \<Rightarrow> code_MOD B (a ! 0) (a ! 1)
      | SMOD \<Rightarrow> code_SMOD B (a ! 0) (a ! 1)
      | ADDMOD \<Rightarrow> code_ADDMOD B (a ! 0) (a ! 1) (a ! 2)
      | MULMOD \<Rightarrow> code_MULMOD B (a ! 0) (a ! 1) (a ! 2)
      | _ \<Rightarrow> None)"

definition bit_op :: "bool \<Rightarrow> instruction \<Rightarrow> word256 list \<Rightarrow> word256 option" where
  "bit_op le inst a =
     (case inst of
        NOT_i \<Rightarrow> Some (code_NOT (a ! 0))
      | LT \<Rightarrow> Some (code_LT (a ! 0) (a ! 1))
      | GT \<Rightarrow> Some (code_GT (a ! 0) (a ! 1))
      | SLT \<Rightarrow> Some (code_SLT (a ! 0) (a ! 1))
      | SGT \<Rightarrow> Some (code_SGT (a ! 0) (a ! 1))
      | EQ \<Rightarrow> Some (code_EQ (a ! 0) (a ! 1))
      | ISZERO \<Rightarrow> Some (code_ISZERO (a ! 0))
      | AND_i \<Rightarrow> Some (a ! 0 AND a ! 1)
      | OR_i \<Rightarrow> Some (a ! 0 OR a ! 1)
      | XOR_i \<Rightarrow> Some (a ! 0 XOR a ! 1)
      | BYTE \<Rightarrow> Some (code_BYTE le (a ! 0) (a ! 1))
      | SIGNEXTEND \<Rightarrow> Some (code_SIGNEXTEND (a ! 0) (a ! 1))
      | _ \<Rightarrow> None)"

definition arith_insts :: "instruction list" where
  "arith_insts = [ADD, SUB, MUL, DIV, SDIV, MOD, SMOD, ADDMOD, MULMOD]"

definition bit_insts :: "instruction list" where
  "bit_insts = [NOT_i, LT, GT, SLT, SGT, EQ, ISZERO, AND_i, OR_i, XOR_i, BYTE, SIGNEXTEND]"

definition word_op :: "'h env \<Rightarrow> instruction \<Rightarrow> word256 list \<Rightarrow> word256 option" where
  "word_op e inst a = (if inst \<in> set arith_insts then arith_op (e_division e) inst a else bit_op (e_le e) inst a)"

section \<open>Hashing, memory and storage\<close>

definition code_SHA3 :: "'h env \<Rightarrow> word256 ssa list \<Rightarrow> 'h rt_state \<Rightarrow> (word256 \<times> 'h rt_state) outcome" where
  "code_SHA3 e args s =
     (let inOff = arg args 0; inSize = arg args 1
      in obind (on_mem (require (e_machine e) inOff (args ! 1)) s) (\<lambda>s1.
         obind (on_gas (\<lambda>g. countSha3Data g inSize) s1) (\<lambda>s2.
         obind (ext_sha3 e inOff inSize s2) (\<lambda>hash. Done (hash, s2)))))"

definition code_MLOAD :: "'h env \<Rightarrow> word256 ssa list \<Rightarrow> 'h rt_state \<Rightarrow> (word256 \<times> 'h rt_state) outcome" where
  "code_MLOAD e args s = on_mem_value (loadWord (e_machine e) (arg args 0)) s"

definition code_MSTORE :: "'h env \<Rightarrow> word256 ssa list \<Rightarrow> 'h rt_state \<Rightarrow> 'h rt_state outcome" where
  "code_MSTORE e args s = on_mem (storeWord (e_machine e) (arg args 0) (arg args 1)) s"

definition code_MSTORE8 :: "'h env \<Rightarrow> word256 ssa list \<Rightarrow> 'h rt_state \<Rightarrow> 'h rt_state outcome" where
  "code_MSTORE8 e args s = on_mem (storeByte (e_machine e) (arg args 0) (arg args 1)) s"

definition code_SSTORE :: "'h env \<Rightarrow> word256 ssa list \<Rightarrow> 'h rt_state \<Rightarrow> 'h rt_state outcome" where
  "code_SSTORE e args s =
     (let index = arg args 0; value = arg args 1;
          oldValue = ext_sload e index s
      in obind (on_gas (\<lambda>g. countSStore g oldValue value) s) (\<lambda>s1. Done (ext_sstore e index value s1)))"

section \<open>Copies\<close>

definition code_CALLDATACOPY :: "'h env \<Rightarrow> word256 ssa list \<Rightarrow> 'h rt_state \<Rightarrow> 'h rt_state outcome" where
  "code_CALLDATACOPY e args s =
     (let destMemIdx = arg args 0; srcIdx = arg args 1
      in on_mem (copyBytes (e_machine e) (getCallData e) (getCallDataSize e) srcIdx destMemIdx (args ! 2)) s)"

definition code_RETURNDATACOPY :: "'h env \<Rightarrow> word256 ssa list \<Rightarrow> 'h rt_state \<Rightarrow> 'h rt_state outcome" where
  "code_RETURNDATACOPY e args s =
     (let destMemIdx = arg args 0; srcIdx = arg args 1
      in on_mem (copyBytesNoPadding (e_machine e) (rt_returnBuf s) (of_nat (length (rt_returnBuf s))) srcIdx
                   destMemIdx (args ! 2)) s)"

definition code_CODECOPY :: "'h env \<Rightarrow> word256 ssa list \<Rightarrow> 'h rt_state \<Rightarrow> 'h rt_state outcome" where
  "code_CODECOPY e args s =
     (let destMemIdx = arg args 0; srcIdx = arg args 1
      in on_mem (copyBytes (e_machine e) (rd_code (e_data e)) (getCodeSize e) srcIdx destMemIdx (args ! 2)) s)"

definition code_EXTCODECOPY :: "'h env \<Rightarrow> word256 ssa list \<Rightarrow> 'h rt_state \<Rightarrow> 'h rt_state outcome" where
  "code_EXTCODECOPY e args s =
     (let addr = arg args 0; destMemIdx = arg args 1; srcIdx = arg args 2;
          (code, sz) = ext_extcode e addr s
      in on_mem (copyBytes (e_machine e) code sz srcIdx destMemIdx (args ! 3)) s)"

section \<open>Environment\<close>

definition code_BLOCKHASH :: "'h env \<Rightarrow> word256 ssa list \<Rightarrow> 'h rt_state \<Rightarrow> (word256 \<times> 'h rt_state) outcome" where
  "code_BLOCKHASH e args s =
     (let number = arg args 0;
          limit = (ucast gasMax :: word256);
          isBigNumber = (number > limit);
          hash = ext_blockHash e number s
      in Done (if isBigNumber then 0 else hash, s))"

text \<open>The values read from the message, the transaction context and the frame.\<close>

definition env_value :: "'h env \<Rightarrow> instruction \<Rightarrow> 'h rt_state \<Rightarrow> word256 \<times> 'h rt_state" where
  "env_value e inst s =
     (case inst of
        GAS \<Rightarrow> (ucast (getGas s), s)
      | ADDRESS \<Rightarrow> (toNative (e_le e) (getAddress e), s)
      | CALLER \<Rightarrow> (toNative (e_le e) (getSender e), s)
      | ORIGIN \<Rightarrow> getTxContextItem e 1 s
      | COINBASE \<Rightarrow> getTxContextItem e 2 s
      | GASPRICE \<Rightarrow> getTxContextItem e 0 s
      | DIFFICULTY \<Rightarrow> getTxContextItem e 6 s
      | GASLIMIT \<Rightarrow> getTxContextItem e 5 s
      | NUMBER \<Rightarrow> getTxContextItem e 3 s
      | TIMESTAMP \<Rightarrow> getTxContextItem e 4 s
      | CALLVALUE \<Rightarrow> (toNative (e_le e) (getValue e), s)
      | CALLDATASIZE \<Rightarrow> (getCallDataSize e, s)
      | MSIZE \<Rightarrow> (getSize (rt_mem s), s)
      | _ \<Rightarrow> (ucast (of_nat (length (rt_returnBuf s)) :: i64), s))"

definition env_insts :: "instruction list" where
  "env_insts = [GAS, ADDRESS, CALLER, ORIGIN, COINBASE, GASPRICE, DIFFICULTY, GASLIMIT, NUMBER, TIMESTAMP,
     CALLVALUE, CALLDATASIZE, MSIZE, RETURNDATASIZE]"

section \<open>CREATE and the calls\<close>

text \<open>The result of a call: whether it succeeded, and the gas left without the failure flag.\<close>

definition call_result :: "i64 \<Rightarrow> bool \<times> i64" where
  "call_result r =
     (let ret = (0 \<le> sint r);
          rmagic = (if ret then 0 else EVM_CALL_FAILURE)
      in (ret, r - rmagic))"

text \<open>\<^verbatim>\<open>CREATE\<close>, after the memory is required and the cost block committed.\<close>

definition code_CREATE :: "'h env \<Rightarrow> word256 ssa list \<Rightarrow> 'h rt_state \<Rightarrow> (word256 \<times> 'h rt_state) outcome" where
  "code_CREATE e args s =
     (let endowment = arg args 0; initOff = arg args 1; initSize = arg args 2;
          gas = getGas s;
          gasKept = (if e_rev e \<ge> EVMC_TANGERINE_WHISTLE then drop_bit 6 gas else 0);
          gasPassed = ir_nuw_nsw_sub (Some gas) (Some gasKept)
      in use gasPassed (\<lambda>gasPassed.
         obind (ext_create e gasPassed endowment initOff initSize s) (\<lambda>(r, pAddr, s1).
           (let (ret, gasLeft) = call_result r;
                gas1 = gasLeft + gasKept;
                addr0 = ucast (toNative (e_le e) (host_load (e_le e) pAddr :: 160 word));
                addr = (if ret then addr0 else 0)
            in Done (addr, setGas gas1 s1)))))"

definition call_kind_of :: "instruction \<Rightarrow> call_kind" where
  "call_kind_of inst =
     (case inst of CALL \<Rightarrow> EVMC_CALL | CALLCODE \<Rightarrow> EVMC_CALLCODE | DELEGATECALL \<Rightarrow> EVMC_DELEGATECALL
      | _ \<Rightarrow> EVM_STATICCALL)"

text \<open>The costs of a call before its gas is passed: the transfer, and for \<^verbatim>\<open>CALL\<close> the new account.\<close>

definition call_transfer_cost :: "'h env \<Rightarrow> instruction \<Rightarrow> word256 \<Rightarrow> i64" where
  "call_transfer_cost e inst value =
     (let noTransfer = (value = 0);
          transferGas = (if inst = CALL \<and> e_static e then gasMax else of_int valueTransferGas)
      in if noTransfer then 0 else transferGas)"

definition call_account_cost :: "'h env \<Rightarrow> instruction \<Rightarrow> word256 \<Rightarrow> word256 \<Rightarrow> 'h rt_state \<Rightarrow> i64" where
  "call_account_cost e inst address value s =
     (if inst = CALL then
        (let noTransfer = (value = 0);
             accountExists = ext_exists e address s;
             noPenaltyCond = (if e_rev e \<ge> EVMC_SPURIOUS_DRAGON then accountExists \<or> noTransfer else accountExists)
         in if noPenaltyCond then 0 else of_int callNewAccount)
      else 0)"

text \<open>The gas passed: capped to all but a 64th since Tangerine Whistle.\<close>

definition call_gas :: "'h env \<Rightarrow> word256 \<Rightarrow> i64 \<Rightarrow> word256 pv" where
  "call_gas e gasArg gas =
     (if e_rev e \<ge> EVMC_TANGERINE_WHISTLE then
        (let gas64th = drop_bit 6 gas;
             gasMaxAllowed = ir_zext (ir_nuw_nsw_sub (Some gas) (Some gas64th));
             cmp = ir_ugt (Some gasArg) gasMaxAllowed
         in ir_select cmp gasMaxAllowed (Some gasArg))
      else Some gasArg)"

definition code_CALL :: "'h env \<Rightarrow> instruction \<Rightarrow> word256 ssa list \<Rightarrow> 'h rt_state \<Rightarrow> (word256 \<times> 'h rt_state) outcome" where
  "code_CALL e inst args s =
     (let gasArg0 = arg args 0; address = arg args 1;
          hasValue = (inst = CALL \<or> inst = CALLCODE);
          value = (if hasValue then arg args 2 else 0);
          k = (if hasValue then 3 else 2);
          inOff = arg args k; inSize = arg args (k + 1); outOff = arg args (k + 2); outSize = arg args (k + 3);
          noTransfer = (value = 0)
      in obind (on_mem (require (e_machine e) outOff (args ! (k + 3))) s) (\<lambda>s.
         obind (on_mem (require (e_machine e) inOff (args ! (k + 1))) s) (\<lambda>s.
         obind (on_gas (\<lambda>g. count64 g (Some (call_transfer_cost e inst value))) s) (\<lambda>s.
         obind (if inst = CALL then on_gas (\<lambda>g. count64 g (Some (call_account_cost e inst address value s))) s
                else Done s) (\<lambda>s.
         use (call_gas e gasArg0 (getGas s)) (\<lambda>gasArg.
         obind (on_gas (\<lambda>g. count256 g (Some gasArg)) s) (\<lambda>s.
           (let stipend = (if noTransfer then 0 else of_int callStipend);
                gas = ir_nuw_nsw_add (Some (ucast gasArg)) (Some stipend)
            in use gas (\<lambda>gas.
               obind (ext_call e (call_kind_of inst) gas address value inOff inSize outOff outSize s) (\<lambda>(r, s).
                 (let (ret, finalGas) = call_result r;
                      s = s\<lparr> rt_gas := giveBack (rt_gas s) finalGas \<rparr>
                  in Done (code_bool ret, s))))))))))))"

section \<open>Ends of the frame and logs\<close>

definition code_RETURN :: "'h env \<Rightarrow> word256 ssa list \<Rightarrow> 'h rt_state \<Rightarrow> 'h rt_state outcome" where
  "code_RETURN e args s =
     (let index = arg args 0; sz = arg args 1
      in obind (on_mem (require (e_machine e) index (args ! 1)) s) (\<lambda>s1. Done (registerReturnData index sz s1)))"

definition suicide_penalty :: "'h env \<Rightarrow> word256 \<Rightarrow> 'h rt_state \<Rightarrow> i64" where
  "suicide_penalty e dest s =
     (let destExists = ext_exists e dest s;
          addr = toNative (e_le e) (getAddress e);
          noTransfer = (ext_balance e addr s = 0);
          noPenaltyCond = (if e_rev e \<ge> EVMC_SPURIOUS_DRAGON then destExists \<or> noTransfer else destExists)
      in if noPenaltyCond then 0 else of_int callNewAccount)"

definition code_SUICIDE :: "'h env \<Rightarrow> word256 ssa list \<Rightarrow> 'h rt_state \<Rightarrow> 'h rt_state outcome" where
  "code_SUICIDE e args s =
     (let dest = arg args 0
      in obind (if e_rev e \<ge> EVMC_TANGERINE_WHISTLE
                then on_gas (\<lambda>g. count64 g (Some (suicide_penalty e dest s))) s else Done s) (\<lambda>s1.
         Done (ext_selfdestruct e dest s1)))"

definition code_LOG :: "'h env \<Rightarrow> nat \<Rightarrow> word256 ssa list \<Rightarrow> 'h rt_state \<Rightarrow> 'h rt_state outcome" where
  "code_LOG e numTopics args s =
     (let beginIdx = arg args 0; numBytes = arg args 1;
          topics = map (\<lambda>i. arg args (2 + i)) [0..<numTopics]
      in obind (on_mem (require (e_machine e) beginIdx (args ! 1)) s) (\<lambda>s1.
         obind (on_gas (\<lambda>g. countLogData g numBytes) s1) (\<lambda>s2.
         ext_log e beginIdx numBytes topics s2)))"

section \<open>Dispatch\<close>

text \<open>The code of the cases that push a value, and of those that do not.\<close>

definition exec_value :: "'h env \<Rightarrow> instruction \<Rightarrow> word256 ssa list \<Rightarrow> 'h rt_state \<Rightarrow> (word256 \<times> 'h rt_state) outcome" where
  "exec_value e inst args s =
     (case inst of
        EXP \<Rightarrow> Done (getExpFunc (arg args 0) (arg args 1), s)
      | SHA3 \<Rightarrow> code_SHA3 e args s
      | MLOAD \<Rightarrow> code_MLOAD e args s
      | SLOAD \<Rightarrow> Done (ext_sload e (arg args 0) s, s)
      | BLOCKHASH \<Rightarrow> code_BLOCKHASH e args s
      | BALANCE \<Rightarrow> Done (ext_balance e (arg args 0) s, s)
      | EXTCODESIZE \<Rightarrow> Done (ext_extcodesize e (arg args 0) s, s)
      | CALLDATALOAD \<Rightarrow> obind (ext_calldataload e (arg args 0)) (\<lambda>v. Done (v, s))
      | CREATE \<Rightarrow> code_CREATE e args s
      | CALL \<Rightarrow> code_CALL e CALL args s
      | CALLCODE \<Rightarrow> code_CALL e CALLCODE args s
      | DELEGATECALL \<Rightarrow> code_CALL e DELEGATECALL args s
      | STATICCALL \<Rightarrow> code_CALL e STATICCALL args s
      | _ \<Rightarrow> if inst \<in> set env_insts then Done (env_value e inst s)
             else use (word_op e inst (map ssa_value args)) (\<lambda>v. Done (v, s)))"

definition exec_effect :: "'h env \<Rightarrow> instruction \<Rightarrow> word256 ssa list \<Rightarrow> 'h rt_state \<Rightarrow> 'h rt_state outcome" where
  "exec_effect e inst args s =
     (case inst of
        MSTORE \<Rightarrow> code_MSTORE e args s
      | MSTORE8 \<Rightarrow> code_MSTORE8 e args s
      | SSTORE \<Rightarrow> code_SSTORE e args s
      | CALLDATACOPY \<Rightarrow> code_CALLDATACOPY e args s
      | RETURNDATACOPY \<Rightarrow> code_RETURNDATACOPY e args s
      | CODECOPY \<Rightarrow> code_CODECOPY e args s
      | EXTCODECOPY \<Rightarrow> code_EXTCODECOPY e args s
      | RETURN \<Rightarrow> code_RETURN e args s
      | REVERT \<Rightarrow> code_RETURN e args s
      | SUICIDE \<Rightarrow> code_SUICIDE e args s
      | LOG n \<Rightarrow> code_LOG e n args s
      | _ \<Rightarrow> Undefined)"

end
