(* ===== verification/LocalStack.thy ===== *)
theory LocalStack
  imports Prelude
begin

text \<open>
  \<^verbatim>\<open>class LocalStack\<close> of \<^verbatim>\<open>libevmjit/BasicBlock.cpp\<close>: while it compiles a basic block the compiler
  keeps the EVM stack in a virtual stack of SSA values, loads the items of the run-time stack it needs
  and, at the end of the block, fills in the bounds that the call of \<^verbatim>\<open>stack.prepare\<close> at its front is
  to check and stores what has changed.

  The operations do not look at the SSA values, so they are polymorphic in the type \<open>'v\<close> of values;
  \<open>load k\<close> is the value that loading the \<open>k\<close>-th item of the run-time stack, counted from its top
  at the block's entry, gives.  \<open>m_local\<close> is in the order of the vector: the top is its last item.
\<close>

section \<open>The virtual stack\<close>

record 'v local_stack =
  m_input :: "'v option list"
  m_local :: "'v list"
  m_globalPops :: nat
  m_minSize :: int
  m_maxSize :: int

definition new_local_stack :: "'v local_stack" where
  "new_local_stack = \<lparr> m_input = [], m_local = [], m_globalPops = 0, m_minSize = 0, m_maxSize = 0 \<rparr>"

definition stack_size :: "'v local_stack \<Rightarrow> int" where
  "stack_size ls = int (length (m_local ls)) - int (m_globalPops ls)"

definition stack_push :: "'v \<Rightarrow> 'v local_stack \<Rightarrow> 'v local_stack" where
  "stack_push v ls =
     (let ls1 = ls\<lparr> m_local := m_local ls @ [v] \<rparr>
      in ls1\<lparr> m_maxSize := max (m_maxSize ls1) (stack_size ls1) \<rparr>)"

definition resize :: "nat \<Rightarrow> 'v option list \<Rightarrow> 'v option list" where
  "resize n xs = xs @ replicate (n - length xs) None"

definition stack_get :: "(nat \<Rightarrow> 'v) \<Rightarrow> nat \<Rightarrow> 'v local_stack \<Rightarrow> 'v \<times> 'v local_stack" where
  "stack_get load index ls =
     (if index < length (m_local ls) then (m_local ls ! (length (m_local ls) - 1 - index), ls)
      else
        (let idx = index - length (m_local ls) + m_globalPops ls;
             inp = (if length (m_input ls) \<le> idx then resize (idx + 1) (m_input ls) else m_input ls)
         in case inp ! idx of
              Some item \<Rightarrow> (item, ls\<lparr> m_input := inp \<rparr>)
            | None \<Rightarrow>
                (let globalIdx = - int idx - 1;
                     item = load idx
                 in (item, ls\<lparr> m_input := inp[idx := Some item], m_minSize := min (m_minSize ls) globalIdx \<rparr>))))"

definition stack_set :: "nat \<Rightarrow> 'v \<Rightarrow> 'v local_stack \<Rightarrow> 'v local_stack" where
  "stack_set index w ls =
     (if index < length (m_local ls)
      then ls\<lparr> m_local := (m_local ls)[length (m_local ls) - 1 - index := w] \<rparr>
      else ls\<lparr> m_input := (m_input ls)[index - length (m_local ls) + m_globalPops ls := Some w] \<rparr>)"

definition stack_pop :: "(nat \<Rightarrow> 'v) \<Rightarrow> 'v local_stack \<Rightarrow> 'v \<times> 'v local_stack" where
  "stack_pop load ls =
     (let (item, ls1) = stack_get load 0 ls;
          ls2 = (if 0 < length (m_local ls1) then ls1\<lparr> m_local := butlast (m_local ls1) \<rparr>
                 else ls1\<lparr> m_globalPops := m_globalPops ls1 + 1 \<rparr>)
      in (item, ls2\<lparr> m_minSize := min (m_minSize ls2) (stack_size ls2) \<rparr>))"

definition stack_dup :: "(nat \<Rightarrow> 'v) \<Rightarrow> nat \<Rightarrow> 'v local_stack \<Rightarrow> 'v local_stack" where
  "stack_dup load index ls = (let (val, ls1) = stack_get load index ls in stack_push val ls1)"

definition stack_swap :: "(nat \<Rightarrow> 'v) \<Rightarrow> nat \<Rightarrow> 'v local_stack \<Rightarrow> 'v local_stack" where
  "stack_swap load index ls =
     (let (val, ls1) = stack_get load index ls;
          (tos, ls2) = stack_get load 0 ls1
      in stack_set 0 val (stack_set index tos ls2))"

text \<open>The loop of \<^verbatim>\<open>finalize\<close>: the stores to the slots \<open>globalIdx\<close> relative to the entry's stack
  pointer; \<open>inputIt\<close> runs over \<^verbatim>\<open>m_input\<close> backwards, \<open>localIt\<close> over \<^verbatim>\<open>m_local\<close> forwards.\<close>

function finalize_loop :: "int \<Rightarrow> int \<Rightarrow> int \<Rightarrow> 'v option list \<Rightarrow> 'v list \<Rightarrow> (int \<times> 'v) list" where
  "finalize_loop globalIdx size' globalPops inputIt localIt =
     (if globalIdx < size' then
        (if globalIdx < - globalPops then
           (case inputIt of
              [] \<Rightarrow> []
            | None # its \<Rightarrow> finalize_loop (globalIdx + 1) size' globalPops its localIt
            | Some item # its \<Rightarrow> (globalIdx, item) # finalize_loop (globalIdx + 1) size' globalPops its localIt)
         else
           (case localIt of
              [] \<Rightarrow> []
            | item # its \<Rightarrow> (globalIdx, item) # finalize_loop (globalIdx + 1) size' globalPops inputIt its))
      else [])"
  by pat_completeness auto
termination
  by (relation "measure (\<lambda>(g, s, _). nat (s - g))") auto

declare finalize_loop.simps [simp del]

definition finalize :: "'v local_stack \<Rightarrow> (int \<times> 'v) list" where
  "finalize ls =
     finalize_loop (- int (length (m_input ls))) (stack_size ls) (int (m_globalPops ls))
       (rev (m_input ls)) (m_local ls)"

section \<open>stack.prepare and the run-time stack\<close>

definition stackSizeLimit :: nat where
  "stackSizeLimit = 1024"

text \<open>The function \<^verbatim>\<open>stack.prepare\<close>: the next stack size, and the current one, which is the stack pointer's
  distance from the base.\<close>

definition stack_prepare :: "i64 \<Rightarrow> i64 \<Rightarrow> i64 \<Rightarrow> i64 \<Rightarrow> (i64 \<times> i64) outcome" where
  "stack_prepare sz mn mx diff =
     (let minSize = ir_nsw_add (Some sz) (Some mn);
          maxSize = ir_nuw_nsw_add (Some sz) (Some mx);
          minOk = ir_sge minSize (Some 0);
          maxOk = ir_ule maxSize (Some (of_nat stackSizeLimit));
          ok = ir_band minOk maxOk
      in use ok (\<lambda>ok. if ok then use (ir_nsw_add (Some sz) (Some diff)) (\<lambda>newSize. Done (newSize, sz))
                      else LongJmp))"

text \<open>The stores of \<^verbatim>\<open>finalize\<close> into the words of the run-time stack, from its base upwards.\<close>

definition stack_store :: "nat \<Rightarrow> word256 list \<Rightarrow> int \<times> word256 \<Rightarrow> word256 list" where
  "stack_store sp base = (\<lambda>(globalIdx, w). base[nat (int sp + globalIdx) := w])"

definition stack_stores :: "nat \<Rightarrow> (int \<times> word256) list \<Rightarrow> word256 list \<Rightarrow> word256 list" where
  "stack_stores sp stores base = foldl (stack_store sp) base stores"

section \<open>The reference: a stack of at most 1024 words\<close>

text \<open>Stacks as lists, top first; \<open>None\<close> is an underflow or overflow.\<close>

definition evm_push :: "word256 \<Rightarrow> word256 list \<Rightarrow> word256 list option" where
  "evm_push w S = (if length S < stackSizeLimit then Some (w # S) else None)"

definition evm_pop :: "word256 list \<Rightarrow> (word256 \<times> word256 list) option" where
  "evm_pop S = (case S of [] \<Rightarrow> None | w # S' \<Rightarrow> Some (w, S'))"

definition evm_dup :: "nat \<Rightarrow> word256 list \<Rightarrow> word256 list option" where
  "evm_dup k S = (if k < length S then evm_push (S ! k) S else None)"

definition evm_swap :: "nat \<Rightarrow> word256 list \<Rightarrow> word256 list option" where
  "evm_swap k S = (if k < length S then Some (S[0 := S ! k, k := S ! 0]) else None)"

text \<open>
  The items of the stack that a virtual stack stands for: \<open>ev\<close> gives the run-time value of an SSA
  value, \<open>G\<close> is the run-time stack at the block's entry.
\<close>

definition input_item :: "'v local_stack \<Rightarrow> nat \<Rightarrow> 'v option" where
  "input_item ls k = (if k < length (m_input ls) then m_input ls ! k else None)"

definition slot_value :: "('v \<Rightarrow> word256) \<Rightarrow> word256 list \<Rightarrow> 'v local_stack \<Rightarrow> nat \<Rightarrow> word256" where
  "slot_value ev G ls k = (case input_item ls k of Some v \<Rightarrow> ev v | None \<Rightarrow> G ! k)"

definition stack_of :: "('v \<Rightarrow> word256) \<Rightarrow> word256 list \<Rightarrow> 'v local_stack \<Rightarrow> word256 list" where
  "stack_of ev G ls =
     map ev (rev (m_local ls)) @ map (slot_value ev G ls) [m_globalPops ls..<length G]"

text \<open>The bounds recorded so far hold for a stack of \<open>n\<close> items, as \<open>stack.prepare\<close> checks them.\<close>

definition fits :: "nat \<Rightarrow> 'v local_stack \<Rightarrow> bool" where
  "fits n ls \<longleftrightarrow> 0 \<le> int n + m_minSize ls \<and> int n + m_maxSize ls \<le> int stackSizeLimit"

text \<open>What the operations keep of the bookkeeping.\<close>

definition local_stack_ok :: "'v local_stack \<Rightarrow> bool" where
  "local_stack_ok ls \<longleftrightarrow>
     m_minSize ls \<le> stack_size ls \<and> stack_size ls \<le> m_maxSize ls \<and>
     m_minSize ls \<le> - int (m_globalPops ls) \<and> m_minSize ls \<le> 0 \<and> 0 \<le> m_maxSize ls \<and>
     m_globalPops ls \<le> length (m_input ls) \<and>
     (\<forall>k. input_item ls k \<noteq> None \<longrightarrow> m_minSize ls \<le> - int k - 1)"

section \<open>The operations keep the bookkeeping\<close>

lemma stack_size_int: "stack_size ls = int (length (m_local ls)) - int (m_globalPops ls)"
  by (simp add: stack_size_def)

lemma resize_nth: "k < n \<Longrightarrow> length xs \<le> n \<Longrightarrow> resize n xs ! k = (if k < length xs then xs ! k else None)"
  by (simp add: resize_def nth_append)

lemma length_resize: "length (resize n xs) = max n (length xs)"
  by (simp add: resize_def)

abbreviation get_idx :: "'v local_stack \<Rightarrow> nat \<Rightarrow> nat" where
  "get_idx ls index \<equiv> index - length (m_local ls) + m_globalPops ls"

lemma stack_get_local:
  "index < length (m_local ls) \<Longrightarrow> stack_get load index ls = (m_local ls ! (length (m_local ls) - 1 - index), ls)"
  by (simp add: stack_get_def)

text \<open>Getting an item below the local ones: it is read from \<open>m_input\<close>, where it stays.\<close>

lemma stack_get_input:
  assumes "length (m_local ls) \<le> index" "local_stack_ok ls"
    and get: "stack_get load index ls = (v, ls')"
  shows "v = (case input_item ls (get_idx ls index) of Some item \<Rightarrow> item | None \<Rightarrow> load (get_idx ls index))"
    and "input_item ls' = (input_item ls)(get_idx ls index := Some v)"
    and "m_local ls' = m_local ls" "m_globalPops ls' = m_globalPops ls" "m_maxSize ls' = m_maxSize ls"
    and "m_minSize ls' = min (m_minSize ls) (- int (get_idx ls index) - 1)"
    and "get_idx ls index < length (m_input ls')"
proof -
  define idx where "idx = get_idx ls index"
  define inp where "inp = (if length (m_input ls) \<le> idx then resize (idx + 1) (m_input ls) else m_input ls)"
  have len: "idx < length inp" by (simp add: inp_def length_resize)
  have item: "(if k < length inp then inp ! k else None) = input_item ls k" for k
    by (auto simp: inp_def input_item_def resize_nth length_resize)
  then have it: "inp ! idx = input_item ls idx" using len by metis
  have min: "m_minSize ls \<le> - int idx - 1" if "input_item ls idx \<noteq> None"
    using assms(2) that by (simp add: local_stack_ok_def)
  have get': "stack_get load index ls =
      (case inp ! idx of
              Some item \<Rightarrow> (item, ls\<lparr> m_input := inp \<rparr>)
            | None \<Rightarrow> (load idx, ls\<lparr> m_input := inp[idx := Some (load idx)], m_minSize := min (m_minSize ls) (- int idx - 1) \<rparr>))"
    using assms(1) unfolding stack_get_def Let_def idx_def [symmetric] inp_def [symmetric] by simp
  show "v = (case input_item ls (get_idx ls index) of Some item \<Rightarrow> item | None \<Rightarrow> load (get_idx ls index))"
    "m_local ls' = m_local ls" "m_globalPops ls' = m_globalPops ls" "m_maxSize ls' = m_maxSize ls"
    "m_minSize ls' = min (m_minSize ls) (- int (get_idx ls index) - 1)"
    "get_idx ls index < length (m_input ls')"
    unfolding idx_def [symmetric]
    using get get' len it min by (auto split: option.splits)
  have "input_item ls' k = ((input_item ls)(idx := Some v)) k" for k
    using get get' len it item [of k] by (auto simp: input_item_def [of ls'] nth_list_update split: option.splits)
  then show "input_item ls' = (input_item ls)(get_idx ls index := Some v)" unfolding idx_def by blast
qed

lemma get_idx_size: "length (m_local ls) \<le> index \<Longrightarrow> int (get_idx ls index) = int index - stack_size ls"
  by (simp add: stack_size_def)

lemma stack_get_ok:
  assumes "local_stack_ok ls" "stack_get load index ls = (v, ls')"
  shows "local_stack_ok ls'" "stack_size ls' = stack_size ls" "m_maxSize ls' = m_maxSize ls"
    "m_local ls' = m_local ls" "m_globalPops ls' = m_globalPops ls" "m_minSize ls' \<le> m_minSize ls"
    "fits n ls \<Longrightarrow> fits n ls' \<longleftrightarrow> int index < int n + stack_size ls"
proof -
  consider "index < length (m_local ls)" | "length (m_local ls) \<le> index" by linarith
  then have "local_stack_ok ls' \<and> stack_size ls' = stack_size ls \<and> m_maxSize ls' = m_maxSize ls \<and>
    m_local ls' = m_local ls \<and> m_globalPops ls' = m_globalPops ls \<and> m_minSize ls' \<le> m_minSize ls \<and>
    (fits n ls \<longrightarrow> (fits n ls' \<longleftrightarrow> int index < int n + stack_size ls))"
  proof cases
    case 1
    then show ?thesis
      using assms by (auto simp: stack_get_local local_stack_ok_def fits_def stack_size_def)
  next
    case 2
    note g = stack_get_input [OF 2 assms] and size = get_idx_size [OF 2]
    have s: "stack_size ls' = stack_size ls" using g by (simp add: stack_size_def)
    have "\<forall>k. input_item ls' k \<noteq> None \<longrightarrow> m_minSize ls' \<le> - int k - 1"
      using assms(1) g(2,6) by (auto simp: local_stack_ok_def)
    moreover have "m_globalPops ls' \<le> length (m_input ls')" using g(4,7) by simp
    ultimately have "local_stack_ok ls'" using assms(1) s g(3-6) by (auto simp: local_stack_ok_def)
    then show ?thesis using g(3-6) s size by (auto simp: fits_def)
  qed
  then show "local_stack_ok ls'" "stack_size ls' = stack_size ls" "m_maxSize ls' = m_maxSize ls"
    "m_local ls' = m_local ls" "m_globalPops ls' = m_globalPops ls" "m_minSize ls' \<le> m_minSize ls"
    "fits n ls \<Longrightarrow> fits n ls' \<longleftrightarrow> int index < int n + stack_size ls" by blast+
qed

lemma fits_mono: "fits n ls' \<Longrightarrow> m_minSize ls' \<le> m_minSize ls \<Longrightarrow> m_maxSize ls \<le> m_maxSize ls' \<Longrightarrow> fits n ls"
  by (simp add: fits_def)

lemma new_local_stack_ok [simp]: "local_stack_ok new_local_stack"
  by (simp add: local_stack_ok_def new_local_stack_def stack_size_def input_item_def)

lemma fits_new [simp]: "fits n new_local_stack \<longleftrightarrow> n \<le> stackSizeLimit"
  by (auto simp: fits_def new_local_stack_def)

lemma stack_push_ok:
  assumes "local_stack_ok ls"
  shows "local_stack_ok (stack_push v ls)" "stack_size (stack_push v ls) = stack_size ls + 1"
    "m_minSize (stack_push v ls) = m_minSize ls" "m_maxSize ls \<le> m_maxSize (stack_push v ls)"
    "fits n ls \<Longrightarrow> fits n (stack_push v ls) \<longleftrightarrow> int n + stack_size ls < int stackSizeLimit"
  using assms
  by (auto simp: stack_push_def Let_def local_stack_ok_def stack_size_def fits_def input_item_def)

section \<open>The operations implement the stack\<close>

definition loads :: "('v \<Rightarrow> word256) \<Rightarrow> (nat \<Rightarrow> 'v) \<Rightarrow> word256 list \<Rightarrow> bool" where
  "loads ev load G \<longleftrightarrow> (\<forall>k < length G. ev (load k) = G ! k)"

lemma pops_le:
  assumes "local_stack_ok ls" "fits n ls"
  shows "m_globalPops ls \<le> n"
  using assms by (auto simp: local_stack_ok_def fits_def)

lemma length_stack_of:
  assumes "local_stack_ok ls" "fits (length G) ls"
  shows "int (length (stack_of ev G ls)) = int (length G) + stack_size ls"
  using pops_le [OF assms] by (simp add: stack_of_def stack_size_def)

lemma stack_of_nth:
  assumes "local_stack_ok ls" "fits (length G) ls" "int index < int (length G) + stack_size ls"
  shows "stack_of ev G ls ! index =
    (if index < length (m_local ls) then ev (m_local ls ! (length (m_local ls) - 1 - index))
     else slot_value ev G ls (get_idx ls index))"
proof -
  have "index - length (m_local ls) < length G - m_globalPops ls" if "\<not> index < length (m_local ls)"
    using assms(3) that by (simp add: stack_size_def)
  then show ?thesis by (auto simp: stack_of_def nth_append rev_nth add.commute)
qed

lemma stack_get_refines:
  assumes ok: "local_stack_ok ls" and get: "stack_get load index ls = (v, ls')"
    and G: "loads ev load G" and fit: "fits (length G) ls" and idx: "int index < int (length G) + stack_size ls"
  shows "ev v = stack_of ev G ls ! index" "stack_of ev G ls' = stack_of ev G ls"
proof -
  have "ev v = stack_of ev G ls ! index \<and> stack_of ev G ls' = stack_of ev G ls"
  proof (cases "index < length (m_local ls)")
    case True
    then show ?thesis using get stack_of_nth [OF ok fit idx, of ev] by (auto simp: stack_get_local)
  next
    case False
    then have le: "length (m_local ls) \<le> index" by simp
    note g = stack_get_input [OF le ok get]
    have lt: "get_idx ls index < length G" using idx get_idx_size [OF le] by linarith
    have ev: "ev v = slot_value ev G ls (get_idx ls index)"
      using g(1) G lt by (auto simp: slot_value_def loads_def split: option.splits)
    moreover have "slot_value ev G ls' k = slot_value ev G ls k" for k
      using ev by (cases "k = get_idx ls index") (simp_all add: slot_value_def [of _ _ ls'] slot_value_def [of _ _ _ k] g(2))
    ultimately show ?thesis
      using False stack_of_nth [OF ok fit idx, of ev] g(3,4) by (simp add: stack_of_def)
  qed
  then show "ev v = stack_of ev G ls ! index" "stack_of ev G ls' = stack_of ev G ls" by blast+
qed

lemma stack_push_refines:
  assumes ok: "local_stack_ok ls" and fit: "fits (length G) ls"
  shows "evm_push (ev v) (stack_of ev G ls) =
    (if fits (length G) (stack_push v ls) then Some (stack_of ev G (stack_push v ls)) else None)"
proof -
  have "stack_of ev G (stack_push v ls) = ev v # stack_of ev G ls"
    by (simp add: stack_of_def stack_push_def Let_def slot_value_def input_item_def)
  then show ?thesis
    using stack_push_ok(5) [OF ok fit] length_stack_of [OF ok fit, of ev] by (auto simp: evm_push_def)
qed

lemma stack_dup_ok: "local_stack_ok ls \<Longrightarrow> local_stack_ok (stack_dup load k ls)"
  by (auto simp: stack_dup_def split: prod.split intro!: stack_push_ok(1) dest: stack_get_ok(1))

lemma stack_dup_refines:
  assumes ok: "local_stack_ok ls" and G: "loads ev load G" and fit: "fits (length G) ls"
  shows "evm_dup k (stack_of ev G ls) =
    (if fits (length G) (stack_dup load k ls) then Some (stack_of ev G (stack_dup load k ls)) else None)"
proof -
  obtain v ls1 where get: "stack_get load k ls = (v, ls1)" by (cases "stack_get load k ls")
  note g = stack_get_ok [OF ok get]
  have dup: "stack_dup load k ls = stack_push v ls1" by (simp add: stack_dup_def get)
  show "evm_dup k (stack_of ev G ls) =
    (if fits (length G) (stack_dup load k ls) then Some (stack_of ev G (stack_dup load k ls)) else None)"
  proof (cases "fits (length G) ls1")
    case True
    then have idx: "int k < int (length G) + stack_size ls" using g(7) [OF fit] by blast
    note r = stack_get_refines [OF ok get G fit idx]
    have "k < length (stack_of ev G ls)" using idx length_stack_of [OF ok fit, of ev] by linarith
    then show ?thesis
      using stack_push_refines [OF g(1) True, of ev v] r by (simp add: evm_dup_def dup)
  next
    case False
    then have "\<not> k < length (stack_of ev G ls)" using g(7) [OF fit] length_stack_of [OF ok fit, of ev] by linarith
    moreover have "\<not> fits (length G) (stack_push v ls1)"
      using False fits_mono stack_push_ok(3,4) [OF g(1)] by (metis order_refl)
    ultimately show ?thesis by (simp add: evm_dup_def dup)
  qed
qed

lemma stack_pop_unfold:
  assumes ok: "local_stack_ok ls" and get: "stack_get load 0 ls = (w, ls1)"
  shows "stack_pop load ls =
    (w, if m_local ls = []
        then ls1\<lparr> m_globalPops := m_globalPops ls + 1, m_minSize := min (m_minSize ls1) (stack_size ls - 1) \<rparr>
        else ls1\<lparr> m_local := butlast (m_local ls), m_minSize := min (m_minSize ls1) (stack_size ls - 1) \<rparr>)"
proof -
  note g = stack_get_ok [OF ok get]
  have "int (length (m_local ls) - Suc 0) = int (length (m_local ls)) - 1" if "m_local ls \<noteq> []"
    using that by (cases "m_local ls") simp_all
  then show ?thesis by (simp add: stack_pop_def get g(4,5) Let_def stack_size_def)
qed

lemma stack_pop_ok:
  assumes ok: "local_stack_ok ls" and p: "stack_pop load ls = (v, ls')"
  shows "local_stack_ok ls'" "stack_size ls' = stack_size ls - 1" "m_maxSize ls' = m_maxSize ls"
    "m_minSize ls' \<le> m_minSize ls"
    "fits n ls \<Longrightarrow> fits n ls' \<longleftrightarrow> 0 < int n + stack_size ls"
proof -
  obtain w ls1 where get: "stack_get load 0 ls = (w, ls1)" by (cases "stack_get load 0 ls")
  note g = stack_get_ok [OF ok get]
  have "local_stack_ok ls' \<and> stack_size ls' = stack_size ls - 1 \<and> m_maxSize ls' = m_maxSize ls \<and>
    m_minSize ls' = min (m_minSize ls1) (stack_size ls - 1)"
  proof (cases "m_local ls = []")
    case False
    then have "ls' = ls1\<lparr> m_local := butlast (m_local ls1), m_minSize := min (m_minSize ls1) (stack_size ls - 1) \<rparr>"
      using p g(4,5) by (auto simp: stack_pop_unfold [OF ok get])
    then show ?thesis
      using g(1-5) False
      by (cases "m_local ls" rule: rev_cases) (auto simp: local_stack_ok_def stack_size_def input_item_def)
  next
    case True
    then have ls': "ls' = ls1\<lparr> m_globalPops := m_globalPops ls1 + 1, m_minSize := min (m_minSize ls1) (stack_size ls - 1) \<rparr>"
      using p g(4,5) True by (auto simp: stack_pop_unfold [OF ok get])
    have "m_globalPops ls < length (m_input ls1)" "m_minSize ls1 \<le> - int (m_globalPops ls) - 1"
      using stack_get_input(6,7) [OF _ ok get] True by simp_all
    then show ?thesis
      using g(1-5) True unfolding ls' by (auto simp: local_stack_ok_def stack_size_def input_item_def)
  qed
  then show "local_stack_ok ls'" "stack_size ls' = stack_size ls - 1" "m_maxSize ls' = m_maxSize ls"
    "m_minSize ls' \<le> m_minSize ls" "fits n ls \<Longrightarrow> fits n ls' \<longleftrightarrow> 0 < int n + stack_size ls"
    using g(3,6) g(7) [of n] by (auto simp: fits_def)
qed

lemma stack_pop_refines:
  assumes ok: "local_stack_ok ls" and p: "stack_pop load ls = (v, ls')"
    and G: "loads ev load G" and fit: "fits (length G) ls"
  shows "evm_pop (stack_of ev G ls) =
    (if fits (length G) ls' then Some (ev v, stack_of ev G ls') else None)"
proof (cases "fits (length G) ls'")
  case True
  then have pos: "0 < int (length G) + stack_size ls" using stack_pop_ok(5) [OF ok p fit] by simp
  obtain w ls1 where get: "stack_get load 0 ls = (w, ls1)" by (cases "stack_get load 0 ls")
  have idx: "int 0 < int (length G) + stack_size ls" using pos by simp
  note g = stack_get_ok [OF ok get] and r = stack_get_refines [OF ok get G fit idx]
  have v: "v = w" using p by (simp add: stack_pop_unfold [OF ok get])
  have "stack_of ev G ls1 = stack_of ev G ls ! 0 # stack_of ev G ls'"
  proof (cases "m_local ls1 = []")
    case False
    then have "ls' = ls1\<lparr> m_local := butlast (m_local ls1), m_minSize := min (m_minSize ls1) (stack_size ls - 1) \<rparr>"
      using p g(4,5) by (auto simp: stack_pop_unfold [OF ok get])
    moreover obtain xs x where "m_local ls1 = xs @ [x]" using False by (metis rev_exhaust)
    ultimately have "stack_of ev G ls1 = ev x # stack_of ev G ls'"
      by (simp add: stack_of_def slot_value_def input_item_def)
    then show ?thesis using r(2) by (metis nth_Cons_0)
  next
    case True
    have le: "m_globalPops ls1 < length G"
      using pos True g(4,5) by (simp add: stack_size_def)
    have "ls' = ls1\<lparr> m_globalPops := m_globalPops ls1 + 1, m_minSize := min (m_minSize ls1) (stack_size ls - 1) \<rparr>"
      using p True g(4,5) by (auto simp: stack_pop_unfold [OF ok get])
    then have "stack_of ev G ls1 = slot_value ev G ls1 (m_globalPops ls1) # stack_of ev G ls'"
      using True le by (simp add: stack_of_def slot_value_def input_item_def upt_conv_Cons)
    then show ?thesis using r(2) by (metis nth_Cons_0)
  qed
  then have "stack_of ev G ls = ev v # stack_of ev G ls'" using r v by metis
  with True show ?thesis by (simp add: evm_pop_def)
next
  case False
  then have "length (stack_of ev G ls) = 0"
    using stack_pop_ok(5) [OF ok p fit] length_stack_of [OF ok fit, of ev] by linarith
  with False show ?thesis by (simp add: evm_pop_def)
qed

lemma stack_set_ok:
  assumes "local_stack_ok ls" "int index < int (length G) + stack_size ls"
    and "length (m_local ls) \<le> index \<Longrightarrow> input_item ls (get_idx ls index) \<noteq> None"
  shows "local_stack_ok (stack_set index w ls)" "stack_size (stack_set index w ls) = stack_size ls"
    "m_minSize (stack_set index w ls) = m_minSize ls" "m_maxSize (stack_set index w ls) = m_maxSize ls"
    "fits n (stack_set index w ls) = fits n ls"
    "m_globalPops ls \<le> length G \<Longrightarrow> stack_of ev G (stack_set index w ls) = (stack_of ev G ls)[index := ev w]"
proof -
  have "local_stack_ok (stack_set index w ls) \<and> stack_size (stack_set index w ls) = stack_size ls \<and>
    (m_globalPops ls \<le> length G \<longrightarrow> stack_of ev G (stack_set index w ls) = (stack_of ev G ls)[index := ev w])"
  proof (cases "index < length (m_local ls)")
    case True
    then have "map ev (rev ((m_local ls)[length (m_local ls) - 1 - index := w])) = (map ev (rev (m_local ls)))[index := ev w]"
      by (intro nth_equalityI) (auto simp: rev_nth nth_list_update)
    with True assms(1) show ?thesis
      by (auto simp: stack_set_def local_stack_ok_def stack_size_def input_item_def stack_of_def slot_value_def
          list_update_append)
  next
    case False
    then have len: "get_idx ls index < length (m_input ls)"
      using assms(3) by (auto simp: input_item_def split: if_split_asm)
    let ?ls = "stack_set index w ls"
    have item: "input_item ?ls = (input_item ls)(get_idx ls index := Some w)"
      using False len by (auto simp: fun_eq_iff stack_set_def input_item_def)
    have same: "m_local ?ls = m_local ls" "m_globalPops ?ls = m_globalPops ls" "m_minSize ?ls = m_minSize ls"
      "m_maxSize ?ls = m_maxSize ls" "length (m_input ?ls) = length (m_input ls)"
      using False by (simp_all add: stack_set_def)
    have "local_stack_ok ?ls"
      using assms(1) assms(3) False unfolding local_stack_ok_def stack_size_def same item by auto
    moreover have "map (slot_value ev G ?ls) [m_globalPops ls..<length G] =
        (map (slot_value ev G ls) [m_globalPops ls..<length G])[index - length (m_local ls) := ev w]"
      by (intro nth_equalityI) (auto simp: nth_list_update slot_value_def item add.commute)
    ultimately show ?thesis
      using False by (simp add: stack_of_def same list_update_append stack_size_def)
  qed
  then show "local_stack_ok (stack_set index w ls)" "stack_size (stack_set index w ls) = stack_size ls"
    "m_globalPops ls \<le> length G \<Longrightarrow> stack_of ev G (stack_set index w ls) = (stack_of ev G ls)[index := ev w]"
    by blast+
  show "m_minSize (stack_set index w ls) = m_minSize ls" "m_maxSize (stack_set index w ls) = m_maxSize ls"
    "fits n (stack_set index w ls) = fits n ls"
    by (simp_all add: stack_set_def fits_def)
qed

text \<open>SWAP reads both items before it writes them, so both are in \<^verbatim>\<open>m_input\<close> or local when set.\<close>

lemma stack_swap_refines:
  assumes ok: "local_stack_ok ls" and k: "0 < k"
  shows "local_stack_ok (stack_swap load k ls)" "stack_size (stack_swap load k ls) = stack_size ls"
    "m_maxSize (stack_swap load k ls) = m_maxSize ls" "m_minSize (stack_swap load k ls) \<le> m_minSize ls"
    "fits n ls \<Longrightarrow> fits n (stack_swap load k ls) \<longleftrightarrow> int k < int n + stack_size ls"
    "loads ev load G \<Longrightarrow> fits (length G) ls \<Longrightarrow> evm_swap k (stack_of ev G ls) =
      (if fits (length G) (stack_swap load k ls) then Some (stack_of ev G (stack_swap load k ls)) else None)"
proof -
  obtain val ls1 where get1: "stack_get load k ls = (val, ls1)" by (cases "stack_get load k ls")
  obtain tos ls2 where get0: "stack_get load 0 ls1 = (tos, ls2)" by (cases "stack_get load 0 ls1")
  note g1 = stack_get_ok [OF ok get1]
  note g0 = stack_get_ok [OF g1(1) get0]
  have swap: "stack_swap load k ls = stack_set 0 val (stack_set k tos ls2)"
    by (simp add: stack_swap_def get1 get0)
  have mono: "fits n ls2 \<longleftrightarrow> fits n ls1" if "fits n ls" for n
  proof
    show "fits n ls1" if "fits n ls2" using fits_mono [OF that g0(6)] g0(3) by simp
    show "fits n ls2" if "fits n ls1"
      using that g0(7) [OF that] g1(2) g1(7) [OF \<open>fits n ls\<close>] by linarith
  qed
  have in_k: "input_item ls2 (get_idx ls2 k) \<noteq> None" if "length (m_local ls2) \<le> k"
  proof -
    have le: "length (m_local ls) \<le> k" using that g0(4) g1(4) by simp
    note i1 = stack_get_input(2) [OF le ok get1]
    have "input_item ls1 (get_idx ls k) \<noteq> None" by (simp add: i1)
    moreover have "input_item ls2 j \<noteq> None" if "input_item ls1 j \<noteq> None" for j
      using stack_get_input(2) [OF _ g1(1) get0] stack_get_local [of 0 ls1 load] get0 that
      by (cases "m_local ls1 = []") auto
    ultimately show ?thesis using g0(4,5) g1(4,5) by simp
  qed
  have in_0: "input_item ls2 (get_idx ls2 0) \<noteq> None" if "length (m_local ls2) \<le> 0"
    using stack_get_input(2) [OF _ g1(1) get0] that g0(4,5) by simp
  have in_0': "input_item (stack_set k tos ls2) (get_idx (stack_set k tos ls2) 0) \<noteq> None"
    if "length (m_local (stack_set k tos ls2)) \<le> 0"
    using that in_0 in_k by (auto simp: stack_set_def input_item_def nth_list_update split: if_split_asm)
  note s1 = stack_set_ok [where ls = ls2 and index = k and w = tos, OF g0(1) _ in_k]
  have all: "local_stack_ok (stack_swap load k ls) \<and> stack_size (stack_swap load k ls) = stack_size ls \<and>
    m_maxSize (stack_swap load k ls) = m_maxSize ls \<and> m_minSize (stack_swap load k ls) = m_minSize ls2"
  proof -
    obtain G :: "word256 list" where G: "length G = nat (1 + int k + \<bar>stack_size ls\<bar>)"
      using Ex_list_of_length by blast
    have lt: "int k < int (length G) + stack_size ls2" "int 0 < int (length G) + stack_size ls2"
      using G g0(2) g1(2) by simp_all
    note s1 = stack_set_ok(1-4) [where ls = ls2 and index = k and w = tos and G = G, OF g0(1) lt(1) in_k]
    have lt0: "int 0 < int (length G) + stack_size (stack_set k tos ls2)" using lt(2) s1(2) by simp
    note s0 = stack_set_ok(1-4) [where index = 0 and w = val and G = G, OF s1(1) lt0 in_0']
    show ?thesis unfolding swap using s0 s1 g0(2,3) g1(2,3) by simp
  qed
  then show "local_stack_ok (stack_swap load k ls)" "stack_size (stack_swap load k ls) = stack_size ls"
    "m_maxSize (stack_swap load k ls) = m_maxSize ls" "m_minSize (stack_swap load k ls) \<le> m_minSize ls"
    using g0(6) g1(6) by linarith+
  have fits: "fits n (stack_swap load k ls) = fits n ls2" for n
    using all g0(3) g1(3) by (simp add: fits_def)
  then show "fits n ls \<Longrightarrow> fits n (stack_swap load k ls) \<longleftrightarrow> int k < int n + stack_size ls" for n
    using mono g1(7) by blast
  show "evm_swap k (stack_of ev G ls) =
      (if fits (length G) (stack_swap load k ls) then Some (stack_of ev G (stack_swap load k ls)) else None)"
    if G: "loads ev load G" and fit: "fits (length G) ls"
  proof (cases "fits (length G) ls2")
    case True
    have fit1: "fits (length G) ls1" using mono [OF fit] True by blast
    have idx: "int k < int (length G) + stack_size ls" using g1(7) [OF fit] fit1 by blast
    then have idx0: "int 0 < int (length G) + stack_size ls1" using g1(2) by simp
    note r1 = stack_get_refines [OF ok get1 G fit idx] and r0 = stack_get_refines [OF g1(1) get0 G fit1 idx0]
    have pops: "m_globalPops ls2 \<le> length G" by (rule pops_le [OF g0(1) True])
    have lt: "int k < int (length G) + stack_size ls2" "int 0 < int (length G) + stack_size ls2"
      using idx idx0 g0(2) g1(2) by simp_all
    note s1 = stack_set_ok [where ls = ls2 and index = k and w = tos and G = G, OF g0(1) lt(1) in_k]
    have lt0: "int 0 < int (length G) + stack_size (stack_set k tos ls2)" using lt(2) s1(2) by simp
    note s0 = stack_set_ok [where index = 0 and w = val and G = G, OF s1(1) lt0 in_0']
    have pops': "m_globalPops (stack_set k tos ls2) \<le> length G" using pops by (simp add: stack_set_def)
    have "stack_of ev G (stack_swap load k ls) = (stack_of ev G ls)[k := ev tos, 0 := ev val]"
      unfolding swap using s0(6) [OF _ _ pops'] s1(6) [OF _ pops] r0(2) r1(2) by simp
    also have "\<dots> = (stack_of ev G ls)[0 := stack_of ev G ls ! k, k := stack_of ev G ls ! 0]"
      using r0 r1 k by (simp add: list_update_swap)
    finally show ?thesis
      using True fits idx length_stack_of [OF ok fit, of ev] by (simp add: evm_swap_def)
  next
    case False
    then have "\<not> k < length (stack_of ev G ls)"
      using mono [OF fit] g1(7) [OF fit] length_stack_of [OF ok fit, of ev] by linarith
    then show ?thesis using False fits by (simp add: evm_swap_def)
  qed
qed

section \<open>finalize writes the stack back\<close>

lemma finalize_loop_stores:
  assumes "s = int (length loc0) - int pops" "pops \<le> length inp" "- int (length inp) \<le> g"
    and "its = drop (nat (min g (- int pops) + int (length inp))) (rev inp)" "loc = drop (nat (g + int pops)) loc0"
  shows "sorted_wrt (<) (map fst (finalize_loop g s (int pops) its loc)) \<and>
    (\<forall>h. map_of (finalize_loop g s (int pops) its loc) h =
      (if g \<le> h \<and> h < s then
         (if h < - int pops then inp ! nat (- h - 1) else Some (loc0 ! nat (h + int pops)))
       else None)) \<and>
    (\<forall>h \<in> fst ` set (finalize_loop g s (int pops) its loc). g \<le> h)"
  using assms
proof (induction "nat (s - g)" arbitrary: g its loc)
  case 0
  then show ?case by (subst finalize_loop.simps) (auto simp: finalize_loop.simps)
next
  case (Suc n)
  then have lt: "g < s" by linarith
  have n: "n = nat (s - (g + 1))" using Suc.hyps(2) lt by linarith
  show ?case
  proof (cases "g < - int pops")
    case True
    define j where "j = nat (g + int (length inp))"
    have j: "j < length inp" "nat (g + 1 + int (length inp)) = Suc j" "nat (- g - 1) = length inp - Suc j"
      using True Suc.prems(3) by (auto simp: j_def nat_add_distrib)
    have its: "its = inp ! nat (- g - 1) # drop (Suc j) (rev inp)"
      using Suc.prems(4) True j by (simp add: Cons_nth_drop_Suc [symmetric] rev_nth j_def [symmetric])
    have loc: "loc = drop (nat (g + 1 + int pops)) loc0" using Suc.prems(5) True by simp
    note IH = Suc.hyps(1) [OF n Suc.prems(1,2) _ _ loc, of "drop (Suc j) (rev inp)"]
    define R where "R = finalize_loop (g + 1) s (int pops) (drop (Suc j) (rev inp)) loc"
    have IH': "sorted_wrt (<) (map fst R) \<and>
      (\<forall>h. map_of R h = (if g + 1 \<le> h \<and> h < s then
           (if h < - int pops then inp ! nat (- h - 1) else Some (loc0 ! nat (h + int pops)))
         else None)) \<and>
      (\<forall>h \<in> fst ` set R. g + 1 \<le> h)"
      unfolding R_def using Suc.prems(3) True j by (intro IH) simp_all
    have step: "finalize_loop g s (int pops) its loc = (case inp ! nat (- g - 1) of None \<Rightarrow> R | Some x \<Rightarrow> (g, x) # R)"
      using lt True by (subst finalize_loop.simps) (simp add: its R_def split: option.split)
    have split: "(g \<le> h \<and> h < s) = (h = g \<or> (g + 1 \<le> h \<and> h < s))" for h using lt by auto
    show ?thesis
      unfolding step using IH' True by (auto simp: split split: option.split)
  next
    case False
    define j where "j = nat (g + int pops)"
    have j: "j < length loc0" "nat (g + 1 + int pops) = Suc j"
      using False lt Suc.prems(1) by (auto simp: j_def)
    have loc: "loc = loc0 ! nat (g + int pops) # drop (Suc j) loc0"
      using Suc.prems(5) j by (simp add: Cons_nth_drop_Suc j_def [symmetric])
    have its: "drop (nat (min (g + 1) (- int pops) + int (length inp))) (rev inp) = its"
      using Suc.prems(4) False by simp
    define R where "R = finalize_loop (g + 1) s (int pops) its (drop (Suc j) loc0)"
    have IH': "sorted_wrt (<) (map fst R) \<and>
      (\<forall>h. map_of R h = (if g + 1 \<le> h \<and> h < s then
           (if h < - int pops then inp ! nat (- h - 1) else Some (loc0 ! nat (h + int pops)))
         else None)) \<and>
      (\<forall>h \<in> fst ` set R. g + 1 \<le> h)"
      unfolding R_def using Suc.hyps(1) [OF n Suc.prems(1,2), of its "drop (Suc j) loc0"] Suc.prems(3) its j by simp
    have step: "finalize_loop g s (int pops) its loc = (g, loc0 ! nat (g + int pops)) # R"
      using lt False by (subst finalize_loop.simps) (simp add: loc R_def)
    have split: "(g \<le> h \<and> h < s) = (h = g \<or> (g + 1 \<le> h \<and> h < s))" for h using lt by auto
    show ?thesis
      unfolding step using IH' False by (auto simp: split)
  qed
qed

lemma finalize_stores:
  assumes "local_stack_ok ls"
  shows "sorted_wrt (<) (map fst (finalize ls))"
    and "map_of (finalize ls) h =
      (if - int (length (m_input ls)) \<le> h \<and> h < stack_size ls then
         (if h < - int (m_globalPops ls) then m_input ls ! nat (- h - 1)
          else Some (m_local ls ! nat (h + int (m_globalPops ls))))
       else None)"
  using finalize_loop_stores [of "stack_size ls" "m_local ls" "m_globalPops ls" "m_input ls"
      "- int (length (m_input ls))" "rev (m_input ls)" "m_local ls"] assms
  by (simp_all add: finalize_def stack_size_def local_stack_ok_def)

lemma length_stack_stores [simp]: "length (stack_stores sp st base) = length base"
  by (induction st arbitrary: base) (simp_all add: stack_stores_def stack_store_def split_def)

text \<open>Stores to different slots: each slot holds what was stored to it.\<close>

lemma stack_stores_nth:
  assumes "sorted_wrt (<) (map fst st)" "\<forall>h \<in> fst ` set st. 0 \<le> int sp + h" "p < length base"
  shows "stack_stores sp st base ! p = (case map_of st (int p - int sp) of Some w \<Rightarrow> w | None \<Rightarrow> base ! p)"
  using assms
proof (induction st arbitrary: base)
  case (Cons x st)
  obtain h w where x: "x = (h, w)" by (cases x)
  have "stack_stores sp (x # st) base = stack_stores sp st (base[nat (int sp + h) := w])"
    by (simp add: stack_stores_def stack_store_def x)
  then have IH: "stack_stores sp (x # st) base ! p =
      (case map_of st (int p - int sp) of Some w \<Rightarrow> w | None \<Rightarrow> base[nat (int sp + h) := w] ! p)"
    using Cons.IH [of "base[nat (int sp + h) := w]"] Cons.prems by simp
  show ?case
  proof (cases "int p - int sp = h")
    case True
    then have "map_of st (int p - int sp) = None"
      using Cons.prems(1) by (auto simp: x map_of_eq_None_iff)
    moreover have "nat (int sp + h) = p" using True by simp
    ultimately show ?thesis using IH True Cons.prems(3) by (simp add: x)
  next
    case False
    then have "nat (int sp + h) \<noteq> p" using Cons.prems(2) by (auto simp: x)
    then show ?thesis using IH False by (simp add: x split: option.split)
  qed
qed (simp add: stack_stores_def)

lemma map_of_map_prod: "map_of (map (map_prod id f) xs) h = map_option f (map_of xs h)"
  by (induction xs) auto

lemma finalize_refines:
  assumes ok: "local_stack_ok ls" and fit: "fits (length G) ls"
    and base: "length base = stackSizeLimit" "take (length G) base = rev G"
  shows "take (nat (int (length G) + stack_size ls))
      (stack_stores (length G) (map (map_prod id ev) (finalize ls)) base) = rev (stack_of ev G ls)"
proof (rule nth_equalityI)
  let ?n = "length G" and ?st = "map (map_prod id ev) (finalize ls)"
  have size: "0 \<le> int ?n + stack_size ls" "int ?n + stack_size ls \<le> int stackSizeLimit"
    using ok fit by (auto simp: local_stack_ok_def fits_def)
  have len: "length (stack_of ev G ls) = nat (int ?n + stack_size ls)"
    using length_stack_of [OF ok fit, of ev] by simp
  show "length (take (nat (int ?n + stack_size ls)) (stack_stores ?n ?st base)) = length (rev (stack_of ev G ls))"
    using size base(1) len by simp
  fix p assume "p < length (take (nat (int ?n + stack_size ls)) (stack_stores ?n ?st base))"
  then have p: "p < nat (int ?n + stack_size ls)" "p < length base" using base(1) by auto
  have fst: "map fst ?st = map fst (finalize ls)" by simp
  note mo = map_of_map_prod
  have low: "0 \<le> int ?n + h" if "h \<in> fst ` set ?st" for h
  proof -
    have "h \<in> fst ` set (finalize ls)" using that by force
    then obtain w where w: "map_of (finalize ls) h = Some w" by (metis map_of_eq_None_iff option.exhaust)
    show ?thesis
    proof (cases "h < - int (m_globalPops ls)")
      case True
      then have "- int (length (m_input ls)) \<le> h" "m_input ls ! nat (- h - 1) = Some w"
        using w finalize_stores(2) [OF ok, of h] by (auto split: if_split_asm)
      then have "input_item ls (nat (- h - 1)) \<noteq> None" using True by (auto simp: input_item_def)
      then have "m_minSize ls \<le> - int (nat (- h - 1)) - 1" using ok unfolding local_stack_ok_def by blast
      then show ?thesis using fit True by (simp add: fits_def)
    next
      case False
      then show ?thesis using pops_le [OF ok fit] by simp
    qed
  qed
  have nth: "stack_stores ?n ?st base ! p = (case map_of ?st (int p - int ?n) of Some w \<Rightarrow> w | None \<Rightarrow> base ! p)"
    using finalize_stores(1) [OF ok] low p(2) by (intro stack_stores_nth) (simp_all only: fst, blast)
  have rev: "rev (stack_of ev G ls) ! p = stack_of ev G ls ! (length (stack_of ev G ls) - Suc p)"
    using p(1) len by (intro rev_nth) simp
  let ?i = "length (stack_of ev G ls) - Suc p"
  have i: "int ?i = int ?n + stack_size ls - int p - 1" using p(1) len by simp
  have idx: "int ?i < int ?n + stack_size ls" using i by simp
  note S = stack_of_nth [OF ok fit idx, of ev]
  show "take (nat (int ?n + stack_size ls)) (stack_stores ?n ?st base) ! p = rev (stack_of ev G ls) ! p"
  proof (cases "?i < length (m_local ls)")
    case True
    then have h: "\<not> int p - int ?n < - int (m_globalPops ls)" using i by (simp add: stack_size_def)
    have "- int (length (m_input ls)) \<le> int p - int ?n" using h ok by (simp add: local_stack_ok_def)
    moreover have "int p - int ?n < stack_size ls" using p(1) by simp
    ultimately have "map_of (finalize ls) (int p - int ?n) = Some (m_local ls ! nat (int p - int ?n + int (m_globalPops ls)))"
      using h by (simp add: finalize_stores(2) [OF ok])
    moreover have "nat (int p - int ?n + int (m_globalPops ls)) = length (m_local ls) - 1 - ?i"
      using i True by (simp add: stack_size_def)
    ultimately show ?thesis using p(1) nth rev S True by (simp add: mo)
  next
    case False
    then have k: "get_idx ls ?i = ?n - Suc p" "p < ?n" using i pops_le [OF ok fit] by (simp_all add: stack_size_def)
    have h: "int p - int ?n < - int (m_globalPops ls)" "nat (- (int p - int ?n) - 1) = ?n - Suc p"
      using False i k(2) by (simp_all add: stack_size_def)
    have "map_of (finalize ls) (int p - int ?n) = input_item ls (?n - Suc p)"
      using h p(1) k(2) finalize_stores(2) [OF ok, of "int p - int ?n"] by (auto simp: input_item_def)
    moreover have "base ! p = G ! (?n - Suc p)"
      using base(2) k(2) by (metis nth_take rev_nth)
    ultimately show ?thesis
      using p(1) nth rev S False k(1) by (auto simp: mo slot_value_def split: option.splits)
  qed
qed

section \<open>stack.prepare decides whether the block fits\<close>

lemma word_of_int64:
  assumes "- (2 ^ 62) \<le> k" "k < 2 ^ 62"
  shows "sint (word_of_int k :: i64) = k" "0 \<le> k \<Longrightarrow> unat (word_of_int k :: i64) = nat k"
proof -
  show "sint (word_of_int k :: i64) = k"
    unfolding sint_sbintrunc' using assms by (intro signed_take_bit_int_eq_self) simp_all
  assume "0 \<le> k"
  have "k mod 2 ^ 64 = k" by (rule mod_pos_pos_trivial) (use \<open>0 \<le> k\<close> assms(2) in simp_all)
  then show "unat (word_of_int k :: i64) = nat k"
    by (simp add: unat_eq_nat_uint uint_word_of_int)
qed

lemma stack_prepare_eq:
  assumes "n \<le> stackSizeLimit" and ok: "local_stack_ok ls"
    and mn: "- (2 ^ 61) \<le> m_minSize ls" and mx: "m_maxSize ls < 2 ^ 61"
  shows "stack_prepare (of_nat n) (word_of_int (m_minSize ls)) (word_of_int (m_maxSize ls)) (word_of_int (stack_size ls)) =
    (if fits n ls then Done (of_nat (nat (int n + stack_size ls)), of_nat n) else LongJmp)"
proof -
  have n: "n \<le> 1024" using assms(1) by (simp add: stackSizeLimit_def)
  have r: "m_minSize ls \<le> 0" "0 \<le> m_maxSize ls" "m_minSize ls \<le> stack_size ls" "stack_size ls \<le> m_maxSize ls"
    using ok by (simp_all add: local_stack_ok_def)
  have num: "(of_nat n :: i64) = word_of_int (int n)" "(of_nat stackSizeLimit :: i64) = word_of_int (int stackSizeLimit)"
    by simp_all
  have sz: "sint (of_nat n :: i64) = int n" "unat (of_nat n :: i64) = n"
    unfolding num using word_of_int64 [of "int n"] n by simp_all
  have lim: "unat (of_nat stackSizeLimit :: i64) = stackSizeLimit" by (simp add: stackSizeLimit_def)
  have range: "- (2 ^ 62) \<le> k \<and> k < 2 ^ 62" if "k \<in> {m_minSize ls, int n + m_minSize ls, m_maxSize ls, int n + m_maxSize ls}" for k
    using that mn mx r n by auto
  have min: "sint (word_of_int (m_minSize ls) :: i64) = m_minSize ls"
    "sint (word_of_int (int n + m_minSize ls) :: i64) = int n + m_minSize ls"
    using range word_of_int64(1) by blast+
  have max: "sint (word_of_int (m_maxSize ls) :: i64) = m_maxSize ls"
    using range word_of_int64(1) by blast
  have nonneg: "0 \<le> int n + m_maxSize ls" using r(2) by simp
  have umax1: "unat (word_of_int (m_maxSize ls) :: i64) = nat (m_maxSize ls)"
    using range r(2) word_of_int64(2) by blast
  have umax2: "unat (word_of_int (int n + m_maxSize ls) :: i64) = nat (int n + m_maxSize ls)"
    using range nonneg word_of_int64(2) by blast
  note umax = umax1 umax2
  have diff: "sint (word_of_int (stack_size ls) :: i64) = stack_size ls"
    using mn mx r by (intro word_of_int64(1)) auto
  have sums: "of_nat n + word_of_int (m_minSize ls) = (word_of_int (int n + m_minSize ls) :: i64)"
    "of_nat n + word_of_int (m_maxSize ls) = (word_of_int (int n + m_maxSize ls) :: i64)"
    by simp_all
  have a: "ir_nsw_add (Some (of_nat n)) (Some (word_of_int (m_minSize ls))) =
      Some (word_of_int (int n + m_minSize ls) :: i64)"
    using mn r n by (simp only: ir_nsw_add_def guarded2_Some sz min sums in_sint_def) simp
  have b: "ir_nuw_nsw_add (Some (of_nat n)) (Some (word_of_int (m_maxSize ls))) =
      Some (word_of_int (int n + m_maxSize ls) :: i64)"
    using mx r n by (simp only: ir_nuw_nsw_add_def guarded2_Some sz max umax sums in_sint_def) simp
  have c: "ir_nsw_add (Some (of_nat n)) (Some (word_of_int (stack_size ls))) =
      Some (of_nat n + word_of_int (stack_size ls) :: i64)"
    using mn mx r n by (simp only: ir_nsw_add_def guarded2_Some sz diff in_sint_def) simp
  have ok_iff: "(0 \<le> int n + m_minSize ls \<and> nat (int n + m_maxSize ls) \<le> stackSizeLimit) = fits n ls"
    unfolding fits_def using r by auto
  have "0 \<le> int n + stack_size ls" if "fits n ls" using that r by (simp add: fits_def)
  then have "of_nat n + word_of_int (stack_size ls) = (of_nat (nat (int n + stack_size ls)) :: i64)" if "fits n ls"
    using that by (simp add: of_nat_nat)
  moreover have "stack_prepare (of_nat n) (word_of_int (m_minSize ls)) (word_of_int (m_maxSize ls)) (word_of_int (stack_size ls)) =
    (if 0 \<le> int n + m_minSize ls \<and> nat (int n + m_maxSize ls) \<le> stackSizeLimit
     then Done (of_nat n + word_of_int (stack_size ls), of_nat n) else LongJmp)"
    unfolding stack_prepare_def a b c Let_def
    by (simp only: ir_sge_def ir_ule_def ir_band_def lift2_Some use_Some min sint_0 word_le_nat_alt umax lim)
  ultimately show ?thesis unfolding ok_iff by simp
qed

section \<open>Sequences of operations\<close>

datatype 'v stack_op = Push 'v | Pop | Dup nat | Swap nat

primrec do_stack_op :: "(nat \<Rightarrow> 'v) \<Rightarrow> 'v stack_op \<Rightarrow> 'v local_stack \<Rightarrow> 'v local_stack" where
  "do_stack_op load (Push v) ls = stack_push v ls"
| "do_stack_op load Pop ls = snd (stack_pop load ls)"
| "do_stack_op load (Dup k) ls = stack_dup load k ls"
| "do_stack_op load (Swap k) ls = stack_swap load k ls"

primrec evm_stack_op :: "('v \<Rightarrow> word256) \<Rightarrow> 'v stack_op \<Rightarrow> word256 list \<Rightarrow> word256 list option" where
  "evm_stack_op ev (Push v) S = evm_push (ev v) S"
| "evm_stack_op ev Pop S = map_option snd (evm_pop S)"
| "evm_stack_op ev (Dup k) S = evm_dup k S"
| "evm_stack_op ev (Swap k) S = evm_swap k S"

text \<open>The indices the opcodes have.\<close>

definition op_ok :: "'v stack_op \<Rightarrow> bool" where
  "op_ok p = (case p of Dup k \<Rightarrow> k < 16 | Swap k \<Rightarrow> 0 < k \<and> k \<le> 16 | _ \<Rightarrow> True)"

fun evm_stack_ops :: "('v \<Rightarrow> word256) \<Rightarrow> 'v stack_op list \<Rightarrow> word256 list \<Rightarrow> word256 list option" where
  "evm_stack_ops ev [] S = Some S"
| "evm_stack_ops ev (p # ps) S = Option.bind (evm_stack_op ev p S) (evm_stack_ops ev ps)"

definition stack_ops :: "(nat \<Rightarrow> 'v) \<Rightarrow> 'v stack_op list \<Rightarrow> 'v local_stack \<Rightarrow> 'v local_stack" where
  "stack_ops load ps ls = fold (do_stack_op load) ps ls"

lemma stack_dup_bounds:
  assumes "local_stack_ok ls"
  shows "m_minSize (stack_dup load k ls) \<le> m_minSize ls" "m_maxSize ls \<le> m_maxSize (stack_dup load k ls)"
    "m_maxSize (stack_dup load k ls) \<le> m_maxSize ls + 1"
proof -
  obtain v ls1 where get: "stack_get load k ls = (v, ls1)" by (cases "stack_get load k ls")
  note g = stack_get_ok [OF assms get]
  have "m_maxSize (stack_push v ls1) \<le> m_maxSize ls1 + 1"
    using g(1) by (simp add: stack_push_def Let_def stack_size_def local_stack_ok_def)
  then show "m_minSize (stack_dup load k ls) \<le> m_minSize ls" "m_maxSize ls \<le> m_maxSize (stack_dup load k ls)"
    "m_maxSize (stack_dup load k ls) \<le> m_maxSize ls + 1"
    using g(3,6) stack_push_ok(3,4) [OF g(1), of v] by (simp_all add: stack_dup_def get)
qed

text \<open>One operation: the bookkeeping fits exactly when the stack machine does not get stuck.\<close>

lemma stack_op_refines:
  assumes ok: "local_stack_ok ls" and p: "op_ok p"
  shows "local_stack_ok (do_stack_op load p ls)"
    and "m_minSize (do_stack_op load p ls) \<le> m_minSize ls" "m_maxSize ls \<le> m_maxSize (do_stack_op load p ls)"
    and "loads ev load G \<Longrightarrow> fits (length G) ls \<Longrightarrow> evm_stack_op ev p (stack_of ev G ls) =
      (if fits (length G) (do_stack_op load p ls) then Some (stack_of ev G (do_stack_op load p ls)) else None)"
proof -
  have "local_stack_ok (do_stack_op load p ls) \<and> m_minSize (do_stack_op load p ls) \<le> m_minSize ls \<and>
    m_maxSize ls \<le> m_maxSize (do_stack_op load p ls) \<and>
    (loads ev load G \<longrightarrow> fits (length G) ls \<longrightarrow> evm_stack_op ev p (stack_of ev G ls) =
      (if fits (length G) (do_stack_op load p ls) then Some (stack_of ev G (do_stack_op load p ls)) else None))"
  proof (cases p)
    case (Push v)
    then show ?thesis using stack_push_ok [OF ok, where v = v] stack_push_refines [OF ok, where v = v and G = G and ev = ev]
      by simp
  next
    case Pop
    obtain v ls' where pop: "stack_pop load ls = (v, ls')" by (cases "stack_pop load ls")
    then show ?thesis
      using Pop stack_pop_ok [OF ok pop] stack_pop_refines [OF ok pop, where ev = ev and G = G] by simp
  next
    case (Dup k)
    then show ?thesis
      using stack_dup_ok [OF ok] stack_dup_refines [OF ok, where ev = ev and load = load and G = G]
        stack_dup_bounds [OF ok]
      by simp
  next
    case (Swap k)
    then have "0 < k" using p by (simp add: op_ok_def)
    then show ?thesis using Swap stack_swap_refines [OF ok \<open>0 < k\<close>] by simp
  qed
  then show "local_stack_ok (do_stack_op load p ls)" "m_minSize (do_stack_op load p ls) \<le> m_minSize ls"
    "m_maxSize ls \<le> m_maxSize (do_stack_op load p ls)"
    "loads ev load G \<Longrightarrow> fits (length G) ls \<Longrightarrow> evm_stack_op ev p (stack_of ev G ls) =
      (if fits (length G) (do_stack_op load p ls) then Some (stack_of ev G (do_stack_op load p ls)) else None)"
    by blast+
qed

lemma stack_ops_refines:
  assumes "local_stack_ok ls" "\<forall>p \<in> set ps. op_ok p"
  shows "local_stack_ok (stack_ops load ps ls)"
    and "m_minSize (stack_ops load ps ls) \<le> m_minSize ls" "m_maxSize ls \<le> m_maxSize (stack_ops load ps ls)"
    and "loads ev load G \<Longrightarrow> fits (length G) ls \<Longrightarrow> evm_stack_ops ev ps (stack_of ev G ls) =
      (if fits (length G) (stack_ops load ps ls) then Some (stack_of ev G (stack_ops load ps ls)) else None)"
proof -
  have "local_stack_ok (stack_ops load ps ls) \<and> m_minSize (stack_ops load ps ls) \<le> m_minSize ls \<and>
    m_maxSize ls \<le> m_maxSize (stack_ops load ps ls) \<and>
    (loads ev load G \<longrightarrow> fits (length G) ls \<longrightarrow> evm_stack_ops ev ps (stack_of ev G ls) =
      (if fits (length G) (stack_ops load ps ls) then Some (stack_of ev G (stack_ops load ps ls)) else None))"
    using assms
  proof (induction ps arbitrary: ls)
    case (Cons p ps)
    have p: "op_ok p" using Cons.prems(2) by simp
    let ?ls = "do_stack_op load p ls"
    note r = stack_op_refines [OF Cons.prems(1) p, where load = load]
    have ops: "stack_ops load (p # ps) ls = stack_ops load ps ?ls" by (simp add: stack_ops_def)
    have IH: "local_stack_ok (stack_ops load ps ?ls) \<and> m_minSize (stack_ops load ps ?ls) \<le> m_minSize ?ls \<and>
      m_maxSize ?ls \<le> m_maxSize (stack_ops load ps ?ls) \<and>
      (loads ev load G \<longrightarrow> fits (length G) ?ls \<longrightarrow> evm_stack_ops ev ps (stack_of ev G ?ls) =
        (if fits (length G) (stack_ops load ps ?ls) then Some (stack_of ev G (stack_ops load ps ?ls)) else None))"
      using Cons.IH [OF r(1)] Cons.prems(2) by simp
    have "\<not> fits (length G) (stack_ops load ps ?ls)" if "\<not> fits (length G) ?ls"
      using IH that fits_mono by blast
    then show ?case using IH r(2,3) r(4) [where ev = ev and G = G] by (auto simp: ops)
  qed (simp add: stack_ops_def)
  then show "local_stack_ok (stack_ops load ps ls)" "m_minSize (stack_ops load ps ls) \<le> m_minSize ls"
    "m_maxSize ls \<le> m_maxSize (stack_ops load ps ls)"
    "loads ev load G \<Longrightarrow> fits (length G) ls \<Longrightarrow> evm_stack_ops ev ps (stack_of ev G ls) =
      (if fits (length G) (stack_ops load ps ls) then Some (stack_of ev G (stack_ops load ps ls)) else None)"
    by blast+
qed

text \<open>The counters after \<open>j\<close> operations.\<close>

definition counters_ok :: "nat \<Rightarrow> 'v local_stack \<Rightarrow> bool" where
  "counters_ok j ls \<longleftrightarrow> m_globalPops ls \<le> j \<and> - int j - 17 \<le> m_minSize ls \<and> m_maxSize ls \<le> int j"

lemma get_counters:
  assumes "local_stack_ok ls" "stack_get load k ls = (v, ls')" "counters_ok j ls" "k \<le> 16"
  shows "counters_ok j ls'"
proof (cases "k < length (m_local ls)")
  case True
  then show ?thesis using assms by (simp add: stack_get_local)
next
  case False
  then have le: "length (m_local ls) \<le> k" by simp
  have "int (k - length (m_local ls)) \<le> 16" using assms(4) by simp
  then show ?thesis
    using stack_get_input [OF le assms(1,2)] assms(3) by (simp add: counters_ok_def)
qed

lemma push_counters:
  assumes "local_stack_ok ls" "counters_ok j ls"
  shows "counters_ok (Suc j) (stack_push v ls)"
  using assms by (simp add: counters_ok_def stack_push_def Let_def stack_size_def local_stack_ok_def)

lemma op_counters:
  assumes ok: "local_stack_ok ls" and p: "op_ok p" and c: "counters_ok j ls"
  shows "counters_ok (Suc j) (do_stack_op load p ls)"
proof (cases p)
  case (Push v)
  then show ?thesis using push_counters [OF ok c] by simp
next
  case Pop
  obtain w ls1 where get: "stack_get load 0 ls = (w, ls1)" by (cases "stack_get load 0 ls")
  have "counters_ok j ls1" using get_counters [OF ok get c] by simp
  then show ?thesis
    using Pop stack_pop_unfold [OF ok get] stack_get_ok(4,5) [OF ok get] c
    by (auto simp: counters_ok_def stack_size_def)
next
  case (Dup k)
  obtain w ls1 where get: "stack_get load k ls = (w, ls1)" by (cases "stack_get load k ls")
  have "counters_ok j ls1" using get_counters [OF ok get c] Dup p by (simp add: op_ok_def)
  then show ?thesis using Dup push_counters [OF stack_get_ok(1) [OF ok get]] by (simp add: stack_dup_def get)
next
  case (Swap k)
  obtain w ls1 where get: "stack_get load k ls = (w, ls1)" by (cases "stack_get load k ls")
  obtain w2 ls2 where get2: "stack_get load 0 ls1 = (w2, ls2)" by (cases "stack_get load 0 ls1")
  have "counters_ok j ls1" using get_counters [OF ok get c] Swap p by (simp add: op_ok_def)
  then have "counters_ok j ls2" using get_counters [OF stack_get_ok(1) [OF ok get] get2] by simp
  moreover have "m_globalPops (stack_swap load k ls) = m_globalPops ls2"
    "m_minSize (stack_swap load k ls) = m_minSize ls2" "m_maxSize (stack_swap load k ls) = m_maxSize ls2"
    by (simp_all add: stack_swap_def get get2 stack_set_def)
  ultimately show ?thesis using Swap by (simp add: counters_ok_def)
qed

lemma ops_counters:
  "local_stack_ok ls \<Longrightarrow> \<forall>p \<in> set ps. op_ok p \<Longrightarrow> counters_ok j ls \<Longrightarrow>
   counters_ok (j + length ps) (stack_ops load ps ls)"
proof (induction ps arbitrary: ls j)
  case (Cons p ps)
  have p: "op_ok p" using Cons.prems(2) by simp
  note r = stack_op_refines(1) [OF Cons.prems(1) p, where load = load]
  show ?case
    using Cons.IH [OF r _ op_counters [OF Cons.prems(1) p Cons.prems(3)]] Cons.prems(2)
    by (simp add: stack_ops_def)
qed (simp add: stack_ops_def)

lemma counters_new: "counters_ok 0 new_local_stack"
  by (simp add: counters_ok_def new_local_stack_def)

lemma stack_of_new: "stack_of ev G new_local_stack = G"
  by (rule nth_equalityI) (simp_all add: stack_of_def new_local_stack_def slot_value_def input_item_def)

section \<open>Properties\<close>

text \<open>
  C20. A block's single up-front stack check is exact.  For every sequence of pushes, pops, DUPs and
  SWAPs, compiled with \<^verbatim>\<open>LocalStack\<close> and run on a run-time stack \<open>G\<close>: \<^verbatim>\<open>stack.prepare\<close>, called with
  the bounds that \<^verbatim>\<open>finalize\<close> fills in, lets the block run exactly when no operation would underflow
  the stack or grow it beyond 1024 items; the stack size it stores and the words that the stores of
  \<^verbatim>\<open>finalize\<close> leave are then those of the stack machine.
\<close>

theorem block_stack_check_exact:
  assumes "length G \<le> stackSizeLimit" "length base = stackSizeLimit" "take (length G) base = rev G"
    and "loads ev load G" "\<forall>p \<in> set ps. op_ok p" "length ps < 2 ^ 60"
  defines "ls \<equiv> stack_ops load ps new_local_stack"
  shows "case evm_stack_ops ev ps G of
      None \<Rightarrow> stack_prepare (of_nat (length G)) (word_of_int (m_minSize ls)) (word_of_int (m_maxSize ls))
                (word_of_int (stack_size ls)) = LongJmp
    | Some S \<Rightarrow> stack_prepare (of_nat (length G)) (word_of_int (m_minSize ls)) (word_of_int (m_maxSize ls))
                (word_of_int (stack_size ls)) = Done (of_nat (length S), of_nat (length G)) \<and>
              take (length S) (stack_stores (length G) (map (map_prod id ev) (finalize ls)) base) = rev S"
proof -
  have ok0: "local_stack_ok (new_local_stack :: 'a local_stack)" by simp
  note r = stack_ops_refines [OF ok0 assms(5), where load = load, folded ls_def]
  have c: "counters_ok (length ps) ls"
    using ops_counters [OF ok0 assms(5) counters_new] by (simp add: ls_def)
  then have "- (2 ^ 61) \<le> m_minSize ls" "m_maxSize ls < 2 ^ 61" using assms(6) by (simp_all add: counters_ok_def)
  note prep = stack_prepare_eq [OF assms(1) r(1) this]
  have run: "evm_stack_ops ev ps G = (if fits (length G) ls then Some (stack_of ev G ls) else None)"
    using r(4) [OF assms(4)] assms(1) by (simp add: stack_of_new)
  show ?thesis
  proof (cases "fits (length G) ls")
    case True
    have len: "nat (int (length G) + stack_size ls) = length (stack_of ev G ls)"
      using length_stack_of [OF r(1) True, of ev] by simp
    show ?thesis
      using prep True finalize_refines [OF r(1) True assms(2,3), of ev] by (simp add: run len)
  next
    case False
    then show ?thesis using prep by (simp add: run)
  qed
qed

theorem block_stack_check_exact_witness:
  "stack_prepare 2 (word_of_int (m_minSize (stack_ops (\<lambda>k. [8, 9 :: word256] ! k) [Swap 1, Pop, Push 5] new_local_stack)))
     (word_of_int (m_maxSize (stack_ops (\<lambda>k. [8, 9 :: word256] ! k) [Swap 1, Pop, Push 5] new_local_stack)))
     (word_of_int (stack_size (stack_ops (\<lambda>k. [8, 9 :: word256] ! k) [Swap 1, Pop, Push 5] new_local_stack))) = Done (2, 2) \<and>
   take 2 (stack_stores 2 (finalize (stack_ops (\<lambda>k. [8, 9 :: word256] ! k) [Swap 1, Pop, Push 5] new_local_stack))
     ([9, 8] @ replicate 1022 0)) = [8, 5]"
  using block_stack_check_exact [of "[8, 9 :: word256]" "[9, 8] @ replicate 1022 0" id "\<lambda>k. [8, 9] ! k" "[Swap 1, Pop, Push 5]"]
  by (simp add: stackSizeLimit_def loads_def op_ok_def evm_swap_def evm_pop_def evm_push_def prod.map_id0
      flip: numeral_2_eq_2)

end
