(* ===== verification/Blocks.thy ===== *)
theory Blocks
  imports PushData
begin

text \<open>
  \<^verbatim>\<open>Compiler::createBasicBlocks\<close> (\<^verbatim>\<open>libevmjit/Compiler.cpp\<close>) and \<^verbatim>\<open>class BasicBlock\<close>
  (\<^verbatim>\<open>BasicBlock.h\<close>): the bytecode is cut into blocks that a jump can only enter at the front.
  Iterators are indices into the code; \<^verbatim>\<open>_codeEnd\<close> is its length.
\<close>

section \<open>Walking over instructions\<close>

text \<open>\<^verbatim>\<open>skipPushDataAndGetNext\<close>: the index after the instruction at \<open>cur\<close>, its PUSH data included.\<close>

definition skipPushDataAndGetNext :: "byte list \<Rightarrow> nat \<Rightarrow> nat \<Rightarrow> nat" where
  "skipPushDataAndGetNext code cur e =
     (let offset = 1 + (if is_push (code ! cur) then min (push_size (code ! cur)) ((e - cur) - 1) else 0)
      in cur + offset)"

lemma skip_greater: "cur < skipPushDataAndGetNext code cur e"
  by (simp add: skipPushDataAndGetNext_def Let_def)

lemma skip_le_end: "cur < e \<Longrightarrow> skipPushDataAndGetNext code cur e \<le> e"
  by (auto simp: skipPushDataAndGetNext_def Let_def)

text \<open>The block compiler walks with \<^verbatim>\<open>readPushData\<close> and \<^verbatim>\<open>++it\<close>; both walks meet at the same places.\<close>

lemma skip_eq_readPushData:
  assumes "is_push (code ! cur)" "cur < e"
  shows "skipPushDataAndGetNext code cur e = snd (readPushData code cur e) + 1"
  using assms by (auto simp: readPushData_eq skipPushDataAndGetNext_def Let_def)

lemma skip_shorter_end:
  assumes "skipPushDataAndGetNext code cur e \<le> e'" "e' \<le> e" "cur < e"
  shows "skipPushDataAndGetNext code cur e' = skipPushDataAndGetNext code cur e"
  using assms by (auto simp: skipPushDataAndGetNext_def Let_def split: if_splits)

text \<open>The instruction boundaries from \<open>cur\<close> up to (and not including) \<open>e\<close>.\<close>

function instr_positions :: "byte list \<Rightarrow> nat \<Rightarrow> nat \<Rightarrow> nat list" where
  "instr_positions code cur e =
     (if cur < e then cur # instr_positions code (skipPushDataAndGetNext code cur e) e else [])"
  by pat_completeness auto
termination
  by (relation "measure (\<lambda>(code, cur, e). e - cur)")
    (auto intro!: diff_less_mono2 skip_greater)

declare instr_positions.simps [simp del]

section \<open>createBasicBlocks\<close>

record basic_block =
  m_firstInstrIdx :: nat
  m_begin :: nat
  m_end :: nat

definition instr_at :: "byte list \<Rightarrow> nat \<Rightarrow> instruction option" where
  "instr_at code p = Instruction_of (code ! p)"

text \<open>The cases of the \<^verbatim>\<open>switch\<close> that set \<^verbatim>\<open>isDead\<close>, and those that set \<^verbatim>\<open>isEnd\<close>.\<close>

definition makes_dead :: "instruction option \<Rightarrow> bool" where
  "makes_dead i \<longleftrightarrow> i \<in> {Some JUMP, Some RETURN, Some REVERT, Some STOP, Some SUICIDE}"

definition ends_block :: "instruction option \<Rightarrow> bool" where
  "ends_block i \<longleftrightarrow> makes_dead i \<or> i = Some JUMPI"

function createBasicBlocks_loop :: "byte list \<Rightarrow> bool \<Rightarrow> nat \<Rightarrow> nat \<Rightarrow> basic_block list" where
  "createBasicBlocks_loop code isDead begin cur =
     (if cur < length code then
        let nxt = skipPushDataAndGetNext code cur (length code) in
        if isDead \<and> instr_at code cur \<noteq> Some JUMPDEST then
          createBasicBlocks_loop code True begin nxt
        else
          let begin' = (if isDead then cur else begin);
              isDead' = makes_dead (instr_at code cur);
              isEnd = ends_block (instr_at code cur) \<or> nxt = length code \<or> instr_at code nxt = Some JUMPDEST
          in if isEnd
             then \<lparr>m_firstInstrIdx = begin', m_begin = begin', m_end = nxt\<rparr>
                    # createBasicBlocks_loop code isDead' nxt nxt
             else createBasicBlocks_loop code isDead' begin' nxt
      else [])"
  by pat_completeness auto
termination
  by (relation "measure (\<lambda>(code, isDead, begin, cur). length code - cur)")
    (auto intro!: diff_less_mono2 skip_greater)

declare createBasicBlocks_loop.simps [simp del]

definition createBasicBlocks :: "byte list \<Rightarrow> basic_block list" where
  "createBasicBlocks code = createBasicBlocks_loop code False 0 0"

section \<open>Instruction boundaries\<close>

definition positions :: "byte list \<Rightarrow> nat set" where
  "positions code = set (instr_positions code 0 (length code))"

definition on_boundary :: "byte list \<Rightarrow> nat \<Rightarrow> bool" where
  "on_boundary code p \<longleftrightarrow> p \<in> positions code \<or> p = length code"

lemma instr_positions_range: "p \<in> set (instr_positions code cur e) \<Longrightarrow> cur \<le> p \<and> p < e"
proof (induction code cur e rule: instr_positions.induct)
  case (1 code cur e)
  then show ?case
    using skip_greater [of cur code e]
    by (subst (asm) instr_positions.simps) (auto split: if_splits)
qed

lemma instr_positions_step:
  "p \<in> set (instr_positions code cur e) \<Longrightarrow>
   skipPushDataAndGetNext code p e \<in> set (instr_positions code cur e) \<or> skipPushDataAndGetNext code p e = e"
proof (induction code cur e rule: instr_positions.induct)
  case (1 code cur e)
  let ?n = "skipPushDataAndGetNext code cur e"
  from "1.prems" have le: "cur < e" using instr_positions_range by fastforce
  then have eq: "instr_positions code cur e = cur # instr_positions code ?n e"
    by (subst instr_positions.simps) simp
  show ?case
  proof (cases "p = cur")
    case True
    have "?n \<in> set (instr_positions code ?n e) \<or> ?n = e"
      using skip_le_end [OF le, of code] by (subst instr_positions.simps) auto
    then show ?thesis using eq True by auto
  next
    case False
    then show ?thesis using "1.IH" [OF le] "1.prems" eq by auto
  qed
qed

lemma positions_less: "p \<in> positions code \<Longrightarrow> p < length code"
  using instr_positions_range by (auto simp: positions_def)

lemma positions_step:
  "p \<in> positions code \<Longrightarrow> on_boundary code (skipPushDataAndGetNext code p (length code))"
  using instr_positions_step by (auto simp: positions_def on_boundary_def)

lemma boundary_0: "on_boundary code 0"
  by (cases code) (auto simp: on_boundary_def positions_def instr_positions.simps [of _ 0])

lemma instr_positions_gap:
  "p \<in> set (instr_positions code cur e) \<Longrightarrow> q \<in> set (instr_positions code cur e) \<Longrightarrow> p < q \<Longrightarrow>
   skipPushDataAndGetNext code p e \<le> q"
proof (induction code cur e rule: instr_positions.induct)
  case (1 code cur e)
  let ?n = "skipPushDataAndGetNext code cur e"
  from "1.prems"(1) have le: "cur < e" using instr_positions_range by fastforce
  then have eq: "set (instr_positions code cur e) = insert cur (set (instr_positions code ?n e))"
    by (subst instr_positions.simps) simp
  have "q \<noteq> cur" using "1.prems" instr_positions_range by fastforce
  with "1.prems" eq have q: "q \<in> set (instr_positions code ?n e)" by simp
  show ?case
  proof (cases "p = cur")
    case True
    then show ?thesis using instr_positions_range [OF q] by simp
  next
    case False
    then show ?thesis using "1.IH" [OF le] "1.prems" eq q by simp
  qed
qed

lemma positions_gap:
  assumes "p \<in> positions code" "on_boundary code q" "p < q"
  shows "skipPushDataAndGetNext code p (length code) \<le> q"
  using assms instr_positions_gap [of p code 0 "length code" q] skip_le_end positions_less
  by (auto simp: positions_def on_boundary_def)

section \<open>The invariant of the block cutter\<close>

definition open_block_ok :: "byte list \<Rightarrow> nat \<Rightarrow> nat \<Rightarrow> bool" where
  "open_block_ok code b cur \<longleftrightarrow>
     on_boundary code b \<and>
     (\<forall>p \<in> positions code. b \<le> p \<and> p < cur \<longrightarrow>
        \<not> ends_block (instr_at code p) \<and> (p \<noteq> b \<longrightarrow> instr_at code p \<noteq> Some JUMPDEST)) \<and>
     (b < cur \<longrightarrow> cur < length code \<and> instr_at code cur \<noteq> Some JUMPDEST)"

definition loop_inv :: "byte list \<Rightarrow> bool \<Rightarrow> nat \<Rightarrow> nat \<Rightarrow> bool" where
  "loop_inv code dead b cur \<longleftrightarrow> b \<le> cur \<and> on_boundary code cur \<and> (\<not> dead \<longrightarrow> open_block_ok code b cur)"

definition block_ok :: "byte list \<Rightarrow> basic_block \<Rightarrow> bool" where
  "block_ok code b \<longleftrightarrow>
     m_firstInstrIdx b = m_begin b \<and> m_begin b < m_end b \<and> m_end b \<le> length code \<and>
     on_boundary code (m_begin b) \<and> on_boundary code (m_end b) \<and>
     (\<forall>p \<in> positions code. m_begin b \<le> p \<and> p < m_end b \<longrightarrow>
        (p \<noteq> m_begin b \<longrightarrow> instr_at code p \<noteq> Some JUMPDEST) \<and>
        (ends_block (instr_at code p) \<longrightarrow> skipPushDataAndGetNext code p (length code) = m_end b))"

lemma loop_inv_init: "loop_inv code False 0 0"
  by (simp add: loop_inv_def open_block_ok_def boundary_0)

lemma boundary_position: "on_boundary code cur \<Longrightarrow> cur < length code \<Longrightarrow> cur \<in> positions code"
  by (simp add: on_boundary_def)

lemma loop_inv_next:
  assumes "loop_inv code dead b cur" "cur < length code"
  shows "on_boundary code (skipPushDataAndGetNext code cur (length code))"
  using assms by (intro positions_step) (simp add: loop_inv_def boundary_position)

lemma loop_inv_skip_dead:
  assumes "loop_inv code True b cur" "cur < length code"
  shows "loop_inv code True b (skipPushDataAndGetNext code cur (length code))"
  using assms loop_inv_next [OF assms] skip_greater [of cur code "length code"]
  by (auto simp: loop_inv_def)

lemma loop_inv_fresh: "on_boundary code cur \<Longrightarrow> loop_inv code dead cur cur"
  by (auto simp: loop_inv_def open_block_ok_def)

text \<open>Positions below the next boundary are at most the current one.\<close>

lemma position_before_next:
  assumes "loop_inv code dead b cur" "cur < length code" "p \<in> positions code"
    and "p < skipPushDataAndGetNext code cur (length code)"
  shows "p \<le> cur"
proof (rule ccontr)
  assume "\<not> p \<le> cur"
  then have "skipPushDataAndGetNext code cur (length code) \<le> p"
    using assms(1-3) positions_gap [of cur code p]
    by (auto simp: loop_inv_def boundary_position on_boundary_def)
  with assms(4) show False by simp
qed

lemma revived_open_block:
  assumes "loop_inv code dead b cur" "cur < length code" "dead \<longrightarrow> instr_at code cur = Some JUMPDEST"
  shows "open_block_ok code (if dead then cur else b) cur \<and> (if dead then cur else b) \<le> cur"
  using assms by (auto simp: loop_inv_def open_block_ok_def)

lemma loop_inv_grow:
  assumes inv: "loop_inv code dead b cur" and lt: "cur < length code"
    and live: "dead \<longrightarrow> instr_at code cur = Some JUMPDEST"
    and not_end: "\<not> ends_block (instr_at code cur)"
      "skipPushDataAndGetNext code cur (length code) \<noteq> length code"
      "instr_at code (skipPushDataAndGetNext code cur (length code)) \<noteq> Some JUMPDEST"
  shows "loop_inv code dead' (if dead then cur else b) (skipPushDataAndGetNext code cur (length code))"
proof -
  let ?n = "skipPushDataAndGetNext code cur (length code)" and ?b = "if dead then cur else b"
  have ob: "open_block_ok code ?b cur" and le: "?b \<le> cur"
    using revived_open_block [OF inv lt live] by auto
  have bn: "on_boundary code ?n" by (rule loop_inv_next [OF inv lt])
  have "?n \<le> length code" using lt by (rule skip_le_end)
  with not_end(2) have "?n < length code" by simp
  moreover have "\<not> ends_block (instr_at code p) \<and> (p \<noteq> ?b \<longrightarrow> instr_at code p \<noteq> Some JUMPDEST)"
    if p: "p \<in> positions code" "?b \<le> p" "p < ?n" for p
  proof (cases "p = cur")
    case True
    then show ?thesis using ob not_end(1) le by (auto simp: open_block_ok_def)
  next
    case False
    then have "p < cur" using position_before_next [OF inv lt p(1) p(3)] by simp
    then show ?thesis using ob p by (simp add: open_block_ok_def)
  qed
  ultimately have "open_block_ok code ?b ?n"
    using ob not_end(3) by (simp add: open_block_ok_def)
  moreover have "?b \<le> ?n"
    using le skip_greater [of cur code "length code"] by linarith
  ultimately show ?thesis using bn by (simp add: loop_inv_def)
qed

lemma emitted_block_ok:
  assumes inv: "loop_inv code dead b cur" and lt: "cur < length code"
    and live: "dead \<longrightarrow> instr_at code cur = Some JUMPDEST"
  shows "block_ok code \<lparr>m_firstInstrIdx = (if dead then cur else b), m_begin = (if dead then cur else b),
                          m_end = skipPushDataAndGetNext code cur (length code)\<rparr>"
proof -
  let ?n = "skipPushDataAndGetNext code cur (length code)" and ?b = "if dead then cur else b"
  have ob: "open_block_ok code ?b cur" and le: "?b \<le> cur"
    using revived_open_block [OF inv lt live] by auto
  have "(p \<noteq> ?b \<longrightarrow> instr_at code p \<noteq> Some JUMPDEST) \<and>
        (ends_block (instr_at code p) \<longrightarrow> skipPushDataAndGetNext code p (length code) = ?n)"
    if p: "p \<in> positions code" "?b \<le> p" "p < ?n" for p
  proof (cases "p = cur")
    case True
    then show ?thesis using ob le by (auto simp: open_block_ok_def)
  next
    case False
    then have "p < cur" using position_before_next [OF inv lt p(1) p(3)] by simp
    then show ?thesis using ob p by (simp add: open_block_ok_def)
  qed
  moreover have "?b < ?n" using le skip_greater [of cur code "length code"] by linarith
  moreover have "on_boundary code ?b" using ob by (simp only: open_block_ok_def)
  ultimately show ?thesis
    using loop_inv_next [OF inv lt] skip_le_end [OF lt, of code] unfolding block_ok_def by simp
qed

section \<open>Consequences for the whole block list\<close>

text \<open>One step of the loop as a case distinction, the shape every induction below uses.\<close>

lemma loop_cases:
  assumes "loop_inv code dead b cur"
  obtains (stop) "\<not> cur < length code" "createBasicBlocks_loop code dead b cur = []"
  | (dead) "cur < length code" "dead" "instr_at code cur \<noteq> Some JUMPDEST"
      "createBasicBlocks_loop code dead b cur =
         createBasicBlocks_loop code True b (skipPushDataAndGetNext code cur (length code))"
      "loop_inv code True b (skipPushDataAndGetNext code cur (length code))"
  | (emit) blk where "cur < length code" "dead \<longrightarrow> instr_at code cur = Some JUMPDEST"
      "blk = \<lparr>m_firstInstrIdx = (if dead then cur else b), m_begin = (if dead then cur else b),
               m_end = skipPushDataAndGetNext code cur (length code)\<rparr>"
      "createBasicBlocks_loop code dead b cur = blk #
         createBasicBlocks_loop code (makes_dead (instr_at code cur))
           (skipPushDataAndGetNext code cur (length code)) (skipPushDataAndGetNext code cur (length code))"
      "loop_inv code (makes_dead (instr_at code cur))
           (skipPushDataAndGetNext code cur (length code)) (skipPushDataAndGetNext code cur (length code))"
      "block_ok code blk"
  | (grow) "cur < length code" "dead \<longrightarrow> instr_at code cur = Some JUMPDEST"
      "\<not> makes_dead (instr_at code cur)"
      "createBasicBlocks_loop code dead b cur =
         createBasicBlocks_loop code False (if dead then cur else b)
           (skipPushDataAndGetNext code cur (length code))"
      "loop_inv code False (if dead then cur else b) (skipPushDataAndGetNext code cur (length code))"
proof -
  let ?n = "skipPushDataAndGetNext code cur (length code)"
  let ?isEnd = "ends_block (instr_at code cur) \<or> ?n = length code \<or> instr_at code ?n = Some JUMPDEST"
  consider "\<not> cur < length code" | "cur < length code" "dead" "instr_at code cur \<noteq> Some JUMPDEST"
    | "cur < length code" "dead \<longrightarrow> instr_at code cur = Some JUMPDEST" "?isEnd"
    | "cur < length code" "dead \<longrightarrow> instr_at code cur = Some JUMPDEST" "\<not> ?isEnd" by blast
  then show thesis
  proof cases
    case 1
    then show thesis by (intro stop) (simp_all add: createBasicBlocks_loop.simps)
  next
    case 2
    then show thesis
      using assms by (intro dead) (simp_all add: createBasicBlocks_loop.simps [of code True b cur] Let_def
          loop_inv_skip_dead)
  next
    case 3
    then have "createBasicBlocks_loop code dead b cur =
       \<lparr>m_firstInstrIdx = (if dead then cur else b), m_begin = (if dead then cur else b), m_end = ?n\<rparr> #
       createBasicBlocks_loop code (makes_dead (instr_at code cur)) ?n ?n"
      by (subst createBasicBlocks_loop.simps) (auto simp: Let_def)
    then show thesis
      using 3 emitted_block_ok [OF assms 3(1,2)] loop_inv_fresh [OF loop_inv_next [OF assms 3(1)]]
      by (intro emit [OF 3(1,2) refl]) simp_all
  next
    case 4
    then have "\<not> makes_dead (instr_at code cur)" by (simp add: ends_block_def)
    moreover from 4 have "createBasicBlocks_loop code dead b cur =
         createBasicBlocks_loop code (makes_dead (instr_at code cur)) (if dead then cur else b) ?n"
      by (subst createBasicBlocks_loop.simps) (auto simp: Let_def)
    ultimately show thesis
      using 4 loop_inv_grow [OF assms 4(1,2), where dead' = False] by (intro grow) simp_all
  qed
qed

lemma loop_induct [consumes 1, case_names stop dead emit grow]:
  assumes "loop_inv code d b cur"
    and "\<And>d b cur. \<not> cur < length code \<Longrightarrow> loop_inv code d b cur \<Longrightarrow> P d b cur []"
    and "\<And>b cur bs. cur < length code \<Longrightarrow> loop_inv code True b cur \<Longrightarrow> instr_at code cur \<noteq> Some JUMPDEST \<Longrightarrow>
      P True b (skipPushDataAndGetNext code cur (length code)) bs \<Longrightarrow> P True b cur bs"
    and "\<And>d b cur blk bs. cur < length code \<Longrightarrow> loop_inv code d b cur \<Longrightarrow>
      d \<longrightarrow> instr_at code cur = Some JUMPDEST \<Longrightarrow>
      blk = \<lparr>m_firstInstrIdx = (if d then cur else b), m_begin = (if d then cur else b),
             m_end = skipPushDataAndGetNext code cur (length code)\<rparr> \<Longrightarrow>
      block_ok code blk \<Longrightarrow>
      P (makes_dead (instr_at code cur)) (m_end blk) (m_end blk) bs \<Longrightarrow> P d b cur (blk # bs)"
    and "\<And>d b cur bs. cur < length code \<Longrightarrow> loop_inv code d b cur \<Longrightarrow>
      d \<longrightarrow> instr_at code cur = Some JUMPDEST \<Longrightarrow> \<not> makes_dead (instr_at code cur) \<Longrightarrow>
      loop_inv code False (if d then cur else b) (skipPushDataAndGetNext code cur (length code)) \<Longrightarrow>
      P False (if d then cur else b) (skipPushDataAndGetNext code cur (length code)) bs \<Longrightarrow> P d b cur bs"
  shows "P d b cur (createBasicBlocks_loop code d b cur)"
  using assms(1)
proof (induction "length code - cur" arbitrary: d b cur rule: less_induct)
  case less
  have dec: "cur < length code \<Longrightarrow> length code - skipPushDataAndGetNext code cur (length code) < length code - cur"
    by (simp add: diff_less_mono2 skip_greater)
  from less.prems show ?case
  proof (cases rule: loop_cases)
    case stop
    then show ?thesis using assms(2) less.prems by simp
  next
    case dead
    show ?thesis
      using assms(3) [OF dead(1) _ dead(3)] less.hyps [OF dec [OF dead(1)] dead(5)] dead(2,4) less.prems by simp
  next
    case (emit blk)
    show ?thesis
      using assms(4) [OF emit(1) less.prems emit(2,3,6)] less.hyps [OF dec [OF emit(1)] emit(5)] emit(3,4) by simp
  next
    case grow
    show ?thesis
      using assms(5) [OF grow(1) less.prems grow(2,3,5)] less.hyps [OF dec [OF grow(1)] grow(5)] grow(4) by simp
  qed
qed

lemma loop_blocks_ok: "loop_inv code d b cur \<Longrightarrow> \<forall>blk \<in> set (createBasicBlocks_loop code d b cur). block_ok code blk"
  by (induction rule: loop_induct) auto

text \<open>The blocks come in code order and do not overlap.\<close>

lemma loop_ordered:
  "loop_inv code d b cur \<Longrightarrow>
   sorted_wrt (\<lambda>x y. m_end x \<le> m_begin y) (createBasicBlocks_loop code d b cur) \<and>
   (\<forall>blk \<in> set (createBasicBlocks_loop code d b cur). b \<le> m_begin blk \<and> (d \<longrightarrow> cur \<le> m_begin blk))"
proof (induction rule: loop_induct)
  case (dead b cur bs)
  then show ?case using skip_greater [of cur code "length code"] by fastforce
next
  case (emit d b cur blk bs)
  then show ?case
    using skip_greater [of cur code "length code"] by (fastforce simp: loop_inv_def)
next
  case (grow d b cur bs)
  then show ?case by (auto simp: loop_inv_def split: if_splits)
qed simp

text \<open>Where the next block starts; the "Stop" block behind the last one stands at the code's end.\<close>

definition next_begin :: "byte list \<Rightarrow> basic_block list \<Rightarrow> nat" where
  "next_begin code bs = (case bs of [] \<Rightarrow> length code | b # _ \<Rightarrow> m_begin b)"

lemma next_begin_simps [simp]:
  "next_begin code [] = length code" "next_begin code (b # bs) = m_begin b"
  by (simp_all add: next_begin_def)

lemma loop_next_begin:
  "loop_inv code d b cur \<Longrightarrow> \<not> d \<longrightarrow> next_begin code (createBasicBlocks_loop code d b cur) = b"
proof (induction rule: loop_induct)
  case (stop d b cur)
  then show ?case
    by (auto simp: loop_inv_def open_block_ok_def on_boundary_def dest: positions_less)
qed (auto split: if_splits)

lemma loop_next_begin_live: "loop_inv code False b cur \<Longrightarrow> next_begin code (createBasicBlocks_loop code False b cur) = b"
  using loop_next_begin by simp

text \<open>Every JUMPDEST at an instruction boundary opens a block.\<close>

lemma loop_complete:
  "loop_inv code d b cur \<Longrightarrow>
   (\<not> d \<longrightarrow> next_begin code (createBasicBlocks_loop code d b cur) = b) \<and>
   (\<forall>p \<in> positions code. cur \<le> p \<longrightarrow> instr_at code p = Some JUMPDEST \<longrightarrow> (p = cur \<longrightarrow> \<not> d \<longrightarrow> b = cur) \<longrightarrow>
     (\<exists>blk \<in> set (createBasicBlocks_loop code d b cur). m_begin blk = p))"
proof (induction rule: loop_induct)
  case (stop d b cur)
  then show ?case
    using loop_next_begin [OF stop(2)]
    by (auto simp: createBasicBlocks_loop.simps dest: positions_less)
next
  case (dead b cur bs)
  then show ?case
    using positions_gap [of cur code] by (auto simp: loop_inv_def boundary_position on_boundary_def le_less)
next
  case (emit d b cur blk bs)
  have "skipPushDataAndGetNext code cur (length code) \<le> p" if "p \<in> positions code" "cur < p" for p
    using emit that positions_gap [of cur code p] by (auto simp: loop_inv_def boundary_position on_boundary_def)
  with emit show ?case by (auto simp: le_less)
next
  case (grow d b cur bs)
  have gap: "skipPushDataAndGetNext code cur (length code) \<le> p" if "p \<in> positions code" "cur < p" for p
    using grow that positions_gap [of cur code p] by (auto simp: loop_inv_def boundary_position on_boundary_def)
  have "\<exists>blk \<in> set bs. m_begin blk = p"
    if p: "p \<in> positions code" "cur \<le> p" "instr_at code p = Some JUMPDEST" "p = cur \<longrightarrow> \<not> d \<longrightarrow> b = cur" for p
  proof (cases "p = cur")
    case True
    with p(4) grow have "next_begin code bs = cur" by (auto split: if_splits)
    with grow(1) True show ?thesis by (cases bs) auto
  next
    case False
    have "(if d then cur else b) < skipPushDataAndGetNext code cur (length code)"
      using grow(2) skip_greater [of cur code "length code"] by (auto simp: loop_inv_def)
    then have "p \<noteq> skipPushDataAndGetNext code cur (length code)"
      using grow(5) p(3) by (auto simp: loop_inv_def open_block_ok_def)
    with False p gap [OF p(1)] grow show ?thesis by auto
  qed
  with grow show ?case by auto
qed

text \<open>A block whose last instruction lets control go on is followed by the block that starts where it ends.\<close>

fun falls_through_ok :: "byte list \<Rightarrow> basic_block list \<Rightarrow> bool" where
  "falls_through_ok code [] = True"
| "falls_through_ok code (b # bs) =
     ((\<forall>p \<in> positions code. m_begin b \<le> p \<longrightarrow> skipPushDataAndGetNext code p (length code) = m_end b \<longrightarrow>
         \<not> makes_dead (instr_at code p) \<longrightarrow> next_begin code bs = m_end b) \<and>
      falls_through_ok code bs)"

lemma loop_falls_through:
  "loop_inv code d b cur \<Longrightarrow>
   (\<not> d \<longrightarrow> next_begin code (createBasicBlocks_loop code d b cur) = b) \<and>
   falls_through_ok code (createBasicBlocks_loop code d b cur)"
proof (induction rule: loop_induct)
  case (stop d b cur)
  then show ?case using loop_next_begin [OF stop(2)] by (auto simp: createBasicBlocks_loop.simps)
next
  case (emit d b cur blk bs)
  have "p = cur" if p: "p \<in> positions code" "skipPushDataAndGetNext code p (length code) = m_end blk" for p
  proof -
    have cur: "cur \<in> positions code" "on_boundary code cur" using emit(1,2) by (auto simp: loop_inv_def boundary_position)
    have "\<not> p < cur" using positions_gap [OF p(1) cur(2)] p(2) emit(4) skip_greater [of cur code "length code"] by auto
    moreover have "\<not> cur < p"
      using positions_gap [OF cur(1), of p] p emit(4) skip_greater [of p code "length code"] by (auto simp: on_boundary_def)
    ultimately show ?thesis by simp
  qed
  with emit show ?case by auto
qed (auto split: if_splits)

lemma falls_through_ok_append: "falls_through_ok code (xs @ ys) \<Longrightarrow> falls_through_ok code ys"
  by (induction xs) auto

text \<open>Why an instruction is dropped: some earlier one never lets control on, and no JUMPDEST between.\<close>

definition unreachable_at :: "byte list \<Rightarrow> nat \<Rightarrow> bool" where
  "unreachable_at code p \<longleftrightarrow>
     (\<exists>q \<in> positions code. q < p \<and> makes_dead (instr_at code q) \<and>
        (\<forall>r \<in> positions code. q < r \<and> r \<le> p \<longrightarrow> instr_at code r \<noteq> Some JUMPDEST))"

definition dead_before :: "byte list \<Rightarrow> nat \<Rightarrow> bool" where
  "dead_before code p \<longleftrightarrow>
     (\<exists>q \<in> positions code. q < p \<and> makes_dead (instr_at code q) \<and>
        (\<forall>r \<in> positions code. q < r \<and> r < p \<longrightarrow> instr_at code r \<noteq> Some JUMPDEST))"

lemma dead_before_here: "dead_before code p \<Longrightarrow> instr_at code p \<noteq> Some JUMPDEST \<Longrightarrow> unreachable_at code p"
  by (auto simp: dead_before_def unreachable_at_def le_less)

lemma loop_covers:
  "loop_inv code d b cur \<Longrightarrow>
   (d \<longrightarrow> dead_before code cur) \<longrightarrow>
   (\<forall>p \<in> positions code. (if d then cur else b) \<le> p \<longrightarrow>
      (\<exists>blk \<in> set (createBasicBlocks_loop code d b cur). m_begin blk \<le> p \<and> p < m_end blk) \<or> unreachable_at code p)"
proof (induction rule: loop_induct)
  case (stop d b cur)
  then have "on_boundary code cur" "b \<le> cur" by (simp_all add: loop_inv_def)
  with stop have "cur = length code" by (auto simp: on_boundary_def dest: positions_less)
  with stop show ?case
    by (auto simp: loop_inv_def open_block_ok_def dest: positions_less split: if_splits)
next
  case (dead b cur bs)
  let ?n = "skipPushDataAndGetNext code cur (length code)"
  have cur: "cur \<in> positions code" using dead(1,2) by (simp add: loop_inv_def boundary_position)
  have le_n: "p \<le> cur" if "p \<in> positions code" "p < ?n" for p
    using position_before_next [OF dead(2,1) that] .
  have db: "dead_before code ?n" if "dead_before code cur"
  proof -
    from that obtain q where q: "q \<in> positions code" "q < cur" "makes_dead (instr_at code q)"
      "\<forall>r \<in> positions code. q < r \<and> r < cur \<longrightarrow> instr_at code r \<noteq> Some JUMPDEST"
      by (auto simp: dead_before_def)
    have "q < ?n" using q(2) skip_greater less_trans by blast
    moreover have "\<forall>r \<in> positions code. q < r \<and> r < ?n \<longrightarrow> instr_at code r \<noteq> Some JUMPDEST"
      using q(4) le_n dead(3) by (metis le_less)
    ultimately show ?thesis using q(1,3) by (auto simp: dead_before_def)
  qed
  show ?case
  proof (intro impI ballI)
    fix p assume "True \<longrightarrow> dead_before code cur" and p: "p \<in> positions code" "(if True then cur else b) \<le> p"
    then have reason: "dead_before code cur" by simp
    show "(\<exists>blk \<in> set bs. m_begin blk \<le> p \<and> p < m_end blk) \<or> unreachable_at code p"
    proof (cases "p = cur")
      case True
      then show ?thesis using dead_before_here [OF reason dead(3)] by simp
    next
      case False
      then have "?n \<le> p" using le_n [OF p(1)] p(2) by force
      then show ?thesis using dead(4) db [OF reason] p(1) by simp
    qed
  qed
next
  case (emit d b cur blk bs)
  let ?n = "skipPushDataAndGetNext code cur (length code)"
  have cur: "cur \<in> positions code" using emit(1,2) by (simp add: loop_inv_def boundary_position)
  have le_n: "p \<le> cur" if "p \<in> positions code" "p < ?n" for p
    using position_before_next [OF emit(2,1) that] .
  have "makes_dead (instr_at code cur) \<longrightarrow> dead_before code ?n"
    using cur le_n skip_greater [of cur code "length code"] by (fastforce simp: dead_before_def)
  then show ?case using emit(4,6) by fastforce
next
  case (grow d b cur bs)
  then show ?case by (auto split: if_splits)
qed

lemmas blocks_facts =
  loop_blocks_ok [OF loop_inv_init, folded createBasicBlocks_def]
  loop_ordered [OF loop_inv_init, folded createBasicBlocks_def]
  loop_complete [OF loop_inv_init, folded createBasicBlocks_def]
  loop_falls_through [OF loop_inv_init, folded createBasicBlocks_def]
  loop_covers [OF loop_inv_init, folded createBasicBlocks_def]

text \<open>Two small programs, for the witnesses: two jump destinations, and an instruction after STOP.\<close>

lemma small_opcodes:
  "Instruction_of 0x5b = Some JUMPDEST" "Instruction_of 0 = Some STOP" "Instruction_of 1 = Some ADD"
  by (simp_all add: Instruction_of_eq_Some_iff valid_instruction_def)

lemma skip_one: "\<not> is_push (code ! cur) \<Longrightarrow> skipPushDataAndGetNext code cur e = Suc cur"
  by (simp add: skipPushDataAndGetNext_def)

lemma two_jumpdests:
  "createBasicBlocks [0x5b, 0x5b] =
     [\<lparr>m_firstInstrIdx = 0, m_begin = 0, m_end = 1\<rparr>, \<lparr>m_firstInstrIdx = 1, m_begin = 1, m_end = 2\<rparr>]"
  "positions [0x5b, 0x5b] = {0, 1}"
  by (simp_all add: createBasicBlocks_def createBasicBlocks_loop.simps skip_one is_push_def instr_at_def
      small_opcodes makes_dead_def ends_block_def positions_def instr_positions.simps)

lemma stop_then_add:
  "createBasicBlocks [0, 1] = [\<lparr>m_firstInstrIdx = 0, m_begin = 0, m_end = 1\<rparr>]"
  "positions [0, 1] = {0, 1}"
  by (simp_all add: createBasicBlocks_def createBasicBlocks_loop.simps skip_one is_push_def instr_at_def
      small_opcodes makes_dead_def ends_block_def positions_def instr_positions.simps)

section \<open>Properties\<close>

definition valid_jumpdest :: "byte list \<Rightarrow> nat \<Rightarrow> bool" where
  "valid_jumpdest code d \<longleftrightarrow> d \<in> positions code \<and> instr_at code d = Some JUMPDEST"

text \<open>C22. The blocks partition the live code: each is a non-empty range of whole instructions, they
  are in code order without overlap, a JUMPDEST or an instruction after a block-ending one can only
  be at the front of a block.\<close>

theorem createBasicBlocks_well_formed:
  "(\<forall>b \<in> set (createBasicBlocks code). block_ok code b) \<and>
   sorted_wrt (\<lambda>x y. m_end x \<le> m_begin y) (createBasicBlocks code) \<and>
   next_begin code (createBasicBlocks code) = 0"
  using blocks_facts by simp

theorem createBasicBlocks_well_formed_witness:
  "block_ok [0x5b, 0x5b] \<lparr>m_firstInstrIdx = 1, m_begin = 1, m_end = 2\<rparr>"
  using createBasicBlocks_well_formed [of "[0x5b, 0x5b]"] by (simp add: two_jumpdests)


text \<open>Control that runs off the end of a block enters the block (or the "Stop" block) that starts
  right there, so wiring a block to its successor in the list is right.\<close>

lemma fallthrough_is_next_block:
  assumes "createBasicBlocks code = xs @ b # ys"
    and "p \<in> positions code" "m_begin b \<le> p" "skipPushDataAndGetNext code p (length code) = m_end b"
    and "\<not> makes_dead (instr_at code p)"
  shows "next_begin code ys = m_end b"
  using assms blocks_facts(4) [of code] falls_through_ok_append [of code xs "b # ys"] by auto



end
