(* ===== verification/Compiler.thy ===== *)
theory Compiler
  imports Opcodes LocalStack Blocks
begin

text \<open>
  \<^verbatim>\<open>Compiler::compileBasicBlock\<close>, \<^verbatim>\<open>resolveJumps\<close> and \<^verbatim>\<open>compile\<close> of \<^verbatim>\<open>libevmjit/Compiler.cpp\<close>.

  Compiling a block walks over its instructions with a virtual stack of SSA values and emits
  operations: calls of the meter, of the memory, of the host interface, or word arithmetic.  The
  semantics of the operations is that of \<open>Opcodes\<close>; \<open>run_block\<close> and \<open>run_main\<close> execute the emitted
  function.  SSA values are constants (\<open>Const\<close>), items loaded from the run-time stack below the stack
  pointer of the block's entry (\<open>Slot\<close>) and results of operations (\<open>Reg\<close>, numbered within a block).

  LLVM's constant folder, which \<^verbatim>\<open>IRBuilder\<close> consults for word arithmetic, is third-party code: it is the
  parameter \<open>c_fold\<close>, and \<open>folder_ok\<close> states that it only replaces an operation by a value it has.
\<close>

section \<open>Emitted code\<close>

datatype val = Const word256 | Slot nat | Reg nat

datatype op =
    Eval nat instruction "val list"     \<comment> \<open>the code of a case, with the register for its result\<close>
  | Do instruction "val list"           \<comment> \<open>the code of a case without a result\<close>
  | MemRequire val val                  \<comment> \<open>\<^verbatim>\<open>Memory::require\<close>, where a case calls it before a commit\<close>
  | CountExp val                        \<comment> \<open>\<^verbatim>\<open>GasMeter::countExp\<close>\<close>

datatype terminator = TJump val | TJumpI val val | TExit return_code

record config =
  c_rev :: evmc_revision
  c_static :: bool
  c_codeSize :: nat
  c_fold :: "instruction \<Rightarrow> val list \<Rightarrow> val option"

section \<open>The state of compiling a block\<close>

text \<open>\<open>cs_acts\<close> are the calls of the gas meter and the emitted operations, in order.\<close>

record comp_state =
  cs_stack :: "val local_stack"
  cs_next :: nat
  cs_acts :: "op cost_action list"
  cs_term :: "terminator option"
  cs_isDest :: bool

definition new_comp_state :: comp_state where
  "new_comp_state = \<lparr> cs_stack = new_local_stack, cs_next = 0, cs_acts = [], cs_term = None, cs_isDest = False \<rparr>"

definition add_act :: "op cost_action \<Rightarrow> comp_state \<Rightarrow> comp_state" where
  "add_act a cs = cs\<lparr> cs_acts := cs_acts cs @ [a] \<rparr>"

definition pop_val :: "comp_state \<Rightarrow> val \<times> comp_state" where
  "pop_val cs = (let (v, ls) = stack_pop Slot (cs_stack cs) in (v, cs\<lparr> cs_stack := ls \<rparr>))"

definition push_val :: "val \<Rightarrow> comp_state \<Rightarrow> comp_state" where
  "push_val v cs = cs\<lparr> cs_stack := stack_push v (cs_stack cs) \<rparr>"

primrec pop_vals :: "nat \<Rightarrow> comp_state \<Rightarrow> val list \<times> comp_state" where
  "pop_vals 0 cs = ([], cs)"
| "pop_vals (Suc n) cs =
     (let (v, cs1) = pop_val cs;
          (vs, cs2) = pop_vals n cs1
      in (v # vs, cs2))"

definition new_value :: "instruction \<Rightarrow> val list \<Rightarrow> comp_state \<Rightarrow> val \<times> comp_state" where
  "new_value inst vs cs =
     (Reg (cs_next cs), (add_act (Op (Eval (cs_next cs) inst vs)) cs)\<lparr> cs_next := cs_next cs + 1 \<rparr>)"

text \<open>Word arithmetic goes through the constant folder.\<close>

definition create_value :: "config \<Rightarrow> instruction \<Rightarrow> val list \<Rightarrow> comp_state \<Rightarrow> val \<times> comp_state" where
  "create_value cfg inst vs cs = (case c_fold cfg inst vs of Some v \<Rightarrow> (v, cs) | None \<Rightarrow> new_value inst vs cs)"

text \<open>\<^verbatim>\<open>Arith256::exp\<close>: folded when both operands are constants.\<close>

definition create_exp :: "val \<Rightarrow> val \<Rightarrow> comp_state \<Rightarrow> val \<times> comp_state" where
  "create_exp base exponent cs =
     (case (base, exponent) of
        (Const b, Const x) \<Rightarrow> (Const (ssa_value (exp (ConstantInt b) (ConstantInt x))), cs)
      | _ \<Rightarrow> new_value EXP [base, exponent] cs)"

section \<open>The cases\<close>

definition word_case :: "config \<Rightarrow> instruction \<Rightarrow> nat \<Rightarrow> comp_state \<Rightarrow> comp_state" where
  "word_case cfg inst n cs =
     (let (vs, cs1) = pop_vals n cs;
          (v, cs2) = create_value cfg inst vs cs1
      in push_val v cs2)"

definition value_case :: "instruction \<Rightarrow> nat \<Rightarrow> comp_state \<Rightarrow> comp_state" where
  "value_case inst n cs =
     (let (vs, cs1) = pop_vals n cs;
          (v, cs2) = new_value inst vs cs1
      in push_val v cs2)"

definition effect_case :: "instruction \<Rightarrow> nat \<Rightarrow> comp_state \<Rightarrow> comp_state" where
  "effect_case inst n cs =
     (let (vs, cs1) = pop_vals n cs
      in add_act (Op (Do inst vs)) cs1)"

definition set_term :: "terminator \<Rightarrow> comp_state \<Rightarrow> comp_state" where
  "set_term t cs = cs\<lparr> cs_term := Some t \<rparr>"

text \<open>Each group returns the iterator it leaves behind; \<open>bb\<close> is the block and \<open>it\<close> the iterator.  The
  \<^verbatim>\<open>default\<close> case, which \<^verbatim>\<open>goto invalidInstruction\<close> also reaches, ends the compilation of the block.\<close>

type_synonym comp_case = "basic_block \<Rightarrow> nat \<Rightarrow> comp_state \<Rightarrow> comp_state \<times> nat"

definition invalid_case :: comp_case where
  "invalid_case bb it cs = (set_term (TExit OutOfGas) cs, m_end bb - 1)"

definition compile_log :: "config \<Rightarrow> instruction option \<Rightarrow> comp_case" where
  "compile_log cfg inst bb it cs =
     (case inst of
        Some (LOG n) \<Rightarrow>
          if c_static cfg then invalid_case bb it cs else (effect_case (LOG n) (2 + n) cs, it)
      | _ \<Rightarrow> invalid_case bb it cs)"

definition compile_exits :: "config \<Rightarrow> instruction option \<Rightarrow> comp_case" where
  "compile_exits cfg inst bb it cs =
     (case inst of
        Some RETURN \<Rightarrow> (set_term (TExit Return) (effect_case RETURN 2 cs), it)
      | Some REVERT \<Rightarrow>
          if c_rev cfg < EVMC_BYZANTIUM then invalid_case bb it cs
          else (set_term (TExit Revert) (effect_case REVERT 2 cs), it)
      | Some SUICIDE \<Rightarrow>
          if c_static cfg then invalid_case bb it cs
          else (set_term (TExit Stop) (effect_case SUICIDE 1 cs), it)
      | Some STOP \<Rightarrow> (set_term (TExit Stop) cs, it)
      | _ \<Rightarrow> compile_log cfg inst bb it cs)"

text \<open>The calls: the arguments are popped, the cost block committed, and the rest emitted.\<close>

definition call_case :: "instruction \<Rightarrow> nat \<Rightarrow> comp_state \<Rightarrow> comp_state" where
  "call_case inst n cs =
     (let (vs, cs1) = pop_vals n cs;
          cs2 = add_act Commit cs1;
          (v, cs3) = new_value inst vs cs2
      in push_val v cs3)"

definition compile_calls :: "config \<Rightarrow> instruction option \<Rightarrow> comp_case" where
  "compile_calls cfg inst bb it cs =
     (case inst of
        Some CALL \<Rightarrow> (call_case CALL 7 cs, it)
      | Some CALLCODE \<Rightarrow> (call_case CALLCODE 7 cs, it)
      | Some DELEGATECALL \<Rightarrow>
          if c_rev cfg < EVMC_HOMESTEAD then invalid_case bb it cs else (call_case DELEGATECALL 6 cs, it)
      | Some STATICCALL \<Rightarrow>
          if c_rev cfg < EVMC_BYZANTIUM then invalid_case bb it cs else (call_case STATICCALL 6 cs, it)
      | _ \<Rightarrow> compile_exits cfg inst bb it cs)"

definition compile_create :: "config \<Rightarrow> instruction option \<Rightarrow> comp_case" where
  "compile_create cfg inst bb it cs =
     (case inst of
        Some CREATE \<Rightarrow>
          if c_static cfg then invalid_case bb it cs
          else
            (let (vs, cs1) = pop_vals 3 cs;
                 cs2 = add_act (Op (MemRequire (vs ! 1) (vs ! 2))) cs1;
                 cs3 = add_act Commit cs2;
                 (v, cs4) = new_value CREATE vs cs3
             in (push_val v cs4, it))
      | _ \<Rightarrow> compile_calls cfg inst bb it cs)"

definition compile_copies :: "config \<Rightarrow> instruction option \<Rightarrow> comp_case" where
  "compile_copies cfg inst bb it cs =
     (case inst of
        Some CALLDATACOPY \<Rightarrow> (effect_case CALLDATACOPY 3 cs, it)
      | Some RETURNDATACOPY \<Rightarrow>
          if c_rev cfg < EVMC_BYZANTIUM then invalid_case bb it cs else (effect_case RETURNDATACOPY 3 cs, it)
      | Some CODECOPY \<Rightarrow> (effect_case CODECOPY 3 cs, it)
      | Some EXTCODECOPY \<Rightarrow> (effect_case EXTCODECOPY 4 cs, it)
      | Some CALLDATALOAD \<Rightarrow> (value_case CALLDATALOAD 1 cs, it)
      | _ \<Rightarrow> compile_create cfg inst bb it cs)"

definition compile_environment :: "config \<Rightarrow> instruction option \<Rightarrow> comp_case" where
  "compile_environment cfg inst bb it cs =
     (case inst of
        Some ADDRESS \<Rightarrow> (value_case ADDRESS 0 cs, it)
      | Some CALLER \<Rightarrow> (value_case CALLER 0 cs, it)
      | Some ORIGIN \<Rightarrow> (value_case ORIGIN 0 cs, it)
      | Some COINBASE \<Rightarrow> (value_case COINBASE 0 cs, it)
      | Some GASPRICE \<Rightarrow> (value_case GASPRICE 0 cs, it)
      | Some DIFFICULTY \<Rightarrow> (value_case DIFFICULTY 0 cs, it)
      | Some GASLIMIT \<Rightarrow> (value_case GASLIMIT 0 cs, it)
      | Some NUMBER \<Rightarrow> (value_case NUMBER 0 cs, it)
      | Some TIMESTAMP \<Rightarrow> (value_case TIMESTAMP 0 cs, it)
      | Some CALLVALUE \<Rightarrow> (value_case CALLVALUE 0 cs, it)
      | Some CODESIZE \<Rightarrow> (push_val (Const (of_nat (c_codeSize cfg))) cs, it)
      | Some CALLDATASIZE \<Rightarrow> (value_case CALLDATASIZE 0 cs, it)
      | Some RETURNDATASIZE \<Rightarrow>
          if c_rev cfg < EVMC_BYZANTIUM then invalid_case bb it cs else (value_case RETURNDATASIZE 0 cs, it)
      | Some BLOCKHASH \<Rightarrow> (value_case BLOCKHASH 1 cs, it)
      | Some BALANCE \<Rightarrow> (value_case BALANCE 1 cs, it)
      | Some EXTCODESIZE \<Rightarrow> (value_case EXTCODESIZE 1 cs, it)
      | _ \<Rightarrow> compile_copies cfg inst bb it cs)"

definition compile_flow :: "config \<Rightarrow> instruction option \<Rightarrow> comp_case" where
  "compile_flow cfg inst bb it cs =
     (case inst of
        Some JUMP \<Rightarrow> (let (dest, cs1) = pop_val cs in (set_term (TJump dest) cs1, it))
      | Some JUMPI \<Rightarrow>
          (let (dest, cs1) = pop_val cs;
               (cond, cs2) = pop_val cs1
           in (set_term (TJumpI dest cond) cs2, it))
      | Some JUMPDEST \<Rightarrow> (cs\<lparr> cs_isDest := True \<rparr>, it)
      | Some PC \<Rightarrow> (push_val (Const (of_nat (it - m_begin bb + m_firstInstrIdx bb))) cs, it)
      | Some GAS \<Rightarrow>
          (let cs1 = add_act Commit cs;
               (v, cs2) = new_value GAS [] cs1
           in (push_val v cs2, it))
      | _ \<Rightarrow> compile_environment cfg inst bb it cs)"

definition compile_data :: "config \<Rightarrow> byte list \<Rightarrow> instruction option \<Rightarrow> comp_case" where
  "compile_data cfg code inst bb it cs =
     (case inst of
        Some SHA3 \<Rightarrow> (value_case SHA3 2 cs, it)
      | Some POP \<Rightarrow> (snd (pop_val cs), it)
      | Some (PUSH n) \<Rightarrow>
          (let (value, it1) = readPushData code it (m_end bb) in (push_val (Const value) cs, it1))
      | Some (DUP n) \<Rightarrow>
          (let index = opcode (DUP n) - opcode (DUP 1)
           in (cs\<lparr> cs_stack := stack_dup Slot index (cs_stack cs) \<rparr>, it))
      | Some (SWAP n) \<Rightarrow>
          (let index = opcode (SWAP n) - opcode (SWAP 1) + 1
           in (cs\<lparr> cs_stack := stack_swap Slot index (cs_stack cs) \<rparr>, it))
      | Some MLOAD \<Rightarrow> (value_case MLOAD 1 cs, it)
      | Some MSTORE \<Rightarrow> (effect_case MSTORE 2 cs, it)
      | Some MSTORE8 \<Rightarrow> (effect_case MSTORE8 2 cs, it)
      | Some MSIZE \<Rightarrow> (value_case MSIZE 0 cs, it)
      | Some SLOAD \<Rightarrow> (value_case SLOAD 1 cs, it)
      | Some SSTORE \<Rightarrow> if c_static cfg then invalid_case bb it cs else (effect_case SSTORE 2 cs, it)
      | _ \<Rightarrow> compile_flow cfg inst bb it cs)"

definition compile_words :: "config \<Rightarrow> byte list \<Rightarrow> instruction option \<Rightarrow> comp_case" where
  "compile_words cfg code inst bb it cs =
     (case inst of
        Some ADD \<Rightarrow> (word_case cfg ADD 2 cs, it)
      | Some SUB \<Rightarrow> (word_case cfg SUB 2 cs, it)
      | Some MUL \<Rightarrow> (word_case cfg MUL 2 cs, it)
      | Some DIV \<Rightarrow> (word_case cfg DIV 2 cs, it)
      | Some SDIV \<Rightarrow> (word_case cfg SDIV 2 cs, it)
      | Some MOD \<Rightarrow> (word_case cfg MOD 2 cs, it)
      | Some SMOD \<Rightarrow> (word_case cfg SMOD 2 cs, it)
      | Some ADDMOD \<Rightarrow> (word_case cfg ADDMOD 3 cs, it)
      | Some MULMOD \<Rightarrow> (word_case cfg MULMOD 3 cs, it)
      | Some EXP \<Rightarrow>
          (let (vs, cs1) = pop_vals 2 cs;
               cs2 = add_act (Op (CountExp (vs ! 1))) cs1;
               (ret, cs3) = create_exp (vs ! 0) (vs ! 1) cs2
           in (push_val ret cs3, it))
      | Some NOT_i \<Rightarrow> (word_case cfg NOT_i 1 cs, it)
      | Some LT \<Rightarrow> (word_case cfg LT 2 cs, it)
      | Some GT \<Rightarrow> (word_case cfg GT 2 cs, it)
      | Some SLT \<Rightarrow> (word_case cfg SLT 2 cs, it)
      | Some SGT \<Rightarrow> (word_case cfg SGT 2 cs, it)
      | Some EQ \<Rightarrow> (word_case cfg EQ 2 cs, it)
      | Some ISZERO \<Rightarrow> (word_case cfg ISZERO 1 cs, it)
      | Some AND_i \<Rightarrow> (word_case cfg AND_i 2 cs, it)
      | Some OR_i \<Rightarrow> (word_case cfg OR_i 2 cs, it)
      | Some XOR_i \<Rightarrow> (word_case cfg XOR_i 2 cs, it)
      | Some BYTE \<Rightarrow> (word_case cfg BYTE 2 cs, it)
      | Some SIGNEXTEND \<Rightarrow> (word_case cfg SIGNEXTEND 2 cs, it)
      | _ \<Rightarrow> compile_data cfg code inst bb it cs)"

section \<open>A block\<close>

lemma snd_readPushData: "cur \<le> snd (readPushData code cur e)" if "cur < e"
proof (cases "is_push (code ! cur)")
  case True
  then show ?thesis
    using skip_eq_readPushData [OF True that] skip_greater [of cur code e] by linarith
next
  case False
  have "cur' \<le> snd (readPushData_loop code e n cur' v)" for n cur' v
    by (induction n arbitrary: cur' v) (auto intro: order_trans [OF Suc_leD])
  then have "Suc cur \<le> snd (readPushData_loop code e (push_size (code ! cur)) (cur + 1) 0)" by simp
  then show ?thesis by (simp add: readPushData_def case_prod_beta Let_def)
qed

lemmas compile_inst_defs =
  compile_words_def compile_data_def compile_flow_def compile_environment_def compile_copies_def
  compile_create_def compile_calls_def compile_exits_def compile_log_def

lemma compile_words_it:
  assumes "it < m_end bb"
  shows "it \<le> snd (compile_words cfg code inst bb it cs)"
proof (cases inst)
  case None
  then show ?thesis using assms by (simp add: compile_inst_defs invalid_case_def)
next
  case (Some i)
  have le: "it \<le> m_end bb - Suc 0" using assms by simp
  show ?thesis
    using le snd_readPushData [OF assms, of code]
    by (cases i) (simp_all add: Some compile_inst_defs invalid_case_def Let_def case_prod_beta)
qed

text \<open>The loop over the block's instructions.\<close>

function compile_loop :: "config \<Rightarrow> byte list \<Rightarrow> basic_block \<Rightarrow> nat \<Rightarrow> comp_state \<Rightarrow> comp_state" where
  "compile_loop cfg code bb it cs =
     (if it < m_end bb then
        (let inst = instr_at code it;
             cs1 = add_act (Count inst) cs;
             (cs2, it1) = compile_words cfg code inst bb it cs1
         in compile_loop cfg code bb (it1 + 1) cs2)
      else cs)"
  by pat_completeness auto
termination
proof (relation "measure (\<lambda>(cfg, code, bb, it, cs). m_end bb - it)", goal_cases)
  case (2 cfg code bb it cs inst cs1 p cs2 it1)
  then have "it \<le> it1" using compile_words_it [of it bb cfg code inst cs1] by (metis snd_conv)
  with 2(1) show ?case by simp
qed simp

declare compile_loop.simps [simp del]

text \<open>What compiling a block produces: the bounds that the call of \<^verbatim>\<open>stack.prepare\<close> gets, the code, the
  stores into the stack, the terminator, and whether the block is a case of the jump table.\<close>

record compiled_block =
  cb_first :: nat
  cb_min :: int
  cb_max :: int
  cb_size :: int
  cb_code :: "op emitted list"
  cb_stores :: "(int \<times> val) list"
  cb_term :: "terminator option"
  cb_isDest :: bool

definition compileBasicBlock :: "config \<Rightarrow> byte list \<Rightarrow> basic_block \<Rightarrow> compiled_block" where
  "compileBasicBlock cfg code bb =
     (let cs = compile_loop cfg code bb (m_begin bb) new_comp_state;
          gm = commitCostBlock (cost_actions (c_rev cfg) (cs_acts cs) new_gas_meter);
          ls = cs_stack cs
      in \<lparr> cb_first = m_firstInstrIdx bb, cb_min = m_minSize ls, cb_max = m_maxSize ls, cb_size = stack_size ls,
           cb_code = m_code gm, cb_stores = finalize ls, cb_term = cs_term cs, cb_isDest = cs_isDest cs \<rparr>)"

section \<open>The main function\<close>

text \<open>Where a branch leads: a block by its index, where the one after the last is the "Stop" block, the
  "Abort" block, or the jump table with the destination as its input.\<close>

datatype target = Block nat | AbortBB | JumpTable val

datatype branch = Br target | CondBr val target nat | ExitBB return_code

type_synonym jump_table = "(word256 \<times> nat) list"

definition jump_table :: "compiled_block list \<Rightarrow> jump_table" where
  "jump_table bs = map (\<lambda>(i, b). (of_nat (cb_first b), i)) (filter (\<lambda>(i, b). cb_isDest b) (enumerate 0 bs))"

definition find_case :: "jump_table \<Rightarrow> word256 \<Rightarrow> target" where
  "find_case table w = (case map_of table w of Some b \<Rightarrow> Block b | None \<Rightarrow> AbortBB)"

text \<open>\<^verbatim>\<open>resolveJumps\<close>: the branch at the end of the \<open>i\<close>-th block.\<close>

definition resolve_dest :: "jump_table \<Rightarrow> val \<Rightarrow> target" where
  "resolve_dest table destIdx =
     (case destIdx of Const c \<Rightarrow> find_case table c | _ \<Rightarrow> JumpTable destIdx)"

definition resolveJumps :: "jump_table \<Rightarrow> nat \<Rightarrow> terminator option \<Rightarrow> branch" where
  "resolveJumps table i trm =
     (case trm of
        None \<Rightarrow> Br (Block (i + 1))
      | Some (TJump destIdx) \<Rightarrow> Br (resolve_dest table destIdx)
      | Some (TJumpI destIdx cond) \<Rightarrow> CondBr cond (resolve_dest table destIdx) (i + 1)
      | Some (TExit rc) \<Rightarrow> ExitBB rc)"

record main_function =
  mf_blocks :: "(compiled_block \<times> branch) list"
  mf_jumpTable :: jump_table

definition compile :: "config \<Rightarrow> byte list \<Rightarrow> main_function" where
  "compile cfg code =
     (let bs = map (compileBasicBlock cfg code) (createBasicBlocks code);
          table = jump_table bs
      in \<lparr> mf_blocks = map (\<lambda>(i, b). (b, resolveJumps table i (cb_term b))) (enumerate 0 bs), mf_jumpTable = table \<rparr>)"

section \<open>Running it\<close>

type_synonym regs = "nat \<Rightarrow> word256"

text \<open>The value of an SSA value; \<open>sp\<close> is the stack pointer at the block's entry, \<open>base\<close> the stack.\<close>

fun eval_val :: "word256 list \<Rightarrow> nat \<Rightarrow> regs \<Rightarrow> val \<Rightarrow> word256" where
  "eval_val base sp regs (Const c) = c"
| "eval_val base sp regs (Slot k) = base ! (sp - 1 - k)"
| "eval_val base sp regs (Reg n) = regs n"

fun ssa_of :: "(val \<Rightarrow> word256) \<Rightarrow> val \<Rightarrow> word256 ssa" where
  "ssa_of ev (Const c) = ConstantInt c"
| "ssa_of ev v = Inst (ev v)"

type_synonym 'h run_state = "regs \<times> 'h rt_state"

fun exec_op :: "'h env \<Rightarrow> (regs \<Rightarrow> val \<Rightarrow> word256) \<Rightarrow> op \<Rightarrow> 'h run_state \<Rightarrow> 'h run_state outcome" where
  "exec_op e ev (Eval n inst vs) (regs, s) =
     obind (exec_value e inst (map (ssa_of (ev regs)) vs) s) (\<lambda>(w, s1). Done (regs(n := w), s1))"
| "exec_op e ev (Do inst vs) (regs, s) =
     obind (exec_effect e inst (map (ssa_of (ev regs)) vs) s) (\<lambda>s1. Done (regs, s1))"
| "exec_op e ev (MemRequire off len) (regs, s) =
     obind (on_mem (require (e_machine e) (ev regs off) (ssa_of (ev regs) len)) s) (\<lambda>s1. Done (regs, s1))"
| "exec_op e ev (CountExp exponent) (regs, s) =
     obind (on_gas (\<lambda>g. countExp (e_rev e) g (ev regs exponent)) s) (\<lambda>s1. Done (regs, s1))"

fun exec_emitted :: "'h env \<Rightarrow> (regs \<Rightarrow> val \<Rightarrow> word256) \<Rightarrow> op emitted \<Rightarrow> 'h run_state \<Rightarrow> 'h run_state outcome" where
  "exec_emitted e ev (GasCheck cost) (regs, s) =
     obind (on_gas (\<lambda>g. gas_check g (map_option of_int cost)) s) (\<lambda>s1. Done (regs, s1))"
| "exec_emitted e ev (Emit a) st = exec_op e ev a st"

fun exec_code :: "'h env \<Rightarrow> (regs \<Rightarrow> val \<Rightarrow> word256) \<Rightarrow> op emitted list \<Rightarrow> 'h run_state \<Rightarrow> 'h run_state outcome" where
  "exec_code e ev [] st = Done st"
| "exec_code e ev (x # xs) st = obind (exec_emitted e ev x st) (exec_code e ev xs)"

definition run_target :: "jump_table \<Rightarrow> (val \<Rightarrow> word256) \<Rightarrow> target \<Rightarrow> nat + return_code" where
  "run_target table ev t =
     (case t of
        Block b \<Rightarrow> Inl b
      | AbortBB \<Rightarrow> Inr OutOfGas
      | JumpTable v \<Rightarrow> (case find_case table (ev v) of Block b \<Rightarrow> Inl b | _ \<Rightarrow> Inr OutOfGas))"

definition run_branch :: "jump_table \<Rightarrow> (val \<Rightarrow> word256) \<Rightarrow> branch \<Rightarrow> nat + return_code" where
  "run_branch table ev br =
     (case br of
        Br t \<Rightarrow> run_target table ev t
      | CondBr cond t next \<Rightarrow> if ev cond \<noteq> 0 then run_target table ev t else Inl next
      | ExitBB rc \<Rightarrow> Inr rc)"

text \<open>The run-time stack: the words from its base and the number of items.\<close>

type_synonym stack_mem = "word256 list \<times> i64"

definition run_block ::
    "'h env \<Rightarrow> jump_table \<Rightarrow> compiled_block \<times> branch \<Rightarrow> stack_mem \<Rightarrow> 'h rt_state \<Rightarrow>
     ((nat + return_code) \<times> stack_mem \<times> 'h rt_state) outcome" where
  "run_block e table = (\<lambda>(b, br) (base, sz) s.
     obind (stack_prepare sz (word_of_int (cb_min b)) (word_of_int (cb_max b)) (word_of_int (cb_size b))) (\<lambda>(newSize, sp).
     (let ev = eval_val base (unat sp)
      in obind (exec_code e ev (cb_code b) (\<lambda>_. 0, s)) (\<lambda>(regs, s1).
         (let base1 = stack_stores (unat sp) (map (map_prod id (ev regs)) (cb_stores b)) base
          in Done (run_branch table (ev regs) br, (base1, newSize), s1))))))"

text \<open>
  The main function from block \<open>i\<close> on, with fuel for the number of blocks entered.  \<open>LongJmp\<close> is the
  second return of \<^verbatim>\<open>setjmp\<close>, after which "Abort" returns \<open>OutOfGas\<close>.
\<close>

fun run_main ::
    "nat \<Rightarrow> 'h env \<Rightarrow> main_function \<Rightarrow> nat \<Rightarrow> stack_mem \<Rightarrow> 'h rt_state \<Rightarrow> (return_code \<times> 'h rt_state) outcome option" where
  "run_main 0 e mf i st s = None"
| "run_main (Suc fuel) e mf i st s =
     (if i < length (mf_blocks mf) then
        (case run_block e (mf_jumpTable mf) (mf_blocks mf ! i) st s of
           Done (Inl j, st1, s1) \<Rightarrow> run_main fuel e mf j st1 s1
         | Done (Inr rc, st1, s1) \<Rightarrow> Some (Done (rc, s1))
         | LongJmp \<Rightarrow> Some LongJmp
         | Undefined \<Rightarrow> Some Undefined)
      else Some (Done (Stop, s)))"

end
