(* ===== verification/Metering.thy ===== *)
theory Metering
  imports Prepay Compiler
begin

text \<open>
  The emitted operations of \<open>Opcodes\<close> fulfil the contract of \<open>metered_machine\<close>: they keep the
  run-time state well-formed, never create gas, and, but for the ones that the compiler puts behind a
  commit (\<^verbatim>\<open>GAS\<close>, \<^verbatim>\<open>CREATE\<close> and the calls), they do not look at the gas counter, so that paying
  before them or after them is the same.
\<close>

section \<open>Well-formed states\<close>

definition env_ok :: "'h env \<Rightarrow> bool" where
  "env_ok e \<longleftrightarrow>
     2 ^ 33 \<le> heap_limit (e_machine e) \<and> host_ok (e_host e) \<and>
     rd_callDataSize (e_data e) = of_nat (length (rd_callData (e_data e))) \<and> length (rd_callData (e_data e)) < 2 ^ 63 \<and>
     rd_codeSize (e_data e) = length (rd_code (e_data e)) \<and> length (rd_code (e_data e)) < 2 ^ 48"

lemma env_okD:
  assumes "env_ok e"
  shows "2 ^ 33 \<le> heap_limit (e_machine e)" "host_ok (e_host e)"
    "rd_callDataSize (e_data e) = of_nat (length (rd_callData (e_data e)))" "length (rd_callData (e_data e)) < 2 ^ 63"
    "rd_codeSize (e_data e) = length (rd_code (e_data e))" "length (rd_code (e_data e)) < 2 ^ 48"
  using assms unfolding env_ok_def by blast+

definition rt_ok :: "'h rt_state \<Rightarrow> bool" where
  "rt_ok s \<longleftrightarrow> state_ok (rt_mem s, rt_gas s) \<and> length (rt_returnBuf s) < 2 ^ 63"

definition rt_budget :: "'h rt_state \<Rightarrow> nat" where
  "rt_budget s = budget (rt_mem s) (rt_gas s)"

lemma rt_okD:
  assumes "rt_ok s"
  shows "state_ok (rt_mem s, rt_gas s)" "gas_ok (rt_gas s)" "unat (rt_gas s) < 2 ^ 47" "mem_ok (rt_mem s)"
    "length (rt_returnBuf s) < 2 ^ 63"
  using assms state_ok_bounds [of "rt_mem s" "rt_gas s"] by (simp_all add: rt_ok_def)

text \<open>Paying \<open>n\<close>.\<close>

definition pay :: "nat \<Rightarrow> 'h rt_state \<Rightarrow> 'h rt_state outcome" where
  "pay n s = on_gas (\<lambda>g. charge g n) s"

lemma pay_eq: "pay n s = (if n \<le> unat (rt_gas s) then Done (s\<lparr> rt_gas := rt_gas s - of_nat n \<rparr>) else LongJmp)"
  by (simp add: pay_def on_gas_def charge_def)

lemma pay_zero [simp]: "pay 0 s = Done s"
  by (simp add: pay_eq)

lemma pay_twice: "obind (pay m s) (pay n) = pay (m + n) s"
  by (auto simp: pay_eq unat_charge algebra_simps)

lemma pay_ok:
  assumes "rt_ok s" "pay n s = Done s'"
  shows "rt_ok s'" "rt_budget s' = rt_budget s - n"
  using assms unat_charge [of n "rt_gas s"]
  by (auto simp: pay_eq rt_ok_def rt_budget_def budget_def state_ok_def split: if_split_asm)

section \<open>Steady operations\<close>

text \<open>Operations that keep the state and a payment commutes with.\<close>

definition keeps :: "('h rt_state \<Rightarrow> 'h rt_state outcome) \<Rightarrow> bool" where
  "keeps f \<longleftrightarrow> (\<forall>s s'. rt_ok s \<longrightarrow> f s = Done s' \<longrightarrow> rt_ok s' \<and> rt_budget s' \<le> rt_budget s)"

definition keeps_v :: "('h rt_state \<Rightarrow> ('x \<times> 'h rt_state) outcome) \<Rightarrow> bool" where
  "keeps_v f \<longleftrightarrow> (\<forall>s x s'. rt_ok s \<longrightarrow> f s = Done (x, s') \<longrightarrow> rt_ok s' \<and> rt_budget s' \<le> rt_budget s)"

definition steady :: "('h rt_state \<Rightarrow> 'h rt_state outcome) \<Rightarrow> bool" where
  "steady f \<longleftrightarrow> keeps f \<and> (\<forall>s n. rt_ok s \<longrightarrow> refines (obind (f s) (pay n)) (obind (pay n s) f))"

definition steady_v :: "('h rt_state \<Rightarrow> ('x \<times> 'h rt_state) outcome) \<Rightarrow> bool" where
  "steady_v f \<longleftrightarrow> keeps_v f \<and>
     (\<forall>s n. rt_ok s \<longrightarrow> refines (obind (f s) (\<lambda>(x, s1). obind (pay n s1) (\<lambda>s2. Done (x, s2)))) (obind (pay n s) f))"

named_theorems steady \<open>operations that a payment commutes with\<close>

lemma keepsD: "keeps f \<Longrightarrow> rt_ok s \<Longrightarrow> f s = Done s' \<Longrightarrow> rt_ok s' \<and> rt_budget s' \<le> rt_budget s"
  by (auto simp: keeps_def)

lemma keeps_vD: "keeps_v f \<Longrightarrow> rt_ok s \<Longrightarrow> f s = Done (x, s') \<Longrightarrow> rt_ok s' \<and> rt_budget s' \<le> rt_budget s"
  by (auto simp: keeps_v_def)

lemma steady_keeps: "steady f \<Longrightarrow> keeps f"
  by (simp add: steady_def)

lemma steady_v_keeps: "steady_v f \<Longrightarrow> keeps_v f"
  by (simp add: steady_v_def)

lemma steadyD: "steady f \<Longrightarrow> rt_ok s \<Longrightarrow> refines (obind (f s) (pay n)) (obind (pay n s) f)"
  by (simp add: steady_def)

lemma steady_vD: "steady_v f \<Longrightarrow> rt_ok s \<Longrightarrow>
   refines (obind (f s) (\<lambda>(x, s1). obind (pay n s1) (\<lambda>s2. Done (x, s2)))) (obind (pay n s) f)"
  by (simp add: steady_v_def)

lemma keeps_cong: "(\<And>s. rt_ok s \<Longrightarrow> f s = g s) \<Longrightarrow> keeps g \<Longrightarrow> keeps f"
  by (auto simp: keeps_def)

lemma keeps_v_cong: "(\<And>s. rt_ok s \<Longrightarrow> f s = g s) \<Longrightarrow> keeps_v g \<Longrightarrow> keeps_v f"
  by (auto simp: keeps_v_def)

lemma pay_cong: "(\<And>s. rt_ok s \<Longrightarrow> f s = g s) \<Longrightarrow> rt_ok s \<Longrightarrow> obind (pay n s) f = obind (pay n s) g"
  by (intro obind_cong refl) (auto dest: pay_ok)

lemma steady_cong:
  assumes "\<And>s. rt_ok s \<Longrightarrow> f s = g s" "steady g"
  shows "steady f"
  using assms keeps_cong [of f g] pay_cong [of f g] by (simp add: steady_def)

lemma steady_v_cong:
  assumes "\<And>s. rt_ok s \<Longrightarrow> f s = g s" "steady_v g"
  shows "steady_v f"
  using assms keeps_v_cong [of f g] pay_cong [of f g] by (simp add: steady_v_def)

lemma keeps_seq: "keeps f \<Longrightarrow> keeps g \<Longrightarrow> keeps (\<lambda>s. obind (f s) g)"
  unfolding keeps_def obind_eq_Done_iff by (blast intro: order_trans)

lemma keeps_seq_v: "keeps f \<Longrightarrow> keeps_v g \<Longrightarrow> keeps_v (\<lambda>s. obind (f s) g)"
  unfolding keeps_def keeps_v_def obind_eq_Done_iff by (blast intro: order_trans)

lemma keeps_v_bind:
  assumes "keeps_v f" "\<And>x. keeps (g x)"
  shows "keeps (\<lambda>s. obind (f s) (\<lambda>(x, s1). g x s1))"
  unfolding keeps_def
proof (intro allI impI)
  fix s s' :: "'a rt_state"
  assume s: "rt_ok s" and "obind (f s) (\<lambda>(x, s1). g x s1) = Done s'"
  then obtain x s1 where r: "f s = Done (x, s1)" "g x s1 = Done s'" by (auto simp: obind_eq_Done_iff)
  note s1 = keeps_vD [OF assms(1) s r(1)]
  then show "rt_ok s' \<and> rt_budget s' \<le> rt_budget s"
    using keepsD [OF assms(2) _ r(2)] by force
qed

lemma steady_seq [steady]:
  assumes "steady f" "steady g"
  shows "steady (\<lambda>s. obind (f s) g)"
  unfolding steady_def
proof (intro conjI allI impI)
  show "keeps (\<lambda>s. obind (f s) g)" using assms by (intro keeps_seq) (simp_all add: steady_def)
  fix s :: "'a rt_state" and n
  assume s: "rt_ok s"
  have "refines (obind (obind (f s) g) (pay n)) (obind (obind (f s) (pay n)) g)"
    unfolding obind_assoc
    using assms(2) keepsD [OF steady_keeps [OF assms(1)] s] by (intro refines_bind_right) (auto simp: steady_def)
  also have "refines \<dots> (obind (obind (pay n s) f) g)"
    using assms(1) s by (intro refines_bind_left) (simp add: steady_def)
  finally show "refines (obind (obind (f s) g) (pay n)) (obind (pay n s) (\<lambda>s. obind (f s) g))"
    by (simp add: obind_assoc)
qed

lemma steady_seq_v [steady]:
  assumes "steady f" "steady_v g"
  shows "steady_v (\<lambda>s. obind (f s) g)"
  unfolding steady_v_def
proof (intro conjI allI impI)
  let ?K = "\<lambda>n (x, s1). obind (pay n s1) (\<lambda>s2. Done (x, s2))"
  show "keeps_v (\<lambda>s. obind (f s) g)" using assms by (intro keeps_seq_v) (simp_all add: steady_def steady_v_def)
  fix s :: "'a rt_state" and n
  assume s: "rt_ok s"
  have "refines (obind (obind (f s) g) (?K n)) (obind (obind (f s) (pay n)) g)"
    unfolding obind_assoc
    using assms(2) keepsD [OF steady_keeps [OF assms(1)] s] by (intro refines_bind_right) (auto simp: steady_v_def)
  also have "refines \<dots> (obind (obind (pay n s) f) g)"
    using assms(1) s by (intro refines_bind_left) (simp add: steady_def)
  finally show "refines (obind (obind (f s) g) (?K n)) (obind (pay n s) (\<lambda>s. obind (f s) g))"
    by (simp add: obind_assoc)
qed

text \<open>Payments, updates and values that do not depend on the gas counter.\<close>

definition gasless :: "('h rt_state \<Rightarrow> 'x) \<Rightarrow> bool" where
  "gasless f \<longleftrightarrow> (\<forall>s g. f (s\<lparr> rt_gas := g \<rparr>) = f s)"

lemma gaslessI [intro]: "(\<And>s g. f (s\<lparr> rt_gas := g \<rparr>) = f s) \<Longrightarrow> gasless f"
  by (simp add: gasless_def)

lemma gaslessD: "gasless f \<Longrightarrow> f (s\<lparr> rt_gas := g \<rparr>) = f s"
  by (simp add: gasless_def)

lemma steady_pay [steady]: "gasless c \<Longrightarrow> steady (\<lambda>s. pay (c s) s)"
proof -
  assume c: "gasless c"
  have "obind (pay (c s) s) (pay n) = obind (pay n s) (\<lambda>s. pay (c s) s)" for s n
  proof -
    have "obind (pay n s) (\<lambda>s. pay (c s) s) = obind (pay n s) (pay (c s))"
      by (rule obind_cong) (auto simp: pay_eq gaslessD [OF c] split: if_split_asm)
    then show ?thesis by (simp add: pay_twice add.commute)
  qed
  then show ?thesis by (auto simp: steady_def keeps_def dest: pay_ok)
qed

lemma steady_pay_const [steady]: "steady (pay n)"
  using steady_pay [of "\<lambda>_. n"] by (simp add: gaslessI)

lemma steady_Done [steady]:
  assumes "\<And>s g. u (s\<lparr> rt_gas := g \<rparr>) = (u s)\<lparr> rt_gas := g \<rparr>" "\<And>s. rt_gas (u s) = rt_gas s"
    and "\<And>s. rt_ok s \<Longrightarrow> rt_ok (u s) \<and> rt_budget (u s) \<le> rt_budget s"
  shows "steady (\<lambda>s. Done (u s))"
  using assms by (auto simp: steady_def keeps_def pay_eq)

lemma steady_v_value [steady]:
  assumes "gasless h"
  shows "steady_v (\<lambda>s. obind (h s) (\<lambda>x. Done (x, s)))"
proof -
  have "refines (obind (obind (h s) (\<lambda>x. Done (x, s))) (\<lambda>(x, s1). obind (pay n s1) (\<lambda>s2. Done (x, s2))))
      (obind (pay n s) (\<lambda>s. obind (h s) (\<lambda>x. Done (x, s))))" for s n
    using gaslessD [OF assms, where s = s] by (cases "h s") (simp_all add: pay_eq refines_def)
  then show ?thesis by (auto simp: steady_v_def keeps_v_def obind_eq_Done_iff)
qed

lemma steady_v_Done [steady]: "gasless x \<Longrightarrow> steady_v (\<lambda>s. Done (x s, s))"
  using steady_v_value [of "\<lambda>s. Done (x s)"] by (simp add: gasless_def)

lemma steady_v_bind [steady]:
  assumes "steady_v f" "\<And>x. steady (g x)"
  shows "steady (\<lambda>s. obind (f s) (\<lambda>(x, s1). g x s1))"
  unfolding steady_def
proof (intro conjI allI impI)
  show "keeps (\<lambda>s. obind (f s) (\<lambda>(x, s1). g x s1))"
    using steady_v_keeps [OF assms(1)] steady_keeps [OF assms(2)] by (rule keeps_v_bind)
  fix s :: "'a rt_state" and n
  assume s: "rt_ok s"
  let ?K = "\<lambda>(x, s1). obind (pay n s1) (\<lambda>s2. Done (x, s2))" and ?G = "\<lambda>(x, s1). g x s1"
  have "refines (obind (obind (f s) ?G) (pay n)) (obind (obind (f s) ?K) ?G)"
    unfolding obind_assoc
    using assms(2) keeps_vD [OF steady_v_keeps [OF assms(1)] s]
    by (intro refines_bind_right) (auto simp: steady_def obind_assoc)
  also have "refines \<dots> (obind (obind (pay n s) f) ?G)"
    using assms(1) s by (intro refines_bind_left) (simp add: steady_v_def)
  finally show "refines (obind (obind (f s) ?G) (pay n)) (obind (pay n s) (\<lambda>s. obind (f s) ?G))"
    by (simp add: obind_assoc)
qed

section \<open>The operations in terms of payments\<close>

text \<open>Requiring memory pays for the growth and grows.\<close>

definition req_cost :: "word256 \<Rightarrow> word256 \<Rightarrow> 'h rt_state \<Rightarrow> nat" where
  "req_cost off len s =
     Cmem (max (mem_words (rt_mem s)) (words_needed (unat off) (unat len))) - Cmem (mem_words (rt_mem s))"

definition rt_require :: "word256 \<Rightarrow> word256 \<Rightarrow> 'h rt_state \<Rightarrow> 'h rt_state outcome" where
  "rt_require off len s =
     obind (pay (req_cost off len s) s) (\<lambda>s1. Done (s1\<lparr> rt_mem := grow (words_needed (unat off) (unat len)) (rt_mem s1) \<rparr>))"

lemma on_mem_evm_require: "on_mem (evm_require (unat off) (unat len)) s = rt_require off len s"
proof -
  define k where "k = req_cost off len s"
  have "Cmem (max (mem_words (rt_mem s)) (words_needed (unat off) (unat len))) - Cmem (mem_words (rt_mem s)) = k"
    by (simp add: k_def req_cost_def)
  then show ?thesis
    by (cases "k \<le> unat (rt_gas s)")
      (simp_all only: on_mem_def evm_require_def rt_require_def k_def [symmetric] pay_eq charge_def Let_def prod.case
        if_True if_False obind.simps, simp_all)
qed

lemma rt_require_fun:
  "rt_require off len = (\<lambda>s. obind (pay (req_cost off len s) s)
     (\<lambda>s1. Done (s1\<lparr> rt_mem := grow (words_needed (unat off) (unat len)) (rt_mem s1) \<rparr>)))"
  by (rule ext) (simp add: rt_require_def)

lemma on_mem_require:
  "env_ok e \<Longrightarrow> rt_ok s \<Longrightarrow> on_mem (require (e_machine e) off len) s = rt_require off (ssa_value len) s"
  unfolding on_mem_evm_require [symmetric]
  by (simp add: on_mem_def require_eq_evm [OF rt_okD(1) env_okD(1)])

lemma rt_require_Done:
  assumes "rt_ok s" "rt_require off len s = Done s1"
  shows "rt_ok s1" "rt_budget s1 = rt_budget s" "unat len < 2 ^ 33"
    "unat len \<noteq> 0 \<Longrightarrow> unat off + unat len \<le> length (a_data (rt_mem s1)) \<and> unat off + unat len < 2 ^ 33"
    "rt_returnBuf s1 = rt_returnBuf s"
proof -
  have r: "on_mem (evm_require (unat off) (unat len)) s = Done s1" using assms(2) by (simp add: on_mem_evm_require)
  then obtain m g where e: "evm_require (unat off) (unat len) (rt_mem s, rt_gas s) = Done (m, g)"
    and s1: "s1 = s\<lparr> rt_mem := m, rt_gas := g \<rparr>" by (auto simp: on_mem_def obind_eq_Done_iff)
  note d = evm_require_Done [OF rt_okD(1) [OF assms(1)] e]
  show "rt_ok s1" "rt_budget s1 = rt_budget s" "rt_returnBuf s1 = rt_returnBuf s"
    using d(1,2) assms(1) by (simp_all add: s1 rt_ok_def rt_budget_def)
  show "unat len < 2 ^ 33" using evm_require_small [OF rt_okD(1) [OF assms(1)] e] .
  show "unat len \<noteq> 0 \<Longrightarrow> unat off + unat len \<le> length (a_data (rt_mem s1)) \<and> unat off + unat len < 2 ^ 33"
    using evm_require_access [OF rt_okD(1) [OF assms(1)] e] by (simp add: s1)
qed

lemma steady_rt_require [steady]: "steady (rt_require off len)"
proof -
  let ?c = "req_cost off len :: 'a rt_state \<Rightarrow> nat"
    and ?u = "\<lambda>s1 :: 'a rt_state. s1\<lparr> rt_mem := grow (words_needed (unat off) (unat len)) (rt_mem s1) \<rparr>"
  have "keeps (rt_require off len :: 'a rt_state \<Rightarrow> _)" by (auto simp: keeps_def dest: rt_require_Done)
  moreover have "obind (rt_require off len s) (pay n) = obind (pay n s) (rt_require off len)" for s :: "'a rt_state" and n
  proof -
    have "obind (pay n s) (rt_require off len) = obind (obind (pay n s) (\<lambda>s. pay (?c s) s)) (\<lambda>s1. Done (?u s1))"
      by (simp add: rt_require_fun obind_assoc)
    also have "obind (pay n s) (\<lambda>s. pay (?c s) s) = obind (pay (?c s) s) (pay n)"
    proof -
      have "obind (pay n s) (\<lambda>s. pay (?c s) s) = obind (pay n s) (pay (?c s))"
        by (rule obind_cong) (auto simp: pay_eq req_cost_def split: if_split_asm)
      then show ?thesis by (simp add: pay_twice add.commute)
    qed
    also have "obind (obind (pay (?c s) s) (pay n)) (\<lambda>s1. Done (?u s1)) = obind (rt_require off len s) (pay n)"
      unfolding rt_require_def obind_assoc by (rule obind_cong) (auto simp: pay_eq)
    finally show ?thesis by simp
  qed
  ultimately show ?thesis by (simp add: steady_def)
qed

text \<open>Writing to the memory.\<close>

definition put_mem :: "nat \<Rightarrow> byte list \<Rightarrow> 'h rt_state \<Rightarrow> 'h rt_state" where
  "put_mem p bs s = s\<lparr> rt_mem := write_mem p bs (rt_mem s) \<rparr>"

lemma put_mem_ok:
  assumes "rt_ok s" "bs \<noteq> [] \<Longrightarrow> p + length bs \<le> length (a_data (rt_mem s))"
  shows "rt_ok (put_mem p bs s)" "rt_budget (put_mem p bs s) = rt_budget s"
  using assms state_ok_write_mem [of "rt_mem s" "rt_gas s" bs p] by (auto simp: rt_ok_def put_mem_def rt_budget_def budget_def)

text \<open>A write after the memory is required, which makes room for it.\<close>

lemma rt_require_same:
  assumes "rt_require off len s = Done s1"
  shows "rt_host s1 = rt_host s" "rt_returnBuf s1 = rt_returnBuf s" "rt_txCtx s1 = rt_txCtx s"
  using assms by (auto simp: rt_require_def pay_eq obind_eq_Done_iff split: if_split_asm)

lemma steady_require_put:
  assumes bs: "gasless bs" "\<And>s. length (bs s) = unat len"
  shows "steady (\<lambda>s. obind (rt_require off len s) (\<lambda>s1. Done (put_mem (unat off) (bs s1) s1)))"
    (is "steady (\<lambda>s. obind (rt_require off len s) ?put)")
proof -
  have "keeps (\<lambda>s. obind (rt_require off len s) ?put)"
    unfolding keeps_def
  proof (intro allI impI)
    fix s s' :: "'a rt_state"
    assume s: "rt_ok s" and "obind (rt_require off len s) ?put = Done s'"
    then obtain s1 where s1: "rt_require off len s = Done s1" and s': "s' = put_mem (unat off) (bs s1) s1"
      by (auto simp: obind_eq_Done_iff)
    note d = rt_require_Done [OF s s1]
    have "bs s1 \<noteq> [] \<Longrightarrow> unat off + length (bs s1) \<le> length (a_data (rt_mem s1))"
      using d(4) bs(2) [of s1] by (metis length_0_conv)
    then show "rt_ok s' \<and> rt_budget s' \<le> rt_budget s" using put_mem_ok [OF d(1)] d(2) by (simp add: s')
  qed
  moreover have "refines (obind (obind (rt_require off len s) ?put) (pay n))
      (obind (pay n s) (\<lambda>s. obind (rt_require off len s) ?put))"
    if "rt_ok s" for s :: "'a rt_state" and n
  proof -
    have "obind (obind (rt_require off len s) ?put) (pay n) = obind (obind (rt_require off len s) (pay n)) ?put"
      unfolding obind_assoc by (rule obind_cong) (auto simp: pay_eq put_mem_def gaslessD [OF bs(1)])
    also have "refines \<dots> (obind (obind (pay n s) (rt_require off len)) ?put)"
      using that by (intro refines_bind_left steadyD [OF steady_rt_require])
    finally show ?thesis by (simp add: obind_assoc)
  qed
  ultimately show ?thesis by (simp add: steady_def)
qed

lemma put_mem_gas [simp]: "rt_gas (put_mem p bs s) = rt_gas s" "(put_mem p bs s)\<lparr> rt_gas := g \<rparr> = put_mem p bs (s\<lparr> rt_gas := g \<rparr>)"
  "rt_host (put_mem p bs s) = rt_host s" "rt_returnBuf (put_mem p bs s) = rt_returnBuf s"
  by (simp_all add: put_mem_def)

lemma pay_put_mem: "obind (pay n s) (\<lambda>s. Done (put_mem p bs s)) = obind (Done (put_mem p bs s)) (pay n)"
  by (simp add: pay_eq)

text \<open>Choices and updates from values that do not depend on the gas counter.\<close>

lemma keeps_if:
  assumes "keeps f" "keeps g"
  shows "keeps (\<lambda>s. if P s then f s else g s)"
  unfolding keeps_def
proof (intro allI impI)
  fix s s' :: "'a rt_state"
  assume "rt_ok s" "(if P s then f s else g s) = Done s'"
  then show "rt_ok s' \<and> rt_budget s' \<le> rt_budget s"
    using keepsD [OF assms(1), of s s'] keepsD [OF assms(2), of s s'] by (simp split: if_split_asm)
qed

lemma steady_if:
  assumes P: "gasless P" and "steady f" "steady g"
  shows "steady (\<lambda>s. if P s then f s else g s)"
proof -
  have "obind (pay n s) (\<lambda>s. if P s then f s else g s) = (if P s then obind (pay n s) f else obind (pay n s) g)" for n s
    using gaslessD [OF P, where s = s] by (simp add: pay_eq)
  then have "refines (obind (if P s then f s else g s) (pay n)) (obind (pay n s) (\<lambda>s. if P s then f s else g s))"
    if "rt_ok s" for s n
    using steadyD [OF assms(2) that, of n] steadyD [OF assms(3) that, of n] by (cases "P s") simp_all
  moreover have "keeps (\<lambda>s. if P s then f s else g s)"
    using steady_keeps [OF assms(2)] steady_keeps [OF assms(3)] by (rule keeps_if)
  ultimately show ?thesis by (simp add: steady_def)
qed

lemma steady_update:
  assumes "gasless h"
    and "\<And>x s g. u x (s\<lparr> rt_gas := g \<rparr>) = (u x s)\<lparr> rt_gas := g \<rparr>" "\<And>x s. rt_gas (u x s) = rt_gas s"
    and "\<And>x s. rt_ok s \<Longrightarrow> rt_ok (u x s) \<and> rt_budget (u x s) \<le> rt_budget s"
  shows "steady (\<lambda>s. obind (h s) (\<lambda>x. Done (u x s)))"
proof -
  have "steady (\<lambda>s. obind (obind (h s) (\<lambda>x. Done (x, s))) (\<lambda>(x, s1). Done (u x s1)))"
  proof (rule steady_v_bind [OF steady_v_value [OF assms(1)]])
    show "steady (\<lambda>s1. Done (u x s1))" for x
      by (rule steady_Done [of "u x"], fact assms(2), fact assms(3), use assms(4) in blast)
  qed
  then show ?thesis by (simp add: obind_assoc)
qed

section \<open>The operations of the opcodes\<close>

lemma on_gas_pay: "f (rt_gas s) = charge (rt_gas s) n \<Longrightarrow> on_gas f s = pay n s"
  by (simp add: on_gas_def pay_def)

lemma on_gas_count64: "rt_ok s \<Longrightarrow> unat c < 2 ^ 63 \<Longrightarrow> on_gas (\<lambda>g. count64 g (Some c)) s = pay (unat c) s"
  by (rule on_gas_pay) (simp add: count64_charge rt_okD)

lemma on_gas_count256: "rt_ok s \<Longrightarrow> on_gas (\<lambda>g. count256 g (Some c)) s = pay (unat c) s"
  by (rule on_gas_pay) (simp add: count256_charge rt_okD)

lemma on_gas_countExp:
  "rt_ok s \<Longrightarrow> on_gas (\<lambda>g. countExp m_rev g x) s = pay (nat (exponentByteCost m_rev) * exp_bytes x) s"
  by (rule on_gas_pay) (simp add: countExp_charge rt_okD)

lemma on_gas_countSha3Data:
  "rt_ok s \<Longrightarrow> unat n < 2 ^ 33 \<Longrightarrow> on_gas (\<lambda>g. countSha3Data g n) s = pay (6 * word_count (unat n)) s"
  by (rule on_gas_pay, rule countSha3Data_charge) (simp_all add: rt_okD word_count_def)

lemma on_gas_countLogData:
  "rt_ok s \<Longrightarrow> unat n < 2 ^ 33 \<Longrightarrow> on_gas (\<lambda>g. countLogData g n) s = pay (8 * unat n) s"
  by (rule on_gas_pay, rule countLogData_charge) (simp_all add: rt_okD)

text \<open>Going on after the memory is required.\<close>

lemma after_require:
  assumes "env_ok e" "rt_ok s"
    and "\<And>s1. rt_ok s1 \<Longrightarrow> unat (ssa_value len) < 2 ^ 33 \<Longrightarrow> rt_require off (ssa_value len) s = Done s1 \<Longrightarrow> f s1 = g s1"
  shows "obind (on_mem (require (e_machine e) off len) s) f = obind (rt_require off (ssa_value len) s) g"
  unfolding on_mem_require [OF assms(1,2)]
  by (rule obind_cong [OF refl]) (use rt_require_Done [OF assms(2)] assms(3) in blast)

lemma code_SHA3_eq:
  assumes "env_ok e" "rt_ok s"
  shows "code_SHA3 e args s =
    obind (rt_require (arg args 0) (arg args 1) s) (\<lambda>s1. obind (pay (6 * word_count (unat (arg args 1))) s1) (\<lambda>s2.
      obind (ext_sha3 e (arg args 0) (arg args 1) s2) (\<lambda>h. Done (h, s2))))"
  unfolding code_SHA3_def Let_def
  by (rule after_require [OF assms]) (simp add: on_gas_countSha3Data)

lemma code_MLOAD_eq:
  assumes "env_ok e" "rt_ok s"
  shows "code_MLOAD e args s = obind (rt_require (arg args 0) 32 s)
    (\<lambda>s1. Done (of_be (read_mem (unat (arg args 0)) 32 (rt_mem s1)), s1))"
  unfolding code_MLOAD_def on_mem_value_def loadWord_eq [OF rt_okD(1) [OF assms(2)] env_okD(1) [OF assms(1)]]
    on_mem_evm_require [symmetric] on_mem_def obind_assoc
  by (rule obind_cong) auto

lemma on_mem_store:
  assumes "f (rt_mem s, rt_gas s) =
    obind (evm_require (unat off) (unat len) (rt_mem s, rt_gas s)) (\<lambda>(m, g). Done (write_mem (unat off) bs m, g))"
  shows "on_mem f s = obind (rt_require off len s) (\<lambda>s1. Done (put_mem (unat off) bs s1))"
  unfolding on_mem_evm_require [symmetric] on_mem_def obind_assoc assms
  by (rule obind_cong) (auto simp: put_mem_def)

lemma code_MSTORE_eq:
  assumes "env_ok e" "rt_ok s"
  shows "code_MSTORE e args s =
    obind (rt_require (arg args 0) 32 s) (\<lambda>s1. Done (put_mem (unat (arg args 0)) (to_be (arg args 1)) s1))"
  unfolding code_MSTORE_def
  by (rule on_mem_store) (simp add: storeWord_eq [OF rt_okD(1) [OF assms(2)] env_okD(1) [OF assms(1)]])

lemma code_MSTORE8_eq:
  assumes "env_ok e" "rt_ok s"
  shows "code_MSTORE8 e args s =
    obind (rt_require (arg args 0) 1 s) (\<lambda>s1. Done (put_mem (unat (arg args 0)) [ucast (arg args 1)] s1))"
  unfolding code_MSTORE8_def
  by (rule on_mem_store) (simp add: storeByte_eq [OF rt_okD(1) [OF assms(2)] env_okD(1) [OF assms(1)]])

lemma code_SSTORE_eq:
  assumes "rt_ok s"
  shows "code_SSTORE e args s =
    obind (pay (sstore_cost (ext_sload e (arg args 0) s) (arg args 1)) s) (\<lambda>s1. Done (ext_sstore e (arg args 0) (arg args 1) s1))"
  using on_gas_pay [of "\<lambda>g. countSStore g (ext_sload e (arg args 0) s) (arg args 1)" s] assms
  by (simp add: code_SSTORE_def Let_def countSStore_charge rt_okD)

text \<open>Copies: the put can stand before the payment, where the memory has just been required.\<close>

definition rt_copy :: "word256 \<Rightarrow> word256 \<Rightarrow> ('h rt_state \<Rightarrow> byte list) \<Rightarrow> 'h rt_state \<Rightarrow> 'h rt_state outcome" where
  "rt_copy dest len bs s =
     obind (obind (rt_require dest len s) (\<lambda>s1. Done (put_mem (unat dest) (bs s1) s1))) (pay (3 * word_count (unat len)))"

lemma steady_rt_copy:
  "gasless bs \<Longrightarrow> (\<And>s. length (bs s) = unat len) \<Longrightarrow> steady (rt_copy dest len bs)"
  unfolding rt_copy_def [abs_def] by (intro steady_seq steady_require_put steady_pay_const)

lemma on_mem_copy:
  assumes "f (rt_mem s, rt_gas s) =
    obind (evm_require (unat dest) (unat len) (rt_mem s, rt_gas s)) (\<lambda>(m, g).
    obind (charge g (3 * word_count (unat len))) (\<lambda>g1. Done (write_mem (unat dest) w m, g1)))"
    and bs: "\<And>s1. rt_returnBuf s1 = rt_returnBuf s \<Longrightarrow> rt_host s1 = rt_host s \<Longrightarrow> bs s1 = w"
  shows "on_mem f s = rt_copy dest len bs s"
proof -
  let ?n = "3 * word_count (unat len)"
  have "rt_copy dest len bs s =
      obind (rt_require dest len s) (\<lambda>s1. obind (pay ?n s1) (\<lambda>s2. Done (put_mem (unat dest) w s2)))"
    unfolding rt_copy_def obind_assoc
    by (rule obind_cong [OF refl]) (simp add: bs rt_require_same pay_put_mem)
  also have "\<dots> = on_mem f s"
    unfolding on_mem_evm_require [symmetric] on_mem_def obind_assoc assms(1)
  proof (rule obind_cong [OF refl], goal_cases)
    case (1 x)
    then show ?case
      by (cases x, simp add: put_mem_def pay_def on_gas_def obind_assoc) (rule obind_cong [OF refl], simp)
  qed
  finally show ?thesis by simp
qed

lemma copyBytes_rt:
  assumes "env_ok e" "rt_ok s" "length (src s) < 2 ^ 63" "sz = of_nat (length (src s))"
    and src: "\<And>s1. rt_returnBuf s1 = rt_returnBuf s \<Longrightarrow> rt_host s1 = rt_host s \<Longrightarrow> src s1 = src s"
  shows "on_mem (copyBytes (e_machine e) (src s) sz srcIdx dest len) s =
    rt_copy dest (ssa_value len) (\<lambda>s. src_window (src s) (unat srcIdx) (unat (ssa_value len))) s"
proof (rule on_mem_copy)
  show "src_window (src s1) (unat srcIdx) (unat (ssa_value len)) = src_window (src s) (unat srcIdx) (unat (ssa_value len))"
    if "rt_returnBuf s1 = rt_returnBuf s" "rt_host s1 = rt_host s" for s1
    by (simp only: src [OF that])
qed (simp add: assms(4) copyBytes_eq [OF rt_okD(1) [OF assms(2)] env_okD(1) [OF assms(1)] assms(3)])

lemma ucast_of_nat_size: "n < 2 ^ 64 \<Longrightarrow> (ucast (of_nat n :: i64) :: word256) = of_nat n"
  by (rule word_eq_by_unat) (simp add: unat_of_nat_small unat_ucast_up)

lemma code_CALLDATACOPY_eq:
  assumes "env_ok e" "rt_ok s"
  shows "code_CALLDATACOPY e args s =
    rt_copy (arg args 0) (arg args 2) (\<lambda>s. src_window (getCallData e) (unat (arg args 1)) (unat (arg args 2))) s"
  unfolding code_CALLDATACOPY_def Let_def
  using env_okD(3,4) [OF assms(1)]
  by (intro copyBytes_rt [OF assms]) (simp_all add: getCallData_def getCallDataSize_def ucast_of_nat_size)

lemma code_CODECOPY_eq:
  assumes "env_ok e" "rt_ok s"
  shows "code_CODECOPY e args s =
    rt_copy (arg args 0) (arg args 2) (\<lambda>s. src_window (rd_code (e_data e)) (unat (arg args 1)) (unat (arg args 2))) s"
  unfolding code_CODECOPY_def Let_def
  using env_okD(5,6) [OF assms(1)]
  by (intro copyBytes_rt [OF assms]) (simp_all add: getCodeSize_def)

lemma getCode_bound: "env_ok e \<Longrightarrow> length (getCode (e_host e) h a) < 2 ^ 63"
  unfolding getCode_def Let_def
  by (rule le_less_trans [OF host_okD(4) [OF env_okD(2)] host_okD(5) [OF env_okD(2)]])

lemma code_EXTCODECOPY_eq:
  assumes "env_ok e" "rt_ok s"
  shows "code_EXTCODECOPY e args s =
    rt_copy (arg args 1) (arg args 3)
      (\<lambda>s. src_window (getCode (e_host e) (rt_host s) (addr_arg e (arg args 0))) (unat (arg args 2)) (unat (arg args 3))) s"
proof -
  note b = getCode_bound [OF assms(1), of "rt_host s" "addr_arg e (arg args 0)"]
  then have "length (getCode (e_host e) (rt_host s) (addr_arg e (arg args 0))) < 2 ^ 64" by simp
  then have code: "code_EXTCODECOPY e args s =
      on_mem (copyBytes (e_machine e) (getCode (e_host e) (rt_host s) (addr_arg e (arg args 0)))
        (of_nat (length (getCode (e_host e) (rt_host s) (addr_arg e (arg args 0))))) (arg args 2) (arg args 1) (args ! 3)) s"
    by (simp only: code_EXTCODECOPY_def Let_def ext_extcode_def ucast_of_nat_size prod.case)
  show ?thesis
    unfolding code by (rule copyBytes_rt [where src = "\<lambda>s. getCode (e_host e) (rt_host s) (addr_arg e (arg args 0))", OF assms b refl]) simp
qed

text \<open>\<^verbatim>\<open>RETURNDATACOPY\<close>, which is undefined outside of the buffer.\<close>

definition in_returnBuf :: "word256 \<Rightarrow> word256 \<Rightarrow> 'h rt_state \<Rightarrow> bool" where
  "in_returnBuf srcIdx len s \<longleftrightarrow> unat srcIdx + unat len \<le> length (rt_returnBuf s)"

definition returnBuf_window :: "word256 \<Rightarrow> word256 \<Rightarrow> 'h rt_state \<Rightarrow> byte list" where
  "returnBuf_window srcIdx len s =
     (if in_returnBuf srcIdx len s then take (unat len) (drop (unat srcIdx) (rt_returnBuf s)) else replicate (unat len) 0)"

lemma code_RETURNDATACOPY_eq:
  assumes "env_ok e" "rt_ok s"
  shows "code_RETURNDATACOPY e args s =
    (if in_returnBuf (arg args 1) (arg args 2) s
     then rt_copy (arg args 0) (arg args 2) (returnBuf_window (arg args 1) (arg args 2)) s
     else obind (rt_require (arg args 0) (arg args 2) s) (\<lambda>_. Undefined))"
proof (cases "in_returnBuf (arg args 1) (arg args 2) s")
  case True
  have sz: "(of_nat (length (rt_returnBuf s)) :: i64) = of_nat (length (rt_returnBuf s))" by simp
  show ?thesis
    unfolding code_RETURNDATACOPY_def Let_def if_P [OF True]
    using True rt_okD(5) [OF assms(2)]
    by (intro on_mem_copy)
      (simp_all add: copyBytesNoPadding_eq [OF rt_okD(1) [OF assms(2)] env_okD(1) [OF assms(1)]] in_returnBuf_def returnBuf_window_def)
next
  case False
  then show ?thesis
    using rt_okD(5) [OF assms(2)]
    by (simp add: code_RETURNDATACOPY_def Let_def on_mem_def in_returnBuf_def on_mem_evm_require [symmetric] obind_assoc
        copyBytesNoPadding_overrun [OF rt_okD(1) [OF assms(2)] env_okD(1) [OF assms(1)]] split_def)
qed

lemma code_RETURN_eq:
  assumes "env_ok e" "rt_ok s"
  shows "code_RETURN e args s =
    obind (rt_require (arg args 0) (arg args 1) s) (\<lambda>s1. Done (registerReturnData (arg args 0) (arg args 1) s1))"
  by (simp add: code_RETURN_def Let_def on_mem_require [OF assms])

lemma code_SUICIDE_eq:
  assumes "rt_ok s"
  shows "code_SUICIDE e args s =
    obind (pay (if e_rev e \<ge> EVMC_TANGERINE_WHISTLE then unat (suicide_penalty e (arg args 0) s) else 0) s)
      (\<lambda>s1. Done (ext_selfdestruct e (arg args 0) s1))"
proof -
  have "unat (suicide_penalty e (arg args 0) s) < 2 ^ 63"
    by (simp add: suicide_penalty_def Let_def schedule)
  then show ?thesis
    by (simp add: code_SUICIDE_def Let_def on_gas_count64 [OF assms])
qed

lemma code_LOG_eq:
  assumes "env_ok e" "rt_ok s"
  shows "code_LOG e n args s =
    obind (rt_require (arg args 0) (arg args 1) s) (\<lambda>s1. obind (pay (8 * unat (arg args 1)) s1)
      (ext_log e (arg args 0) (arg args 1) (map (\<lambda>i. arg args (2 + i)) [0..<n])))"
  unfolding code_LOG_def Let_def
  by (rule after_require [OF assms]) (simp add: on_gas_countLogData)

section \<open>Which operations are steady\<close>

lemma steady_Undefined: "steady (\<lambda>s. Undefined)" and steady_v_Undefined: "steady_v (\<lambda>s. Undefined)"
  by (simp_all add: steady_def steady_v_def keeps_def keeps_v_def)

lemma gasless_intros:
  "gasless (\<lambda>s. ext_sload e index s)" "gasless (\<lambda>s. ext_balance e a s)" "gasless (\<lambda>s. ext_exists e a s)"
  "gasless (\<lambda>s. ext_blockHash e n s)" "gasless (\<lambda>s. ext_extcodesize e a s)" "gasless (\<lambda>s. ext_sha3 e off len s)"
  "gasless (\<lambda>s. mem_slice (rt_mem s) off len)" "gasless (\<lambda>s. suicide_penalty e a s)"
  "gasless (in_returnBuf i n)" "gasless (returnBuf_window i n)"
  by (auto simp: ext_sload_def ext_balance_def ext_exists_def ext_blockHash_def ext_extcodesize_def ext_sha3_def
      suicide_penalty_def in_returnBuf_def returnBuf_window_def Let_def)

lemma rt_ok_host [simp]: "rt_ok (s\<lparr> rt_host := h \<rparr>) = rt_ok s" "rt_budget (s\<lparr> rt_host := h \<rparr>) = rt_budget s"
  by (simp_all add: rt_ok_def rt_budget_def)

lemma rt_ok_txCtx [simp]: "rt_ok (s\<lparr> rt_txCtx := t \<rparr>) = rt_ok s" "rt_budget (s\<lparr> rt_txCtx := t \<rparr>) = rt_budget s"
  by (simp_all add: rt_ok_def rt_budget_def)

lemma rt_ok_returnData [simp]:
  "rt_ok (s\<lparr> rt_returnData := d \<rparr>) = rt_ok s" "rt_budget (s\<lparr> rt_returnData := d \<rparr>) = rt_budget s"
  by (simp_all add: rt_ok_def rt_budget_def)

lemma steady_ext_log: "steady (ext_log e off len topics)"
  unfolding ext_log_def [abs_def]
  by (rule steady_update) (auto intro: gasless_intros)

lemma length_to_be256 [simp]: "length (to_be (w :: word256)) = 32"
  by simp

lemma exec_effect_steady:
  assumes e: "env_ok e"
  shows "steady (exec_effect e inst args)"
proof -
  let ?a = "arg args"
  have put: "steady (\<lambda>s. obind (rt_require off len s) (\<lambda>s1. Done (put_mem (unat off) bs s1)))"
    if "length bs = unat len" for off len bs
    by (rule steady_require_put [of "\<lambda>_. bs"]) (auto simp: that)
  have "steady (code_MSTORE e args)" "steady (code_MSTORE8 e args)"
    by (rule steady_cong [OF code_MSTORE_eq [OF e]], assumption, rule put, simp)
       (rule steady_cong [OF code_MSTORE8_eq [OF e]], assumption, rule put, simp)
  moreover have "steady (code_SSTORE e args)"
    by (rule steady_cong [OF code_SSTORE_eq], assumption, rule steady_seq [OF steady_pay steady_Done])
      (auto simp: ext_sstore_def gaslessD [OF gasless_intros(1)])
  moreover have "steady (code_CALLDATACOPY e args)" "steady (code_CODECOPY e args)"
    by (rule steady_cong [OF code_CALLDATACOPY_eq [OF e]], assumption, rule steady_rt_copy; auto)
       (rule steady_cong [OF code_CODECOPY_eq [OF e]], assumption, rule steady_rt_copy; auto)
  moreover have "steady (code_EXTCODECOPY e args)"
    by (rule steady_cong [OF code_EXTCODECOPY_eq [OF e]], assumption, rule steady_rt_copy; auto)
  moreover have "steady (code_RETURNDATACOPY e args)"
    by (rule steady_cong [OF code_RETURNDATACOPY_eq [OF e]], assumption)
      (intro steady_if steady_rt_copy steady_seq steady_rt_require steady_Undefined gasless_intros,
        auto simp: returnBuf_window_def in_returnBuf_def)
  moreover have "steady (code_RETURN e args)"
    by (rule steady_cong [OF code_RETURN_eq [OF e]], assumption, rule steady_seq [OF steady_rt_require steady_Done])
      (auto simp: registerReturnData_def)
  moreover have "steady (code_SUICIDE e args)"
    by (rule steady_cong [OF code_SUICIDE_eq], assumption, rule steady_seq [OF steady_pay steady_Done])
      (auto simp: ext_selfdestruct_def gaslessD [OF gasless_intros(8)])
  moreover have "steady (code_LOG e n args)" for n
    by (rule steady_cong [OF code_LOG_eq [OF e]], assumption)
      (intro steady_seq steady_rt_require steady_pay_const steady_ext_log)
  ultimately show ?thesis
    by (cases inst) (simp_all add: exec_effect_def [abs_def] steady_Undefined)
qed

text \<open>The values; those behind a commit are only known to keep the state.\<close>

definition behind_commit :: "instruction \<Rightarrow> bool" where
  "behind_commit inst \<longleftrightarrow> inst \<in> {GAS, CREATE, CALL, CALLCODE, DELEGATECALL, STATICCALL}"

lemma steady_v_loadTxCtx: "steady_v (\<lambda>s. Done (getTxContextItem e i s))"
proof -
  let ?f = "\<lambda>s. getTxContextItem e i s"
  have upd: "fst (?f (s\<lparr> rt_gas := g \<rparr>)) = fst (?f s)" "snd (?f (s\<lparr> rt_gas := g \<rparr>)) = (snd (?f s))\<lparr> rt_gas := g \<rparr>"
    "rt_gas (snd (?f s)) = rt_gas s" for s g
    by (simp_all add: getTxContextItem_def loadTxCtx_def Let_def split: option.split)
  have ok: "rt_ok s \<Longrightarrow> rt_ok (snd (?f s)) \<and> rt_budget (snd (?f s)) \<le> rt_budget s" for s
    by (simp add: getTxContextItem_def loadTxCtx_def Let_def split: option.split)
  have "obind (Done (?f s)) (\<lambda>(x, s1). obind (pay n s1) (\<lambda>s2. Done (x, s2))) = obind (pay n s) (\<lambda>s. Done (?f s))" for s n
    using upd [where s = s] by (simp add: pay_eq case_prod_beta prod_eq_iff)
  then show ?thesis using ok by (auto simp: steady_v_def keeps_v_def prod_eq_iff)
qed

lemma exec_value_steady:
  assumes e: "env_ok e" and inst: "\<not> behind_commit inst"
  shows "steady_v (exec_value e inst args)"
proof -
  have "steady_v (code_SHA3 e args)"
    by (rule steady_v_cong [OF code_SHA3_eq [OF e]], assumption)
      (intro steady_seq_v steady_rt_require steady_pay_const steady_v_value gasless_intros)
  moreover have "steady_v (code_MLOAD e args)"
    by (rule steady_v_cong [OF code_MLOAD_eq [OF e]], assumption)
      (intro steady_seq_v steady_rt_require steady_v_Done, auto)
  moreover have "steady_v (code_BLOCKHASH e args)"
    unfolding code_BLOCKHASH_def [abs_def] Let_def
    by (rule steady_v_Done) (auto simp: gaslessD [OF gasless_intros(4)])
  moreover have "steady_v (\<lambda>s. Done (ext_sload e (arg args 0) s, s))" "steady_v (\<lambda>s. Done (ext_balance e (arg args 0) s, s))"
    "steady_v (\<lambda>s. Done (ext_extcodesize e (arg args 0) s, s))"
    "steady_v (\<lambda>s. obind (ext_calldataload e (arg args 0)) (\<lambda>v. Done (v, s)))"
    "steady_v (\<lambda>s. Done (getExpFunc (arg args 0) (arg args 1), s))"
    by (rule steady_v_Done steady_v_value, (rule gasless_intros | blast))+
  moreover have "steady_v (\<lambda>s. Done (env_value e inst s))"
    using inst steady_v_loadTxCtx [of e]
    by (cases inst) (auto simp: env_value_def behind_commit_def intro!: steady_v_Done)
  moreover have "steady_v (\<lambda>s. use (word_op e inst (map ssa_value args)) (\<lambda>v. Done (v, s)))"
    by (cases "word_op e inst (map ssa_value args)") (auto simp: steady_v_Undefined intro!: steady_v_Done)
  ultimately show ?thesis
    using inst by (cases inst) (simp_all add: exec_value_def [abs_def] behind_commit_def env_insts_def)
qed

section \<open>CREATE and the calls keep the state\<close>

lemma use_eq_Done_iff: "use v f = Done y \<longleftrightarrow> (\<exists>x. v = Some x \<and> f x = Done y)"
  by (cases v) simp_all

text \<open>The gas a call leaves, read back from its result, is at most the gas it was given.\<close>

lemma call_result_plain: "unat r < 2 ^ 63 \<Longrightarrow> call_result r = (True, r)"
  using sint64_nonneg_iff [of r] by (simp add: call_result_def)

lemma call_result_failed: "unat r < 2 ^ 63 \<Longrightarrow> call_result (r OR EVM_CALL_FAILURE) = (False, r)"
  using call_failure_flag [of r] by (simp add: call_result_def)

lemma call_wrapper_bounds:
  assumes e: "env_ok e" and gas: "unat gas < 2 ^ 63"
    and r: "call_wrapper e h kind gas address valuePtr inData outSize = (r, out, buf, h')"
  shows "unat (snd (call_result r)) \<le> unat gas" "length buf < 2 ^ 63"
    "kind \<noteq> EVMC_CREATE \<Longrightarrow> length out \<le> outSize"
proof -
  have "unat (snd (call_result r)) \<le> unat gas \<and> length buf < 2 ^ 63 \<and> (kind \<noteq> EVMC_CREATE \<longrightarrow> length out \<le> outSize)"
  proof (cases "r = gas OR EVM_CALL_FAILURE \<and> out = [] \<and> buf = []")
    case True
    then show ?thesis using call_result_failed [OF gas] by simp
  next
    case False
    define m where "m = call_message (e_msg e h) kind gas address (host_store (e_le e) valuePtr) inData"
    obtain res h1 where res: "host_call (e_host e) h m = (res, h1)" by fastforce
    note ok = host_ok_call [OF env_okD(2) [OF e] res]
    have le: "unat (gas_left res) \<le> unat gas" using ok(1) by (simp add: m_def call_message_def)
    then have small: "unat (gas_left res) < 2 ^ 63" using gas by simp
    have "call (e_host e) (e_msg e h) h kind gas address (host_store (e_le e) valuePtr) inData outSize = (r, out, buf, h')"
      using r False by (auto simp: call_wrapper_def Let_def split: if_split_asm)
    then have "buf = output_data res" "kind \<noteq> EVMC_CREATE \<longrightarrow> length out \<le> outSize"
      "r = (if status_code res \<noteq> EVMC_SUCCESS then gas_left res OR EVM_CALL_FAILURE else gas_left res)"
      unfolding call_def m_def [symmetric] Let_def res by auto
    then show ?thesis
      using le ok(3) call_result_plain [OF small] call_result_failed [OF small] by simp
  qed
  then show "unat (snd (call_result r)) \<le> unat gas" "length buf < 2 ^ 63"
    "kind \<noteq> EVMC_CREATE \<Longrightarrow> length out \<le> outSize" by simp_all
qed

text \<open>Giving back at most \<open>k\<close> when the budget has room for it.\<close>

lemma give_back_ok:
  assumes "rt_ok s" "unat r \<le> k" "rt_budget s + k < 2 ^ 47"
  shows "rt_ok (s\<lparr> rt_gas := rt_gas s + r \<rparr>)" "rt_budget (s\<lparr> rt_gas := rt_gas s + r \<rparr>) \<le> rt_budget s + k"
proof -
  have "unat (rt_gas s) + unat r < 2 ^ 47" using assms(2,3) by (simp add: rt_budget_def budget_def)
  then have u: "unat (rt_gas s + r) = unat (rt_gas s) + unat r" by (intro unat_add_no_wrap) simp
  then show le: "rt_budget (s\<lparr> rt_gas := rt_gas s + r \<rparr>) \<le> rt_budget s + k"
    using assms(2) by (simp add: rt_budget_def budget_def)
  have "mem_ok (rt_mem s)" by (rule rt_okD(4) [OF assms(1)])
  then show "rt_ok (s\<lparr> rt_gas := rt_gas s + r \<rparr>)"
    using le assms(1,3) by (simp add: rt_ok_def state_ok_def rt_budget_def)
qed

lemma mem_put_ok:
  assumes "mem_put off bs mem = Done mem'" "mem_ok mem"
  shows "mem_ok mem'" "mem_words mem' = mem_words mem"
  using assms length_mem_write [of "a_data mem"]
  by (auto simp: mem_put_def use_eq_Done_iff mem_ok_def mem_words_def split: if_split_asm)

text \<open>The gas a frame keeps for itself when it creates a contract.\<close>

definition create_kept :: "'h env \<Rightarrow> 'h rt_state \<Rightarrow> i64" where
  "create_kept e s = (if e_rev e \<ge> EVMC_TANGERINE_WHISTLE then drop_bit 6 (rt_gas s) else 0)"

lemma nuw_nsw_sub_small:
  fixes a b :: i64
  assumes "unat a < 2 ^ 63" "unat b \<le> unat a"
  shows "ir_nuw_nsw_sub (Some a) (Some b) = Some (a - b)" "unat (a - b) = unat a - unat b"
proof -
  have le: "b \<le> a" using assms(2) by (simp add: word_le_nat_alt)
  then show "unat (a - b) = unat a - unat b" by (rule unat_sub_no_wrap)
  have "sint a = int (unat a)" "sint b = int (unat b)" using assms by (simp_all add: sint64_eq)
  then have "sint a - sint b = int (unat a - unat b)" using assms(2) by linarith
  moreover have "int (unat a - unat b) < 2 ^ 63"
    using assms(1) of_nat_less_iff [of "unat a - unat b" "2 ^ 63", where 'a = int] by simp
  ultimately have "in_sint TYPE(64) (sint a - sint b)" by (simp add: in_sint_def)
  then show "ir_nuw_nsw_sub (Some a) (Some b) = Some (a - b)" using le by (simp add: ir_nuw_nsw_sub_def)
qed

lemma create_kept_le: "unat (create_kept e s) \<le> unat (rt_gas s)"
  by (simp add: create_kept_def unat_drop_bit)

lemma code_CREATE_eq:
  assumes s: "rt_ok s"
  shows "code_CREATE e args s =
    obind (mem_slice (rt_mem s) (arg args 1) (arg args 2)) (\<lambda>inData.
      (let (q, pAddr, buf, h') = call_wrapper e (rt_host s) EVMC_CREATE (rt_gas s - create_kept e s) None
             (toBE (e_le e) (arg args 0)) inData 20;
           (ret, gasLeft) = call_result q
       in Done (if ret then ucast (toNative (e_le e) (host_load (e_le e) pAddr :: 160 word)) else 0,
            s\<lparr> rt_gas := gasLeft + create_kept e s, rt_returnBuf := buf, rt_host := h' \<rparr>)))"
proof -
  have "unat (rt_gas s) < 2 ^ 63" using rt_okD(3) [OF s] by simp
  then have "ir_nuw_nsw_sub (Some (rt_gas s)) (Some (create_kept e s)) = Some (rt_gas s - create_kept e s)"
    using create_kept_le by (rule nuw_nsw_sub_small)
  then show ?thesis
    unfolding code_CREATE_def Let_def getGas_def create_kept_def [symmetric] ext_create_def resetReturnBuf_def
    by (simp add: obind_assoc case_prod_beta setGas_def) (rule obind_cong [OF refl], simp)
qed

lemma keeps_code_CREATE:
  assumes e: "env_ok e"
  shows "keeps_v (code_CREATE e args)"
  unfolding keeps_v_def
proof (intro allI impI)
  fix s s' :: "'a rt_state" and x
  assume s: "rt_ok s" and r: "code_CREATE e args s = Done (x, s')"
  note kept = create_kept_le [of e s]
  have uv: "unat (rt_gas s - create_kept e s) = unat (rt_gas s) - unat (create_kept e s)"
    using nuw_nsw_sub_small(2) [OF _ kept] rt_okD(3) [OF s] by simp
  have g: "unat (rt_gas s - create_kept e s) < 2 ^ 63" using uv rt_okD(3) [OF s] by simp
  let ?call = "\<lambda>inData. call_wrapper e (rt_host s) EVMC_CREATE (rt_gas s - create_kept e s) None
    (toBE (e_le e) (arg args 0)) inData 20"
  obtain inData where d: "(case ?call inData of (q, pAddr, buf, h') \<Rightarrow>
      s\<lparr> rt_gas := snd (call_result q) + create_kept e s, rt_returnBuf := buf, rt_host := h' \<rparr>) = s'"
    using r unfolding code_CREATE_eq [OF s] by (auto simp: obind_eq_Done_iff Let_def case_prod_beta)
  obtain q pAddr buf h' where w: "?call inData = (q, pAddr, buf, h')" by (metis prod_cases4)
  have s': "s' = s\<lparr> rt_gas := snd (call_result q) + create_kept e s, rt_returnBuf := buf, rt_host := h' \<rparr>"
    using d by (simp add: w)
  note b = call_wrapper_bounds [OF e g w]
  have "unat (snd (call_result q) + create_kept e s) = unat (snd (call_result q)) + unat (create_kept e s)"
    using b(1) uv kept rt_okD(3) [OF s] by (intro unat_add_no_wrap) simp
  then have "unat (snd (call_result q) + create_kept e s) \<le> unat (rt_gas s)" using b(1) uv kept by simp
  then show "rt_ok s' \<and> rt_budget s' \<le> rt_budget s"
    using s b(2) by (simp add: s' rt_ok_def rt_budget_def state_ok_def budget_def)
qed

text \<open>A call in two parts: what is paid before the gas is passed, and passing it.\<close>

definition call_with_gas ::
    "'h env \<Rightarrow> instruction \<Rightarrow> word256 \<Rightarrow> word256 \<Rightarrow> word256 \<Rightarrow> word256 \<Rightarrow> word256 \<Rightarrow> word256 \<Rightarrow> word256 \<Rightarrow>
     'h rt_state \<Rightarrow> (word256 \<times> 'h rt_state) outcome" where
  "call_with_gas e inst gasArg0 address value inOff inSize outOff outSize s =
     use (call_gas e gasArg0 (getGas s)) (\<lambda>gasArg.
     obind (on_gas (\<lambda>g. count256 g (Some gasArg)) s) (\<lambda>s.
     use (ir_nuw_nsw_add (Some (ucast gasArg)) (Some (if value = 0 then 0 else of_int callStipend))) (\<lambda>gas.
     obind (ext_call e (call_kind_of inst) gas address value inOff inSize outOff outSize s) (\<lambda>(r, s).
       (let (ret, finalGas) = call_result r;
            s = s\<lparr> rt_gas := giveBack (rt_gas s) finalGas \<rparr>
        in Done (code_bool ret, s))))))"

lemma ext_call_Done:
  assumes e: "env_ok e" and s: "rt_ok s" and gas: "unat gas < 2 ^ 63"
    and r: "ext_call e kind gas address value inOff inSize outOff outSize s = Done (r, s')"
  shows "rt_ok s'" "rt_budget s' = rt_budget s" "rt_gas s' = rt_gas s" "unat (snd (call_result r)) \<le> unat gas"
proof -
  let ?call = "\<lambda>inData. call_wrapper e (rt_host s) kind gas (Some (addr_arg e address)) (toBE (e_le e) value) inData
    (unat (ucast outSize :: i64))"
  obtain inData where d: "(case ?call inData of (q, out, buf, h') \<Rightarrow>
      obind (mem_put outOff out (rt_mem s)) (\<lambda>mem. Done (q, s\<lparr> rt_mem := mem, rt_returnBuf := buf, rt_host := h' \<rparr>))) = Done (r, s')"
    using r by (auto simp: ext_call_def Let_def obind_eq_Done_iff resetReturnBuf_def case_prod_beta)
  obtain q out buf h' where w': "?call inData = (q, out, buf, h')" by (metis prod_cases4)
  obtain mem where m: "mem_put outOff out (rt_mem s) = Done mem" and q: "q = r"
    and s': "s' = s\<lparr> rt_mem := mem, rt_returnBuf := buf, rt_host := h' \<rparr>"
    using d by (auto simp: w' obind_eq_Done_iff)
  note w = w' [unfolded q]
  note b = call_wrapper_bounds [OF e gas w] and ok = mem_put_ok [OF m rt_okD(4) [OF s]]
  show "rt_ok s'" "rt_budget s' = rt_budget s"
    using s b(2) ok by (simp_all add: s' rt_ok_def rt_budget_def state_ok_def budget_def)
  show "rt_gas s' = rt_gas s" "unat (snd (call_result r)) \<le> unat gas" using b(1) by (simp_all add: s')
qed

lemma call_with_gas_elim:
  assumes s: "rt_ok s"
    and r: "call_with_gas e inst gasArg0 address value inOff inSize outOff outSize s = Done (x, s')"
  obtains ga s1 gas q s2 where "pay (unat (ga :: word256)) s = Done s1" "unat ga \<le> unat (rt_gas s)"
    "unat gas = unat ga + (if value = 0 then 0 else 2300)" "unat gas < 2 ^ 63"
    "ext_call e (call_kind_of inst) gas address value inOff inSize outOff outSize s1 = Done (q, s2)"
    "x = code_bool (fst (call_result q))" "s' = s2\<lparr> rt_gas := rt_gas s2 + snd (call_result q) \<rparr>"
proof -
  let ?st = "(if value = 0 then 0 else of_int callStipend) :: i64"
  obtain ga s1 gas q s2 where p: "pay (unat ga) s = Done s1"
    and gas: "ir_nuw_nsw_add (Some (ucast (ga :: word256))) (Some ?st) = Some gas"
    and c: "ext_call e (call_kind_of inst) gas address value inOff inSize outOff outSize s1 = Done (q, s2)"
    and x: "x = code_bool (fst (call_result q))" and s': "s' = s2\<lparr> rt_gas := rt_gas s2 + snd (call_result q) \<rparr>"
    using r by (auto simp: call_with_gas_def use_eq_Done_iff obind_eq_Done_iff on_gas_count256 [OF s] Let_def
        giveBack_def case_prod_beta)
  have ga: "unat ga \<le> unat (rt_gas s)" using p by (simp add: pay_eq split: if_split_asm)
  note g = rt_okD(3) [OF s]
  have u: "unat (ucast ga :: i64) = unat ga" using ga g by (intro unat_trunc_addr) simp
  have st: "unat ?st = (if value = 0 then 0 else 2300)" by (simp add: schedule)
  have ugas: "unat gas = unat ga + (if value = 0 then 0 else 2300)"
  proof -
    have "gas = ucast ga + ?st" using gas by (simp add: ir_nuw_nsw_add_def split: if_split_asm)
    moreover have "unat (ucast ga + ?st) = unat (ucast ga :: i64) + unat ?st"
      using ga g by (intro unat_add_no_wrap) (simp only: u st, simp)
    ultimately show ?thesis by (simp only: u st)
  qed
  then have "unat gas < 2 ^ 63" using ga g by simp
  with that p ga ugas c x s' show ?thesis by blast
qed

lemma call_with_gas_Done:
  assumes e: "env_ok e" and s: "rt_ok s"
    and room: "rt_budget s + (if value = 0 then 0 else 2300) < 2 ^ 47"
    and r: "call_with_gas e inst gasArg0 address value inOff inSize outOff outSize s = Done (x, s')"
  shows "rt_ok s' \<and> rt_budget s' \<le> rt_budget s + (if value = 0 then 0 else 2300)"
proof -
  obtain ga s1 gas q s2 where p: "pay (unat (ga :: word256)) s = Done s1" and ga: "unat ga \<le> unat (rt_gas s)"
    and ugas: "unat gas = unat ga + (if value = 0 then 0 else 2300)" "unat gas < 2 ^ 63"
    and c: "ext_call e (call_kind_of inst) gas address value inOff inSize outOff outSize s1 = Done (q, s2)"
    and s': "s' = s2\<lparr> rt_gas := rt_gas s2 + snd (call_result q) \<rparr>"
    using s r by (rule call_with_gas_elim)
  note s1 = pay_ok [OF s p]
  note s2 = ext_call_Done [OF e s1(1) ugas(2) c]
  have "unat ga \<le> rt_budget s" using ga by (simp add: rt_budget_def budget_def)
  then have total: "rt_budget s2 + unat gas = rt_budget s + (if value = 0 then 0 else 2300)"
    using s2(2) s1(2) ugas by simp
  show ?thesis
    using give_back_ok [OF s2(1,4)] room by (simp only: s' total)
qed

lemma transfer_pays:
  assumes "rt_ok s" "pay (unat (call_transfer_cost e inst value)) s = Done s'"
  shows "rt_ok s'" "rt_budget s' + (if value = 0 then 0 else 2300) \<le> rt_budget s"
proof -
  show "rt_ok s'" using assms by (rule pay_ok)
  have le: "unat (call_transfer_cost e inst value) \<le> unat (rt_gas s)"
    using assms(2) by (simp add: pay_eq split: if_split_asm)
  then have "unat (call_transfer_cost e inst value) < 2 ^ 47" using rt_okD(3) [OF assms(1)] by simp
  then have "unat (call_transfer_cost e inst value) = (if value = 0 then 0 else 9000)"
    by (auto simp: call_transfer_cost_def Let_def schedule unat_gasMax split: if_split_asm)
  moreover have "unat (rt_gas s) \<le> rt_budget s" by (simp add: rt_budget_def budget_def)
  ultimately show "rt_budget s' + (if value = 0 then 0 else 2300) \<le> rt_budget s"
    using pay_ok(2) [OF assms] le by (simp split: if_split_asm)
qed

lemma code_CALL_eq:
  fixes args :: "word256 ssa list" and inst :: instruction
  defines "hasValue \<equiv> inst = CALL \<or> inst = CALLCODE"
  defines "value \<equiv> if hasValue then arg args 2 else 0" and "k \<equiv> if hasValue then 3 else 2"
  assumes e: "env_ok e" and s: "rt_ok s"
  shows "code_CALL e inst args s =
    obind (rt_require (arg args (k + 2)) (arg args (k + 3)) s) (\<lambda>s.
    obind (rt_require (arg args k) (arg args (k + 1)) s) (\<lambda>s.
    obind (pay (unat (call_transfer_cost e inst value)) s) (\<lambda>s.
    obind (pay (unat (call_account_cost e inst (arg args 1) value s)) s)
      (call_with_gas e inst (arg args 0) (arg args 1) value (arg args k) (arg args (k + 1)) (arg args (k + 2)) (arg args (k + 3))))))"
proof -
  have t: "unat (call_transfer_cost e inst value) < 2 ^ 63"
    by (simp add: call_transfer_cost_def Let_def schedule unat_gasMax)
  have a: "unat (call_account_cost e inst (arg args 1) value s) < 2 ^ 63" for s
    by (simp add: call_account_cost_def Let_def schedule)
  have z: "inst \<noteq> CALL \<Longrightarrow> call_account_cost e inst (arg args 1) value s = 0" for s
    by (simp add: call_account_cost_def)
  have acc: "(if inst = CALL then on_gas (\<lambda>g. count64 g (Some (call_account_cost e inst (arg args 1) value s))) s else Done s) =
      pay (unat (call_account_cost e inst (arg args 1) value s)) s" if "rt_ok s" for s
    using on_gas_count64 [OF that a] z [of s] by (cases "inst = CALL") simp_all
  show ?thesis
    unfolding code_CALL_def Let_def hasValue_def [symmetric] value_def [symmetric] k_def [symmetric]
      call_with_gas_def [abs_def, symmetric]
    apply (rule after_require [OF e s])
    apply (rule after_require [OF e], assumption)
    apply (simp only: on_gas_count64 [OF _ t])
    apply (rule obind_cong [OF refl])
    apply (drule (1) pay_ok(1))
    apply (simp only: acc)
    apply (rule obind_cong [OF refl])
    apply (simp only: call_with_gas_def Let_def)
    done
qed

lemma keeps_code_CALL:
  assumes e: "env_ok e"
  shows "keeps_v (code_CALL e inst args)"
  unfolding keeps_v_def
proof (intro allI impI)
  fix s s' :: "'a rt_state" and x
  assume s: "rt_ok s" and r: "code_CALL e inst args s = Done (x, s')"
  define w where "w = (if inst = CALL \<or> inst = CALLCODE then arg args 2 else 0)"
  obtain s1 s2 s3 s4 o1 l1 o2 l2 where
    r1: "rt_require o1 l1 s = Done s1" and r2: "rt_require o2 l2 s1 = Done s2"
    and t: "pay (unat (call_transfer_cost e inst w)) s2 = Done s3"
    and a: "pay (unat (call_account_cost e inst (arg args 1) w s3)) s3 = Done s4"
    and c: "call_with_gas e inst (arg args 0) (arg args 1) w o2 l2 o1 l1 s4 = Done (x, s')"
    using r unfolding code_CALL_eq [OF e s] obind_eq_Done_iff w_def [symmetric] by blast
  note d1 = rt_require_Done [OF s r1]
  note d2 = rt_require_Done [OF d1(1) r2]
  note d3 = transfer_pays [OF d2(1) t]
  note d4 = pay_ok [OF d3(1) a]
  have le: "rt_budget s4 + (if w = 0 then 0 else 2300) \<le> rt_budget s"
    using d1(2) d2(2) d3(2) d4(2) by linarith
  moreover have "rt_budget s < 2 ^ 47" using s by (simp add: rt_ok_def state_ok_def rt_budget_def)
  ultimately have "rt_budget s4 + (if w = 0 then 0 else 2300) < 2 ^ 47" by linarith
  from call_with_gas_Done [OF e d4(1) this c] show "rt_ok s' \<and> rt_budget s' \<le> rt_budget s"
    using le by linarith
qed

lemma exec_value_keeps:
  assumes e: "env_ok e"
  shows "keeps_v (exec_value e inst args)"
proof (cases "behind_commit inst")
  case True
  have "keeps_v (\<lambda>s. Done (env_value e GAS s))" by (simp add: keeps_v_def env_value_def)
  with True keeps_code_CREATE [OF e, of args] keeps_code_CALL [OF e, of _ args] show ?thesis
    by (auto simp: behind_commit_def exec_value_def [abs_def] env_insts_def)
next
  case False
  then show ?thesis using e by (intro steady_v_keeps exec_value_steady)
qed

lemma exec_effect_keeps: "env_ok e \<Longrightarrow> keeps (exec_effect e inst args)"
  by (intro steady_keeps exec_effect_steady)

section \<open>Emitted operations\<close>

definition pay_run :: "nat \<Rightarrow> 'h run_state \<Rightarrow> 'h run_state outcome" where
  "pay_run n st = obind (pay n (snd st)) (\<lambda>s. Done (fst st, s))"

definition run_ok :: "'h env \<Rightarrow> 'h run_state \<Rightarrow> bool" where
  "run_ok e st \<longleftrightarrow> env_ok e \<and> rt_ok (snd st)"

fun metered_op :: "op \<Rightarrow> bool" where
  "metered_op (Eval n inst vs) = (\<not> behind_commit inst)"
| "metered_op a = True"

definition check_run :: "int option \<Rightarrow> 'h run_state \<Rightarrow> 'h run_state outcome" where
  "check_run cost st = obind (on_gas (\<lambda>g. gas_check g (map_option of_int cost)) (snd st)) (\<lambda>s. Done (fst st, s))"

lemma exec_code_run_code: "exec_code e ev xs st = run_code (exec_op e ev) check_run xs st"
proof (induction xs arbitrary: st)
  case (Cons x xs)
  have "exec_emitted e ev x st = (case x of GasCheck c \<Rightarrow> check_run c st | Emit a \<Rightarrow> exec_op e ev a st)"
    by (cases x; cases st) (simp_all add: check_run_def)
  then show ?case by (simp add: Cons.IH [abs_def])
qed simp

lemma steady_mem_require: "env_ok e \<Longrightarrow> steady (on_mem (require (e_machine e) off len))"
  by (rule steady_cong [OF on_mem_require steady_rt_require])

lemma steady_countExp: "steady (on_gas (\<lambda>g. countExp m_rev g x))"
  by (rule steady_cong [OF on_gas_countExp steady_pay_const])

text \<open>Operations on the run-time state, lifted to the registers.\<close>

definition lift_op :: "('h rt_state \<Rightarrow> 'h rt_state outcome) \<Rightarrow> 'h run_state \<Rightarrow> 'h run_state outcome" where
  "lift_op f st = obind (f (snd st)) (\<lambda>s. Done (fst st, s))"

definition lift_value ::
    "(regs \<Rightarrow> 'h rt_state \<Rightarrow> (word256 \<times> 'h rt_state) outcome) \<Rightarrow> nat \<Rightarrow> 'h run_state \<Rightarrow> 'h run_state outcome" where
  "lift_value f k st = obind (f (fst st) (snd st)) (\<lambda>(w, s). Done ((fst st)(k := w), s))"

lemma exec_op_lift:
  "exec_op e ev (Eval k inst vs) = lift_value (\<lambda>regs. exec_value e inst (map (ssa_of (ev regs)) vs)) k"
  "exec_op e ev (Do inst vs) st = lift_op (exec_effect e inst (map (ssa_of (ev (fst st))) vs)) st"
  "exec_op e ev (MemRequire off len) st =
     lift_op (on_mem (require (e_machine e) (ev (fst st) off) (ssa_of (ev (fst st)) len))) st"
  "exec_op e ev (CountExp exponent) st = lift_op (on_gas (\<lambda>g. countExp (e_rev e) g (ev (fst st) exponent))) st"
  by (rule ext, rename_tac x, case_tac x) (cases st, simp_all add: lift_op_def lift_value_def)+

lemma lift_op_keeps: "keeps f \<Longrightarrow> rt_ok (snd st) \<Longrightarrow> lift_op f st = Done st' \<Longrightarrow>
  rt_ok (snd st') \<and> rt_budget (snd st') \<le> rt_budget (snd st)"
  by (auto simp: lift_op_def obind_eq_Done_iff dest: keepsD)

lemma lift_value_keeps: "(\<And>regs. keeps_v (f regs)) \<Longrightarrow> rt_ok (snd st) \<Longrightarrow> lift_value f k st = Done st' \<Longrightarrow>
  rt_ok (snd st') \<and> rt_budget (snd st') \<le> rt_budget (snd st)"
  using keeps_vD [of "f (fst st)" "snd st"] by (auto simp: lift_value_def obind_eq_Done_iff)

lemma exec_op_keeps:
  assumes "env_ok e" "rt_ok (snd st)" "exec_op e ev a st = Done st'"
  shows "rt_ok (snd st') \<and> rt_budget (snd st') \<le> rt_budget (snd st)"
proof (cases a)
  case (Eval k inst vs)
  show ?thesis
    by (rule lift_value_keeps [OF exec_value_keeps [OF assms(1)] assms(2) assms(3) [unfolded Eval exec_op_lift]])
next
  case (Do inst vs)
  show ?thesis
    by (rule lift_op_keeps [OF exec_effect_keeps [OF assms(1)] assms(2) assms(3) [unfolded Do exec_op_lift]])
next
  case (MemRequire off len)
  show ?thesis
    by (rule lift_op_keeps [OF steady_keeps [OF steady_mem_require [OF assms(1)]] assms(2)
          assms(3) [unfolded MemRequire exec_op_lift]])
next
  case (CountExp x)
  show ?thesis
    by (rule lift_op_keeps [OF steady_keeps [OF steady_countExp] assms(2) assms(3) [unfolded CountExp exec_op_lift]])
qed

lemma lift_op_pay:
  assumes "\<And>regs. steady (f regs)" "rt_ok (snd st)"
  shows "refines (obind (lift_op (f (fst st)) st) (pay_run n)) (obind (pay_run n st) (\<lambda>st. lift_op (f (fst st)) st))"
proof -
  let ?D = "\<lambda>s. Done (fst st, s)" and ?f = "f (fst st)"
  have "refines (obind (obind (?f (snd st)) (pay n)) ?D) (obind (obind (pay n (snd st)) ?f) ?D)"
    by (rule refines_bind_left [OF steadyD [OF assms]])
  then show ?thesis by (simp add: pay_run_def lift_op_def obind_assoc)
qed

lemma lift_value_pay:
  assumes "\<And>regs. steady_v (f regs)" "rt_ok (snd st)"
  shows "refines (obind (lift_value f k st) (pay_run n)) (obind (pay_run n st) (lift_value f k))"
proof -
  let ?D = "\<lambda>(w, s). Done ((fst st)(k := w), s)" and ?f = "f (fst st)"
  have "refines (obind (obind (?f (snd st)) (\<lambda>(x, s1). obind (pay n s1) (\<lambda>s2. Done (x, s2)))) ?D)
      (obind (obind (pay n (snd st)) ?f) ?D)"
    by (rule refines_bind_left [OF steady_vD [OF assms]])
  then show ?thesis by (simp add: pay_run_def lift_value_def [abs_def] obind_assoc case_prod_beta)
qed

lemma exec_op_pay:
  assumes "env_ok e" "rt_ok (snd st)" "metered_op a"
  shows "refines (obind (exec_op e ev a st) (pay_run n)) (obind (pay_run n st) (exec_op e ev a))"
proof (cases a)
  case (Eval k inst vs)
  then have "\<not> behind_commit inst" using assms(3) by simp
  then show ?thesis
    unfolding Eval exec_op_lift by (intro lift_value_pay exec_value_steady assms)
next
  case (Do inst vs)
  show ?thesis
    unfolding Do exec_op_lift [abs_def]
    by (rule lift_op_pay [OF exec_effect_steady [OF assms(1)] assms(2)])
next
  case (MemRequire off len)
  show ?thesis
    unfolding MemRequire exec_op_lift [abs_def]
    by (rule lift_op_pay [OF steady_mem_require [OF assms(1)] assms(2)])
next
  case (CountExp x)
  show ?thesis
    unfolding CountExp exec_op_lift [abs_def]
    by (rule lift_op_pay [OF steady_countExp assms(2)])
qed

interpretation metered: metered_machine "exec_op e ev" pay_run check_run "run_ok e" metered_op for e :: "'h env" and ev
proof unfold_locales
  fix st st' :: "'h run_state" and m n :: nat and c :: int and a :: op
  show "pay_run 0 st = Done st" by (simp add: pay_run_def)
  show "obind (pay_run m st) (pay_run n) = pay_run (m + n) st"
    by (simp add: pay_run_def obind_assoc pay_twice [symmetric])
  show "run_ok e st \<Longrightarrow> pay_run n st = Done st' \<Longrightarrow> run_ok e st'"
    by (auto simp: pay_run_def run_ok_def obind_eq_Done_iff dest: pay_ok)
  show "check_run (Some c) st = pay_run (nat c) st" if "run_ok e st" "0 \<le> c" "c < 2 ^ 63"
  proof -
    have "unat (of_int c :: i64) = nat c" using that(2,3) by (simp add: unsigned_of_int take_bit_int_eq_self)
    moreover have "unat (rt_gas (snd st)) < 2 ^ 63" using that(1) rt_okD(3) [of "snd st"] by (simp add: run_ok_def)
    ultimately have "on_gas (\<lambda>g. gas_check g (Some (of_int c))) (snd st) = pay (nat c) (snd st)"
      using that(2,3) gas_check_charge [of "rt_gas (snd st)" "of_int c"] by (intro on_gas_pay) (simp add: nat_less_iff)
    then show ?thesis by (simp add: check_run_def pay_run_def)
  qed
  show "run_ok e st'" if "run_ok e st" "exec_op e ev a st = Done st'"
    using exec_op_keeps [of e st ev a st'] that by (simp add: run_ok_def)
  show "refines (obind (exec_op e ev a st) (pay_run n)) (obind (pay_run n st) (exec_op e ev a))"
    if "metered_op a" "run_ok e st"
    using exec_op_pay [of e st a] that by (simp add: run_ok_def)
qed

end
