(* ===== verification/Evm.thy ===== *)
theory Evm
  imports Metering
begin

text \<open>
  The reference that compiled code is compared with: an interpreter that executes one instruction of
  the bytecode at a time.  Every instruction pays its own step cost and checks its own stack use; the
  stack is a list of words, top first; a jump looks at the bytecode at its destination.  What an
  instruction does with its arguments is shared with \<open>Opcodes\<close>; blocks, virtual stacks, cost blocks,
  SSA values and the jump table do not appear.
\<close>

section \<open>Instructions\<close>

text \<open>The number of items an instruction takes.\<close>

definition pops :: "instruction \<Rightarrow> nat" where
  "pops inst =
     (case inst of
        ADD \<Rightarrow> 2 | MUL \<Rightarrow> 2 | SUB \<Rightarrow> 2 | DIV \<Rightarrow> 2 | SDIV \<Rightarrow> 2 | MOD \<Rightarrow> 2 | SMOD \<Rightarrow> 2
      | ADDMOD \<Rightarrow> 3 | MULMOD \<Rightarrow> 3 | EXP \<Rightarrow> 2 | SIGNEXTEND \<Rightarrow> 2
      | LT \<Rightarrow> 2 | GT \<Rightarrow> 2 | SLT \<Rightarrow> 2 | SGT \<Rightarrow> 2 | EQ \<Rightarrow> 2 | ISZERO \<Rightarrow> 1
      | AND_i \<Rightarrow> 2 | OR_i \<Rightarrow> 2 | XOR_i \<Rightarrow> 2 | NOT_i \<Rightarrow> 1 | BYTE \<Rightarrow> 2
      | SHA3 \<Rightarrow> 2 | BALANCE \<Rightarrow> 1 | CALLDATALOAD \<Rightarrow> 1 | CALLDATACOPY \<Rightarrow> 3 | CODECOPY \<Rightarrow> 3
      | EXTCODESIZE \<Rightarrow> 1 | EXTCODECOPY \<Rightarrow> 4 | RETURNDATACOPY \<Rightarrow> 3 | BLOCKHASH \<Rightarrow> 1
      | POP \<Rightarrow> 1 | MLOAD \<Rightarrow> 1 | MSTORE \<Rightarrow> 2 | MSTORE8 \<Rightarrow> 2 | SLOAD \<Rightarrow> 1 | SSTORE \<Rightarrow> 2
      | JUMP \<Rightarrow> 1 | JUMPI \<Rightarrow> 2 | LOG n \<Rightarrow> 2 + n
      | CREATE \<Rightarrow> 3 | CALL \<Rightarrow> 7 | CALLCODE \<Rightarrow> 7 | DELEGATECALL \<Rightarrow> 6 | STATICCALL \<Rightarrow> 6
      | RETURN \<Rightarrow> 2 | REVERT \<Rightarrow> 2 | SUICIDE \<Rightarrow> 1
      | _ \<Rightarrow> 0)"

text \<open>Instructions that a revision does not have, and those that a static call may not execute.\<close>

definition enabled :: "evmc_revision \<Rightarrow> bool \<Rightarrow> instruction \<Rightarrow> bool" where
  "enabled m_rev static inst =
     (case inst of
        RETURNDATASIZE \<Rightarrow> EVMC_BYZANTIUM \<le> m_rev | RETURNDATACOPY \<Rightarrow> EVMC_BYZANTIUM \<le> m_rev
      | STATICCALL \<Rightarrow> EVMC_BYZANTIUM \<le> m_rev | REVERT \<Rightarrow> EVMC_BYZANTIUM \<le> m_rev
      | DELEGATECALL \<Rightarrow> EVMC_HOMESTEAD \<le> m_rev
      | SSTORE \<Rightarrow> \<not> static | LOG n \<Rightarrow> \<not> static | CREATE \<Rightarrow> \<not> static | SUICIDE \<Rightarrow> \<not> static
      | _ \<Rightarrow> True)"

text \<open>Where control goes.\<close>

datatype evm_next = Fall | Goto nat | Halt return_code

definition jump_to :: "byte list \<Rightarrow> word256 \<Rightarrow> evm_next" where
  "jump_to code dest = (if valid_jumpdest code (unat dest) then Goto (unat dest) else Halt OutOfGas)"

type_synonym 'h evm_result = "(evm_next \<times> word256 list \<times> 'h rt_state) outcome"

definition on_stack :: "word256 list option \<Rightarrow> 'h rt_state \<Rightarrow> 'h evm_result" where
  "on_stack S s = (case S of Some S1 \<Rightarrow> Done (Fall, S1, s) | None \<Rightarrow> LongJmp)"

text \<open>Instructions that compute a word from their arguments; EXP and CREATE pay a dynamic cost first.\<close>

definition evm_pay_dynamic :: "'h env \<Rightarrow> instruction \<Rightarrow> word256 list \<Rightarrow> 'h rt_state \<Rightarrow> 'h rt_state outcome" where
  "evm_pay_dynamic e inst args s =
     (case inst of
        EXP \<Rightarrow> on_gas (\<lambda>g. countExp (e_rev e) g (args ! 1)) s
      | CREATE \<Rightarrow> on_mem (require (e_machine e) (args ! 1) (Inst (args ! 2))) s
      | _ \<Rightarrow> Done s)"

definition evm_compute :: "'h env \<Rightarrow> instruction \<Rightarrow> word256 list \<Rightarrow> 'h rt_state \<Rightarrow> (word256 \<times> 'h rt_state) outcome" where
  "evm_compute e inst args s = obind (evm_pay_dynamic e inst args s) (exec_value e inst (map Inst args))"

definition evm_value :: "'h env \<Rightarrow> instruction \<Rightarrow> word256 list \<Rightarrow> 'h rt_state \<Rightarrow> 'h evm_result" where
  "evm_value e inst S s =
     (if pops inst \<le> length S \<and> length S - pops inst < stackSizeLimit
      then obind (evm_compute e inst (take (pops inst) S) s) (\<lambda>(w, s1). Done (Fall, w # drop (pops inst) S, s1))
      else LongJmp)"

definition evm_effect :: "'h env \<Rightarrow> instruction \<Rightarrow> evm_next \<Rightarrow> word256 list \<Rightarrow> 'h rt_state \<Rightarrow> 'h evm_result" where
  "evm_effect e inst nxt S s =
     (if pops inst \<le> length S
      then obind (exec_effect e inst (map Inst (take (pops inst) S)) s) (\<lambda>s1. Done (nxt, drop (pops inst) S, s1))
      else LongJmp)"

definition evm_exec :: "'h env \<Rightarrow> byte list \<Rightarrow> nat \<Rightarrow> instruction \<Rightarrow> word256 list \<Rightarrow> 'h rt_state \<Rightarrow> 'h evm_result" where
  "evm_exec e code pc inst S s =
     (case inst of
        STOP \<Rightarrow> Done (Halt Stop, S, s)
      | POP \<Rightarrow> on_stack (map_option snd (evm_pop S)) s
      | PUSH n \<Rightarrow> on_stack (evm_push (of_nat (be_value (push_bytes code (length code) n (pc + 1)))) S) s
      | DUP n \<Rightarrow> on_stack (evm_dup (n - 1) S) s
      | SWAP n \<Rightarrow> on_stack (evm_swap n S) s
      | JUMPDEST \<Rightarrow> Done (Fall, S, s)
      | PC \<Rightarrow> on_stack (evm_push (of_nat pc) S) s
      | CODESIZE \<Rightarrow> on_stack (evm_push (of_nat (length code)) S) s
      | JUMP \<Rightarrow> (case S of dest # S1 \<Rightarrow> Done (jump_to code dest, S1, s) | _ \<Rightarrow> LongJmp)
      | JUMPI \<Rightarrow> (case S of dest # cond # S1 \<Rightarrow> Done (if cond \<noteq> 0 then jump_to code dest else Fall, S1, s) | _ \<Rightarrow> LongJmp)
      | RETURN \<Rightarrow> evm_effect e inst (Halt Return) S s
      | REVERT \<Rightarrow> evm_effect e inst (Halt Revert) S s
      | SUICIDE \<Rightarrow> evm_effect e inst (Halt Stop) S s
      | MSTORE \<Rightarrow> evm_effect e inst Fall S s
      | MSTORE8 \<Rightarrow> evm_effect e inst Fall S s
      | SSTORE \<Rightarrow> evm_effect e inst Fall S s
      | CALLDATACOPY \<Rightarrow> evm_effect e inst Fall S s
      | RETURNDATACOPY \<Rightarrow> evm_effect e inst Fall S s
      | CODECOPY \<Rightarrow> evm_effect e inst Fall S s
      | EXTCODECOPY \<Rightarrow> evm_effect e inst Fall S s
      | LOG n \<Rightarrow> evm_effect e inst Fall S s
      | _ \<Rightarrow> evm_value e inst S s)"

section \<open>Steps and runs\<close>

text \<open>One instruction: pay, and execute it unless it is invalid.\<close>

definition evm_instr :: "'h env \<Rightarrow> byte list \<Rightarrow> nat \<Rightarrow> word256 list \<Rightarrow> 'h rt_state \<Rightarrow> 'h evm_result" where
  "evm_instr e code pc S s =
     (case instr_at code pc of
        Some inst \<Rightarrow> if enabled (e_rev e) (e_static e) inst then evm_exec e code pc inst S s
                     else Done (Halt OutOfGas, S, s)
      | None \<Rightarrow> Done (Halt OutOfGas, S, s))"

definition evm_step :: "'h env \<Rightarrow> byte list \<Rightarrow> nat \<Rightarrow> word256 list \<Rightarrow> 'h rt_state \<Rightarrow> 'h evm_result" where
  "evm_step e code pc S s =
     obind (pay (nat (getStepCost (e_rev e) (instr_at code pc))) s) (evm_instr e code pc S)"

definition next_pc :: "byte list \<Rightarrow> nat \<Rightarrow> nat" where
  "next_pc code pc = skipPushDataAndGetNext code pc (length code)"

text \<open>A run from \<open>pc\<close>, with fuel for the number of instructions.\<close>

fun evm_run ::
    "nat \<Rightarrow> 'h env \<Rightarrow> byte list \<Rightarrow> nat \<Rightarrow> word256 list \<Rightarrow> 'h rt_state \<Rightarrow> (return_code \<times> 'h rt_state) outcome option" where
  "evm_run 0 e code pc S s = None"
| "evm_run (Suc fuel) e code pc S s =
     (if pc < length code then
        (case evm_step e code pc S s of
           Done (Fall, S1, s1) \<Rightarrow> evm_run fuel e code (next_pc code pc) S1 s1
         | Done (Goto d, S1, s1) \<Rightarrow> evm_run fuel e code d S1 s1
         | Done (Halt rc, S1, s1) \<Rightarrow> Some (Done (rc, s1))
         | LongJmp \<Rightarrow> Some LongJmp
         | Undefined \<Rightarrow> Some Undefined)
      else Some (Done (Stop, s)))"

section \<open>A run keeps the state and ends\<close>

definition keeps_r :: "('h rt_state \<Rightarrow> 'h evm_result) \<Rightarrow> bool" where
  "keeps_r f \<longleftrightarrow> (\<forall>s nxt S s'. rt_ok s \<longrightarrow> f s = Done (nxt, S, s') \<longrightarrow> rt_ok s' \<and> rt_budget s' \<le> rt_budget s)"

lemma keeps_r_Done [simp]: "keeps_r (\<lambda>s. Done (nxt, S, s))" "keeps_r (on_stack T)" "keeps_r (\<lambda>s. LongJmp)"
  by (auto simp: keeps_r_def on_stack_def split: option.splits)

lemma keeps_Done [simp]: "keeps Done"
  by (simp add: keeps_def)

lemma evm_pay_dynamic_keeps:
  assumes "env_ok e"
  shows "keeps (evm_pay_dynamic e inst args)"
  unfolding evm_pay_dynamic_def [abs_def]
  using steady_keeps [OF steady_mem_require [OF assms]] steady_keeps [OF steady_countExp] by (cases inst) simp_all

lemma evm_compute_keeps: "env_ok e \<Longrightarrow> keeps_v (evm_compute e inst args)"
  unfolding evm_compute_def [abs_def] by (intro keeps_seq_v evm_pay_dynamic_keeps exec_value_keeps)

lemma evm_value_keeps: "env_ok e \<Longrightarrow> keeps_r (evm_value e inst S)"
  using keeps_vD [OF evm_compute_keeps [of e inst "take (pops inst) S"]]
  by (fastforce simp: keeps_r_def evm_value_def obind_eq_Done_iff split: if_splits)

lemma evm_effect_keeps: "env_ok e \<Longrightarrow> keeps_r (evm_effect e inst nxt S)"
  using keepsD [OF exec_effect_keeps [of e inst "map Inst (take (pops inst) S)"]]
  by (fastforce simp: keeps_r_def evm_effect_def obind_eq_Done_iff split: if_splits)

lemma keeps_r_list [simp]:
  "keeps_r (\<lambda>s. case S of [] \<Rightarrow> LongJmp | x # R \<Rightarrow> Done (f x, R, s))"
  "keeps_r (\<lambda>s. case S of x # y # R \<Rightarrow> Done (g x y, R, s) | _ \<Rightarrow> LongJmp)"
  by (cases S; simp) (cases S; cases "tl S"; simp)

lemma evm_exec_keeps: "env_ok e \<Longrightarrow> keeps_r (evm_exec e code pc inst S)"
  by (cases inst) (simp_all add: evm_exec_def [abs_def] evm_value_keeps evm_effect_keeps)

text \<open>A step does not create gas, and a jump costs some.\<close>

lemma evm_step_Done:
  assumes "env_ok e" "rt_ok s" and r: "evm_step e code pc S s = Done (nxt, S', s')"
  shows "rt_ok s'" "rt_budget s' \<le> rt_budget s - nat (getStepCost (e_rev e) (instr_at code pc))"
proof -
  obtain s1 where p: "pay (nat (getStepCost (e_rev e) (instr_at code pc))) s = Done s1"
    and x: "evm_instr e code pc S s1 = Done (nxt, S', s')"
    using r by (auto simp: evm_step_def obind_eq_Done_iff)
  note s1 = pay_ok [OF assms(2) p]
  have "rt_ok s' \<and> rt_budget s' \<le> rt_budget s1"
    using x s1(1) evm_exec_keeps [OF assms(1), of code pc _ S]
    by (auto simp: keeps_r_def evm_instr_def split: option.splits if_splits)
  with s1 show "rt_ok s'" "rt_budget s' \<le> rt_budget s - nat (getStepCost (e_rev e) (instr_at code pc))" by simp_all
qed

lemma not_Goto [simp]:
  "on_stack T s \<noteq> Done (Goto d, S', s')" "evm_value e inst S s \<noteq> Done (Goto d, S', s')"
  "evm_effect e inst Fall S s \<noteq> Done (Goto d, S', s')" "evm_effect e inst (Halt rc) S s \<noteq> Done (Goto d, S', s')"
  by (auto simp: on_stack_def evm_value_def evm_effect_def obind_eq_Done_iff split: option.split)

lemma jump_to_Goto: "jump_to code dest = Goto d \<Longrightarrow> valid_jumpdest code d"
  by (auto simp: jump_to_def split: if_splits)

lemma evm_exec_Goto_inst: "evm_exec e code pc inst S s = Done (Goto d, S', s') \<Longrightarrow> inst = JUMP \<or> inst = JUMPI"
  by (cases inst) (simp_all add: evm_exec_def)

lemma evm_exec_Goto:
  assumes "evm_exec e code pc inst S s = Done (Goto d, S', s')"
  shows "inst = JUMP \<or> inst = JUMPI" "valid_jumpdest code d"
  using evm_exec_Goto_inst [OF assms] assms
  by (auto simp: evm_exec_def intro: jump_to_Goto split: list.splits if_splits)

lemma evm_step_Goto:
  assumes "evm_step e code pc S s = Done (Goto d, S', s')"
  shows "valid_jumpdest code d" "8 \<le> getStepCost (e_rev e) (instr_at code pc)"
proof -
  obtain inst s1 where i: "instr_at code pc = Some inst" and x: "evm_exec e code pc inst S s1 = Done (Goto d, S', s')"
    using assms by (cases "instr_at code pc") (auto simp: evm_step_def evm_instr_def obind_eq_Done_iff split: if_split_asm)
  show "valid_jumpdest code d" using x by (rule evm_exec_Goto)
  show "8 \<le> getStepCost (e_rev e) (instr_at code pc)"
    using evm_exec_Goto(1) [OF x] by (auto simp: i schedule)
qed

lemma valid_jumpdest_less: "valid_jumpdest code d \<Longrightarrow> d < length code"
  by (simp add: valid_jumpdest_def positions_less)

lemma next_pc_bounds: "pc < next_pc code pc" "pc < length code \<Longrightarrow> next_pc code pc \<le> length code"
  by (simp_all add: next_pc_def skip_greater skip_le_end)

text \<open>The fuel that is enough: between two jumps the program counter grows, and a jump uses gas up.\<close>

definition enough_fuel :: "byte list \<Rightarrow> nat \<Rightarrow> 'h rt_state \<Rightarrow> nat" where
  "enough_fuel code pc s = rt_budget s * (length code + 1) + (length code - pc) + 1"

lemma evm_run_returns:
  assumes "env_ok e" "rt_ok s" "enough_fuel code pc s \<le> fuel"
  shows "evm_run fuel e code pc S s \<noteq> None"
  using assms(2,3)
proof (induction fuel arbitrary: pc S s)
  case (Suc fuel)
  show ?case
  proof (cases "pc < length code")
    case True
    show ?thesis
    proof (cases "evm_step e code pc S s")
      case (Done x)
      obtain nxt S1 s1 where x: "x = (nxt, S1, s1)" by (cases x)
      note step = Done [unfolded x] and d = evm_step_Done [OF assms(1) Suc.prems(1) Done [unfolded x]]
      have le: "rt_budget s1 \<le> rt_budget s" using d(2) by simp
      show ?thesis
      proof (cases nxt)
        case Fall
        have "rt_budget s1 * (length code + 1) \<le> rt_budget s * (length code + 1)"
          using le by (rule mult_le_mono1)
        then have "enough_fuel code (next_pc code pc) s1 \<le> fuel"
          using Suc.prems(2) next_pc_bounds [of pc code] True by (simp add: enough_fuel_def)
        then show ?thesis using Suc.IH [OF d(1)] True step Fall by simp
      next
        case (Goto target)
        note j = evm_step_Goto [OF step [unfolded Goto]]
        obtain s2 where "pay (nat (getStepCost (e_rev e) (instr_at code pc))) s = Done s2"
          using step by (auto simp: evm_step_def obind_eq_Done_iff)
        then have "8 \<le> rt_budget s"
          using j(2) by (auto simp: pay_eq rt_budget_def budget_def split: if_splits)
        then have "rt_budget s1 + 1 \<le> rt_budget s" using d(2) j(2) by linarith
        then have "(rt_budget s1 + 1) * (length code + 1) \<le> rt_budget s * (length code + 1)" by (rule mult_le_mono1)
        then have "enough_fuel code target s1 \<le> fuel"
          using Suc.prems(2) True by (simp add: enough_fuel_def)
        then show ?thesis using Suc.IH [OF d(1)] True step Goto by simp
      qed (use True step in simp)
    qed (use True in simp_all)
  qed simp
qed (simp add: enough_fuel_def)

lemma evm_run_more_fuel:
  "evm_run fuel e code pc S s = Some r \<Longrightarrow> fuel \<le> fuel' \<Longrightarrow> evm_run fuel' e code pc S s = Some r"
proof (induction fuel arbitrary: fuel' pc S s)
  case (Suc fuel)
  then obtain f where f: "fuel' = Suc f" "fuel \<le> f" by (cases fuel') auto
  with Suc show ?case by (auto split: if_splits outcome.splits evm_next.splits prod.splits)
qed simp

end
