(* ===== verification/Embedding.thy ===== *)
theory Embedding
  imports Evm
begin

text \<open>
  Frames that differ in the world around them.  The code of a frame touches the world only through the
  host's functions, so if one world is embedded in another, and the host of the larger one does to the
  embedded part what the host of the smaller one does, the frame runs alike in both.  What the larger
  world holds besides, it cannot see.
\<close>

section \<open>Embedding a state\<close>

definition embed_state :: "('w \<Rightarrow> 'h) \<Rightarrow> 'w rt_state \<Rightarrow> 'h rt_state" where
  "embed_state i s = \<lparr> rt_host = i (rt_host s), rt_mem = rt_mem s, rt_gas = rt_gas s, rt_txCtx = rt_txCtx s,
     rt_returnBuf = rt_returnBuf s, rt_returnData = rt_returnData s \<rparr>"

lemma embed_simps [simp]:
  "rt_host (embed_state i s) = i (rt_host s)" "rt_mem (embed_state i s) = rt_mem s" "rt_gas (embed_state i s) = rt_gas s"
  "rt_txCtx (embed_state i s) = rt_txCtx s" "rt_returnBuf (embed_state i s) = rt_returnBuf s"
  "rt_returnData (embed_state i s) = rt_returnData s"
  by (simp_all add: embed_state_def)

lemma embed_update [simp]:
  "(embed_state i s)\<lparr> rt_host := i h \<rparr> = embed_state i (s\<lparr> rt_host := h \<rparr>)" "(embed_state i s)\<lparr> rt_mem := m \<rparr> = embed_state i (s\<lparr> rt_mem := m \<rparr>)"
  "(embed_state i s)\<lparr> rt_gas := g \<rparr> = embed_state i (s\<lparr> rt_gas := g \<rparr>)" "(embed_state i s)\<lparr> rt_txCtx := t \<rparr> = embed_state i (s\<lparr> rt_txCtx := t \<rparr>)"
  "(embed_state i s)\<lparr> rt_returnBuf := b \<rparr> = embed_state i (s\<lparr> rt_returnBuf := b \<rparr>)"
  "(embed_state i s)\<lparr> rt_returnData := d \<rparr> = embed_state i (s\<lparr> rt_returnData := d \<rparr>)"
  by (simp_all add: embed_state_def)

section \<open>Outcomes\<close>

abbreviation on_state :: "('w \<Rightarrow> 'h) \<Rightarrow> 'w rt_state outcome \<Rightarrow> 'h rt_state outcome" where
  "on_state i \<equiv> map_outcome (embed_state i)"

abbreviation on_result :: "('w \<Rightarrow> 'h) \<Rightarrow> ('x \<times> 'w rt_state) outcome \<Rightarrow> ('x \<times> 'h rt_state) outcome" where
  "on_result i \<equiv> map_outcome (\<lambda>(x, s). (x, embed_state i s))"

lemma obind_map_outcome [simp]: "obind (map_outcome f r) k = obind r (\<lambda>x. k (f x))"
  by (cases r) simp_all

lemma map_outcome_obind [simp]: "map_outcome f (obind r k) = obind r (\<lambda>x. map_outcome f (k x))"
  by (cases r) simp_all

lemma map_outcome_use [simp]: "map_outcome f (use p k) = use p (\<lambda>x. map_outcome f (k x))"
  by (cases p) simp_all

lemma on_gas_embed [simp]: "on_gas f (embed_state i s) = on_state i (on_gas f s)"
  by (simp add: on_gas_def)

lemma on_mem_embed [simp]: "on_mem f (embed_state i s) = on_state i (on_mem f s)"
  by (cases "f (rt_mem s, rt_gas s)") (auto simp: on_mem_def)

lemma on_mem_value_embed [simp]: "on_mem_value f (embed_state i s) = on_result i (on_mem_value f s)"
  by (cases "f (rt_mem s, rt_gas s)") (auto simp: on_mem_value_def)

lemma setters_embed [simp]:
  "setGas g (embed_state i s) = embed_state i (setGas g s)" "resetReturnBuf (embed_state i s) = embed_state i (resetReturnBuf s)"
  "registerReturnData off sz (embed_state i s) = embed_state i (registerReturnData off sz s)" "getGas (embed_state i s) = getGas s"
  by (simp_all add: setGas_def resetReturnBuf_def registerReturnData_def getGas_def)

section \<open>Two frames\<close>

text \<open>The environments agree but for the world: the larger host does to the embedded world what the smaller one
  does, and its callback for calls answers alike.\<close>

locale frame_embedding =
  fixes i :: "'w \<Rightarrow> 'h" and e1 :: "'h env" and e2 :: "'w env"
  assumes frame: "e_machine e1 = e_machine e2" "e_sha3 e1 = e_sha3 e2" "e_data e1 = e_data e2" "e_rev e1 = e_rev e2"
      "e_static e1 = e_static e2" "e_division e1 = e_division e2"
    and queries: "account_exists (e_host e1) (i h) = account_exists (e_host e2) h"
      "get_storage (e_host e1) (i h) = get_storage (e_host e2) h" "get_balance (e_host e1) (i h) = get_balance (e_host e2) h"
      "get_code_size (e_host e1) (i h) = get_code_size (e_host e2) h" "copy_code (e_host e1) (i h) = copy_code (e_host e2) h"
      "get_tx_context (e_host e1) (i h) = get_tx_context (e_host e2) h"
      "get_block_hash (e_host e1) (i h) = get_block_hash (e_host e2) h"
    and updates: "set_storage (e_host e1) (i h) a k v = i (set_storage (e_host e2) h a k v)"
      "host_selfdestruct (e_host e1) (i h) a b = i (host_selfdestruct (e_host e2) h a b)"
      "emit_log (e_host e1) (i h) a d ts = i (emit_log (e_host e2) h a d ts)"
    and calls: "call (e_host e1) (e_msg e1 (i h)) (i h) kind gas address v inp n =
      (\<lambda>(r, out, buf, h'). (r, out, buf, i h')) (call (e_host e2) (e_msg e2 h) h kind gas address v inp n)"
begin

lemma args: "addr_arg e1 = addr_arg e2" "word_arg e1 = word_arg e2" "word_result e1 = word_result e2" "myAddr e1 = myAddr e2"
  "getAddress e1 = getAddress e2" "getSender e1 = getSender e2" "getValue e1 = getValue e2" "getDepth e1 = getDepth e2"
  "getCallData e1 = getCallData e2" "getCallDataSize e1 = getCallDataSize e2" "getCodeSize e1 = getCodeSize e2"
  by (simp_all add: fun_eq_iff addr_arg_def word_arg_def word_result_def myAddr_def getAddress_def getSender_def getValue_def
      getDepth_def getCallData_def getCallDataSize_def getCodeSize_def frame)

lemma exts: "ext_sload e1 k (embed_state i s) = ext_sload e2 k s" "ext_balance e1 a (embed_state i s) = ext_balance e2 a s"
  "ext_exists e1 a (embed_state i s) = ext_exists e2 a s" "ext_blockHash e1 n (embed_state i s) = ext_blockHash e2 n s"
  "ext_sha3 e1 off len (embed_state i s) = ext_sha3 e2 off len s" "ext_extcode e1 a (embed_state i s) = ext_extcode e2 a s"
  "ext_extcodesize e1 a (embed_state i s) = ext_extcodesize e2 a s" "ext_calldataload e1 = ext_calldataload e2"
  by (simp_all add: fun_eq_iff ext_sload_def ext_balance_def ext_exists_def ext_blockHash_def ext_sha3_def ext_extcode_def getCode_def
      ext_extcodesize_def ext_calldataload_def args queries frame)

lemma ext_updates: "ext_sstore e1 k v (embed_state i s) = embed_state i (ext_sstore e2 k v s)"
  "ext_selfdestruct e1 a (embed_state i s) = embed_state i (ext_selfdestruct e2 a s)"
  "ext_log e1 off len ts (embed_state i s) = on_state i (ext_log e2 off len ts s)"
  by (simp_all add: ext_sstore_def ext_selfdestruct_def ext_log_def args updates)

lemma wrapper: "call_wrapper e1 (i h) kind gas address v inp n =
  (\<lambda>(r, out, buf, h'). (r, out, buf, i h')) (call_wrapper e2 h kind gas address v inp n)"
  by (auto simp: call_wrapper_def Let_def args queries calls frame)

lemma ext_calls:
  "ext_call e1 kind gas a v inOff inSize outOff outSize (embed_state i s) =
     on_result i (ext_call e2 kind gas a v inOff inSize outOff outSize s)"
  "ext_create e1 gas v inOff inSize (embed_state i s) =
     map_outcome (\<lambda>(r, addr, s). (r, addr, embed_state i s)) (ext_create e2 gas v inOff inSize s)"
proof -
  show "ext_call e1 kind gas a v inOff inSize outOff outSize (embed_state i s) =
     on_result i (ext_call e2 kind gas a v inOff inSize outOff outSize s)"
    unfolding ext_call_def Let_def args frame setters_embed embed_simps wrapper map_outcome_obind
    by (intro obind_cong refl) (auto split: prod.split)
  show "ext_create e1 gas v inOff inSize (embed_state i s) =
     map_outcome (\<lambda>(r, addr, s). (r, addr, embed_state i s)) (ext_create e2 gas v inOff inSize s)"
    unfolding ext_create_def Let_def args frame setters_embed embed_simps wrapper map_outcome_obind
    by (intro obind_cong refl) (auto split: prod.split)
qed

lemma tx_item: "getTxContextItem e1 k (embed_state i s) = (\<lambda>(w, s). (w, embed_state i s)) (getTxContextItem e2 k s)"
  by (simp add: getTxContextItem_def loadTxCtx_def Let_def queries frame split: option.split)

lemma env_value: "env_value e1 inst (embed_state i s) = (\<lambda>(w, s). (w, embed_state i s)) (env_value e2 inst s)"
  by (cases inst) (simp_all add: env_value_def args tx_item frame)

lemma call_parts: "call_transfer_cost e1 = call_transfer_cost e2" "call_gas e1 = call_gas e2"
  "call_account_cost e1 inst a v (embed_state i s) = call_account_cost e2 inst a v s"
  "suicide_penalty e1 a (embed_state i s) = suicide_penalty e2 a s"
  by (simp_all add: fun_eq_iff call_transfer_cost_def call_gas_def call_account_cost_def suicide_penalty_def exts args frame)

lemma create: "code_CREATE e1 a (embed_state i s) = on_result i (code_CREATE e2 a s)"
  unfolding code_CREATE_def Let_def frame setters_embed ext_calls map_outcome_use obind_map_outcome map_outcome_obind
  by (rule arg_cong [where f = "use _"], rule ext, rule obind_cong [OF refl]) (simp add: case_prod_beta)

lemma call: "code_CALL e1 inst a (embed_state i s) = on_result i (code_CALL e2 inst a s)"
proof -
  have acc: "(if inst = CALL then on_gas (\<lambda>g. count64 g (Some (call_account_cost e1 inst x v (embed_state i s)))) (embed_state i s)
      else Done (embed_state i s)) =
    on_state i (if inst = CALL then on_gas (\<lambda>g. count64 g (Some (call_account_cost e2 inst x v s))) s else Done s)" for x v s
    by (simp add: call_parts)
  show ?thesis
    unfolding code_CALL_def Let_def frame setters_embed acc
    by (simp add: call_parts ext_calls case_prod_beta del: if_split)
qed

lemma value_code: "exec_value e1 inst a (embed_state i s) = on_result i (exec_value e2 inst a s)"
proof -
  have "code_SHA3 e1 a (embed_state i s) = on_result i (code_SHA3 e2 a s)"
    "code_MLOAD e1 a (embed_state i s) = on_result i (code_MLOAD e2 a s)"
    "code_BLOCKHASH e1 a (embed_state i s) = on_result i (code_BLOCKHASH e2 a s)"
    by (simp_all add: code_SHA3_def code_MLOAD_def code_BLOCKHASH_def Let_def exts frame)
  moreover have "word_op e1 = word_op e2" by (simp add: fun_eq_iff word_op_def frame)
  ultimately show ?thesis
    unfolding exec_value_def by (cases inst) (simp_all add: create call exts env_value case_prod_beta)
qed

lemma effect_code: "exec_effect e1 inst a (embed_state i s) = on_state i (exec_effect e2 inst a s)"
proof -
  have "code_MSTORE e1 a (embed_state i s) = on_state i (code_MSTORE e2 a s)"
    "code_MSTORE8 e1 a (embed_state i s) = on_state i (code_MSTORE8 e2 a s)"
    "code_SSTORE e1 a (embed_state i s) = on_state i (code_SSTORE e2 a s)"
    "code_CALLDATACOPY e1 a (embed_state i s) = on_state i (code_CALLDATACOPY e2 a s)"
    "code_RETURNDATACOPY e1 a (embed_state i s) = on_state i (code_RETURNDATACOPY e2 a s)"
    "code_CODECOPY e1 a (embed_state i s) = on_state i (code_CODECOPY e2 a s)"
    "code_EXTCODECOPY e1 a (embed_state i s) = on_state i (code_EXTCODECOPY e2 a s)"
    "code_RETURN e1 a (embed_state i s) = on_state i (code_RETURN e2 a s)"
    "code_SUICIDE e1 a (embed_state i s) = on_state i (code_SUICIDE e2 a s)"
    "code_LOG e1 n a (embed_state i s) = on_state i (code_LOG e2 n a s)" for n
    by (simp_all add: code_MSTORE_def code_MSTORE8_def code_SSTORE_def code_CALLDATACOPY_def code_RETURNDATACOPY_def code_CODECOPY_def
        code_EXTCODECOPY_def code_RETURN_def code_SUICIDE_def code_LOG_def Let_def exts ext_updates args call_parts frame
        split: prod.split)
  then show ?thesis unfolding exec_effect_def by (cases inst) simp_all
qed

section \<open>Steps and runs\<close>

abbreviation on_step :: "'w evm_result \<Rightarrow> 'h evm_result" where
  "on_step \<equiv> map_outcome (\<lambda>(nxt, S, s). (nxt, S, embed_state i s))"

lemma instr: "evm_exec e1 code pc inst S (embed_state i s) = on_step (evm_exec e2 code pc inst S s)"
proof -
  have "evm_pay_dynamic e1 inst a (embed_state i s) = on_state i (evm_pay_dynamic e2 inst a s)" for a
    unfolding evm_pay_dynamic_def by (cases inst) (simp_all add: frame)
  then have "evm_compute e1 inst a (embed_state i s) = on_result i (evm_compute e2 inst a s)" for a
    by (simp add: evm_compute_def value_code)
  then have "evm_value e1 inst S (embed_state i s) = on_step (evm_value e2 inst S s)"
    by (cases "evm_compute e2 inst (take (pops inst) S) s") (auto simp: evm_value_def)
  moreover have "evm_effect e1 inst nxt S (embed_state i s) = on_step (evm_effect e2 inst nxt S s)" for nxt
    by (simp add: evm_effect_def effect_code)
  moreover have "on_stack T (embed_state i s) = on_step (on_stack T s)" for T
    by (simp add: on_stack_def split: option.split)
  ultimately show ?thesis
    unfolding evm_exec_def by (cases inst) (simp_all split: list.split)
qed

lemma step: "evm_step e1 code pc S (embed_state i s) = on_step (evm_step e2 code pc S s)"
  unfolding evm_step_def pay_def evm_instr_def frame on_gas_embed obind_map_outcome map_outcome_obind
  by (intro obind_cong refl) (simp add: instr split: option.split)

lemma run: "evm_run fuel e1 code pc S (embed_state i s) = map_option (on_result i) (evm_run fuel e2 code pc S s)"
proof (induction fuel arbitrary: pc S s)
  case (Suc fuel)
  then show ?case by (auto simp: step split: outcome.split evm_next.split)
qed simp

end

end
