(* ===== verification/Yellow.thy ===== *)
theory Yellow
  imports Evm
begin

text \<open>
  The EVM itself, as its specification describes it: gas is a natural number, the memory a function
  from addresses to bytes of which a number of words is active, words are read as numbers, byte
  strings are big-endian, and an exceptional halt is \<open>None\<close>.  Nothing of the compiled code appears: no
  widths of counters, no byte order of the host, no virtual stack and no undefined behaviour.  That
  the JIT implements this machine is shown in \<open>YellowSim\<close>.
\<close>

section \<open>Frames and states\<close>

text \<open>What a frame is given: the host's functions, the hash, the message, its own address, and the code.\<close>

record 'h frame =
  fr_host :: "'h evmc_host"
  fr_hash :: "byte list \<Rightarrow> byte list"
  fr_rev :: evmc_revision
  fr_msg :: evmc_message
  fr_self :: "byte list"
  fr_code :: "byte list"
  fr_tx :: tx_context

record 'h machine_state =
  y_host :: 'h
  y_mem :: "nat \<Rightarrow> byte"
  y_words :: nat
  y_gas :: nat
  y_returned :: "byte list"

abbreviation fr_static :: "'h frame \<Rightarrow> bool" where
  "fr_static fr \<equiv> msg_flags (fr_msg fr) AND EVMC_STATIC \<noteq> 0"

section \<open>Gas and memory\<close>

definition y_pay :: "nat \<Rightarrow> 'h machine_state \<Rightarrow> 'h machine_state option" where
  "y_pay n y = (if n \<le> y_gas y then Some (y\<lparr> y_gas := y_gas y - n \<rparr>) else None)"

text \<open>The active memory grows to the words an access touches, at the price of the growth.\<close>

definition y_expand :: "word256 \<Rightarrow> word256 \<Rightarrow> 'h machine_state \<Rightarrow> 'h machine_state option" where
  "y_expand off len y =
     (let w = max (y_words y) (words_needed (unat off) (unat len))
      in map_option (\<lambda>y. y\<lparr> y_words := w \<rparr>) (y_pay (Cmem w - Cmem (y_words y)) y))"

definition y_read :: "word256 \<Rightarrow> word256 \<Rightarrow> 'h machine_state \<Rightarrow> byte list" where
  "y_read off len y = map (\<lambda>i. y_mem y (unat off + i)) [0..<unat len]"

definition y_write :: "word256 \<Rightarrow> byte list \<Rightarrow> 'h machine_state \<Rightarrow> 'h machine_state" where
  "y_write off bs y =
     y\<lparr> y_mem := (\<lambda>a. if unat off \<le> a \<and> a < unat off + length bs then bs ! (a - unat off) else y_mem y a) \<rparr>"

text \<open>The bytes of a string from an index on, zeros past its end.\<close>

definition y_window :: "byte list \<Rightarrow> nat \<Rightarrow> nat \<Rightarrow> byte list" where
  "y_window src idx n = map (\<lambda>i. if idx + i < length src then src ! (idx + i) else 0) [0..<n]"

section \<open>Words\<close>

definition y_bool :: "bool \<Rightarrow> word256" where
  "y_bool b = (if b then 1 else 0)"

definition y_word :: "instruction \<Rightarrow> word256 \<Rightarrow> word256 \<Rightarrow> word256 \<Rightarrow> word256" where
  "y_word inst a b c =
     (case inst of
        ADD \<Rightarrow> of_nat (unat a + unat b)
      | SUB \<Rightarrow> of_int (uint a - uint b)
      | MUL \<Rightarrow> of_nat (unat a * unat b)
      | DIV \<Rightarrow> of_nat (unat a div unat b)
      | MOD \<Rightarrow> if b = 0 then 0 else of_nat (unat a mod unat b)
      | SDIV \<Rightarrow> if b = 0 then 0 else of_int (sint a sdiv sint b)
      | SMOD \<Rightarrow> if b = 0 then 0 else of_int (sint a smod sint b)
      | ADDMOD \<Rightarrow> if c = 0 then 0 else of_nat ((unat a + unat b) mod unat c)
      | MULMOD \<Rightarrow> if c = 0 then 0 else of_nat ((unat a * unat b) mod unat c)
      | NOT_i \<Rightarrow> NOT a
      | LT \<Rightarrow> y_bool (unat a < unat b)
      | GT \<Rightarrow> y_bool (unat a > unat b)
      | SLT \<Rightarrow> y_bool (sint a < sint b)
      | SGT \<Rightarrow> y_bool (sint a > sint b)
      | EQ \<Rightarrow> y_bool (a = b)
      | ISZERO \<Rightarrow> y_bool (a = 0)
      | AND_i \<Rightarrow> a AND b
      | OR_i \<Rightarrow> a OR b
      | XOR_i \<Rightarrow> a XOR b
      | BYTE \<Rightarrow> if unat a < 32 then ucast (to_be b ! unat a) else 0
      | _ \<Rightarrow> if unat a < 31 then signed_take_bit (8 * unat a + 7) b else b)"

section \<open>The environment\<close>

definition y_address :: "word256 \<Rightarrow> byte list" where
  "y_address a = to_be (ucast a :: 160 word)"

definition y_balance :: "'h frame \<Rightarrow> byte list \<Rightarrow> 'h machine_state \<Rightarrow> word256" where
  "y_balance fr a y = of_be (get_balance (fr_host fr) (y_host y) a)"

definition y_exists :: "'h frame \<Rightarrow> word256 \<Rightarrow> 'h machine_state \<Rightarrow> bool" where
  "y_exists fr a y = bit (account_exists (fr_host fr) (y_host y) (y_address a)) 0"

definition y_storage :: "'h frame \<Rightarrow> word256 \<Rightarrow> 'h machine_state \<Rightarrow> word256" where
  "y_storage fr key y = of_be (get_storage (fr_host fr) (y_host y) (fr_self fr) (to_be key))"

definition y_code :: "'h frame \<Rightarrow> word256 \<Rightarrow> 'h machine_state \<Rightarrow> byte list" where
  "y_code fr a y =
     copy_code (fr_host fr) (y_host y) (y_address a) 0 (unat (get_code_size (fr_host fr) (y_host y) (y_address a)))"

definition y_env :: "'h frame \<Rightarrow> instruction \<Rightarrow> 'h machine_state \<Rightarrow> word256" where
  "y_env fr inst y =
     (case inst of
        GAS \<Rightarrow> of_nat (y_gas y)
      | ADDRESS \<Rightarrow> of_be (fr_self fr)
      | CALLER \<Rightarrow> of_be (sender (fr_msg fr))
      | CALLVALUE \<Rightarrow> of_be (msg_value (fr_msg fr))
      | CALLDATASIZE \<Rightarrow> of_nat (length (input_data (fr_msg fr)))
      | MSIZE \<Rightarrow> of_nat (32 * y_words y)
      | RETURNDATASIZE \<Rightarrow> of_nat (length (y_returned y))
      | GASPRICE \<Rightarrow> of_be (tx_gas_price (fr_tx fr))
      | ORIGIN \<Rightarrow> of_be (tx_origin (fr_tx fr))
      | COINBASE \<Rightarrow> of_be (block_coinbase (fr_tx fr))
      | NUMBER \<Rightarrow> ucast (block_number (fr_tx fr))
      | TIMESTAMP \<Rightarrow> ucast (block_timestamp (fr_tx fr))
      | GASLIMIT \<Rightarrow> ucast (block_gas_limit (fr_tx fr))
      | _ \<Rightarrow> of_be (block_difficulty (fr_tx fr)))"

section \<open>Calls\<close>

text \<open>The message of each kind of call; a creation has no destination.\<close>

definition y_message :: "'h frame \<Rightarrow> instruction \<Rightarrow> nat \<Rightarrow> word256 \<Rightarrow> word256 \<Rightarrow> byte list \<Rightarrow> evmc_message" where
  "y_message fr inst gas addr amount input =
     (let me = fr_msg fr
      in \<lparr> destination = (if inst = CREATE then None else Some (y_address addr)),
           sender = (if inst = DELEGATECALL then sender me else fr_self fr),
           msg_value = (if inst = DELEGATECALL then msg_value me else to_be amount),
           input_data = input,
           msg_gas = of_nat gas,
           msg_depth = msg_depth me + 1,
           msg_flags = (if inst = STATICCALL then msg_flags me OR EVMC_STATIC else msg_flags me),
           msg_kind = (case inst of CREATE \<Rightarrow> EVMC_CREATE | CALLCODE \<Rightarrow> EVMC_CALLCODE | DELEGATECALL \<Rightarrow> EVMC_DELEGATECALL
                       | _ \<Rightarrow> EVMC_CALL),
           msg_code_hash = None \<rparr>)"

text \<open>A call is made below the depth limit and within the balance; a call that is not made fails and
  gives all its gas back.  The result is the host's: whether it succeeded, the gas left, the output
  and the address of a created contract.\<close>

definition y_send ::
    "'h frame \<Rightarrow> instruction \<Rightarrow> nat \<Rightarrow> word256 \<Rightarrow> word256 \<Rightarrow> byte list \<Rightarrow> 'h machine_state \<Rightarrow>
     bool \<times> nat \<times> byte list \<times> byte list \<times> 'h" where
  "y_send fr inst gas addr amount input y =
     (if sint (msg_depth (fr_msg fr)) < 1024 \<and> amount \<le> y_balance fr (fr_self fr) y
      then (let (r, h) = host_call (fr_host fr) (y_host y) (y_message fr inst gas addr amount input)
            in (status_code r = EVMC_SUCCESS, unat (gas_left r), output_data r, create_address r, h))
      else (False, gas, [], [], y_host y))"

definition y_create :: "'h frame \<Rightarrow> word256 \<Rightarrow> word256 \<Rightarrow> word256 \<Rightarrow> 'h machine_state \<Rightarrow> (word256 \<times> 'h machine_state) option" where
  "y_create fr amount off len y0 = do {
     y \<leftarrow> y_expand off len y0;
     let kept = (if fr_rev fr \<ge> EVMC_TANGERINE_WHISTLE then y_gas y div 64 else 0);
     let (ok, left, out, addr, h) = y_send fr CREATE (y_gas y - kept) 0 amount (y_read off len y) y;
     Some (if ok then of_be addr else 0, y\<lparr> y_gas := left + kept, y_returned := out, y_host := h \<rparr>)
   }"

text \<open>The price of what a call does: 9000 for a transfer, 25000 for an account that it brings into being.\<close>

definition y_transfer_cost :: "word256 \<Rightarrow> nat" where
  "y_transfer_cost amount = (if amount = 0 then 0 else 9000)"

definition y_account_cost :: "'h frame \<Rightarrow> instruction \<Rightarrow> word256 \<Rightarrow> word256 \<Rightarrow> 'h machine_state \<Rightarrow> nat" where
  "y_account_cost fr inst addr amount y =
     (if inst = CALL \<and> \<not> y_exists fr addr y \<and> \<not> (fr_rev fr \<ge> EVMC_SPURIOUS_DRAGON \<and> amount = 0) then 25000 else 0)"

definition y_call_gas :: "'h frame \<Rightarrow> nat \<Rightarrow> nat \<Rightarrow> nat" where
  "y_call_gas fr wanted avail = (if fr_rev fr \<ge> EVMC_TANGERINE_WHISTLE then min wanted (avail - avail div 64) else wanted)"

definition y_call ::
    "'h frame \<Rightarrow> instruction \<Rightarrow> word256 \<Rightarrow> word256 \<Rightarrow> word256 \<Rightarrow> word256 \<Rightarrow> word256 \<Rightarrow> word256 \<Rightarrow> word256 \<Rightarrow>
     'h machine_state \<Rightarrow> (word256 \<times> 'h machine_state) option" where
  "y_call fr inst wanted addr amount inOff inLen outOff outLen y0 = do {
     y1 \<leftarrow> y_expand outOff outLen y0;
     y2 \<leftarrow> y_expand inOff inLen y1;
     y3 \<leftarrow> (if inst = CALL \<and> fr_static fr \<and> amount \<noteq> 0 then None else y_pay (y_transfer_cost amount) y2);
     y4 \<leftarrow> y_pay (y_account_cost fr inst addr amount y3) y3;
     let gas = y_call_gas fr (unat wanted) (y_gas y4);
     y5 \<leftarrow> y_pay gas y4;
     let (ok, left, out, _, h) =
       y_send fr inst (gas + (if amount = 0 then 0 else 2300)) addr amount (y_read inOff inLen y5) y5;
     let y6 = y_write outOff (take (unat outLen) out) y5;
     Some (y_bool ok, y6\<lparr> y_gas := y_gas y6 + left, y_returned := out, y_host := h \<rparr>)
   }"

section \<open>Instructions\<close>

text \<open>The instructions that push a word, on the words they pop.\<close>

definition y_value :: "'h frame \<Rightarrow> instruction \<Rightarrow> word256 list \<Rightarrow> 'h machine_state \<Rightarrow> (word256 \<times> 'h machine_state) option" where
  "y_value fr inst a y =
     (case inst of
        EXP \<Rightarrow> map_option (Pair (of_nat (unat (a ! 0) ^ unat (a ! 1)))) (y_pay (nat (exponentByteCost (fr_rev fr)) * exp_bytes (a ! 1)) y)
      | SHA3 \<Rightarrow> do {
          y1 \<leftarrow> y_expand (a ! 0) (a ! 1) y;
          y2 \<leftarrow> y_pay (6 * word_count (unat (a ! 1))) y1;
          Some (of_be (fr_hash fr (y_read (a ! 0) (a ! 1) y2)), y2) }
      | MLOAD \<Rightarrow> map_option (\<lambda>y1. (of_be (y_read (a ! 0) 32 y1), y1)) (y_expand (a ! 0) 32 y)
      | SLOAD \<Rightarrow> Some (y_storage fr (a ! 0) y, y)
      | BLOCKHASH \<Rightarrow>
          Some (if unat (a ! 0) < 2 ^ 63 then of_be (get_block_hash (fr_host fr) (y_host y) (of_nat (unat (a ! 0)))) else 0, y)
      | BALANCE \<Rightarrow> Some (y_balance fr (y_address (a ! 0)) y, y)
      | EXTCODESIZE \<Rightarrow> Some (of_nat (unat (get_code_size (fr_host fr) (y_host y) (y_address (a ! 0)))), y)
      | CALLDATALOAD \<Rightarrow> Some (of_be (y_window (input_data (fr_msg fr)) (unat (a ! 0)) 32), y)
      | CREATE \<Rightarrow> y_create fr (a ! 0) (a ! 1) (a ! 2) y
      | CALL \<Rightarrow> y_call fr CALL (a ! 0) (a ! 1) (a ! 2) (a ! 3) (a ! 4) (a ! 5) (a ! 6) y
      | CALLCODE \<Rightarrow> y_call fr CALLCODE (a ! 0) (a ! 1) (a ! 2) (a ! 3) (a ! 4) (a ! 5) (a ! 6) y
      | DELEGATECALL \<Rightarrow> y_call fr DELEGATECALL (a ! 0) (a ! 1) 0 (a ! 2) (a ! 3) (a ! 4) (a ! 5) y
      | STATICCALL \<Rightarrow> y_call fr STATICCALL (a ! 0) (a ! 1) 0 (a ! 2) (a ! 3) (a ! 4) (a ! 5) y
      | _ \<Rightarrow> Some (if inst \<in> set env_insts then y_env fr inst y else y_word inst (a ! 0) (a ! 1) (a ! 2), y))"

text \<open>A copy to the memory.\<close>

definition y_copy :: "word256 \<Rightarrow> word256 \<Rightarrow> byte list \<Rightarrow> 'h machine_state \<Rightarrow> 'h machine_state option" where
  "y_copy dest len bs y = do {
     y1 \<leftarrow> y_expand dest len y;
     y2 \<leftarrow> y_pay (3 * word_count (unat len)) y1;
     Some (y_write dest bs y2) }"

definition y_suicide_cost :: "'h frame \<Rightarrow> word256 \<Rightarrow> 'h machine_state \<Rightarrow> nat" where
  "y_suicide_cost fr dest y =
     (if fr_rev fr \<ge> EVMC_TANGERINE_WHISTLE \<and> \<not> y_exists fr dest y \<and>
         \<not> (fr_rev fr \<ge> EVMC_SPURIOUS_DRAGON \<and> y_balance fr (fr_self fr) y = 0) then 25000 else 0)"

text \<open>The instructions that do not; the output is what RETURN and REVERT leave.\<close>

definition y_effect :: "'h frame \<Rightarrow> instruction \<Rightarrow> word256 list \<Rightarrow> 'h machine_state \<Rightarrow> 'h machine_state option" where
  "y_effect fr inst a y =
     (case inst of
        MSTORE \<Rightarrow> map_option (y_write (a ! 0) (to_be (a ! 1))) (y_expand (a ! 0) 32 y)
      | MSTORE8 \<Rightarrow> map_option (y_write (a ! 0) [of_nat (unat (a ! 1) mod 256)]) (y_expand (a ! 0) 1 y)
      | SSTORE \<Rightarrow> map_option (\<lambda>y1. y1\<lparr> y_host := set_storage (fr_host fr) (y_host y1) (fr_self fr) (to_be (a ! 0)) (to_be (a ! 1)) \<rparr>)
          (y_pay (if y_storage fr (a ! 0) y = 0 \<and> a ! 1 \<noteq> 0 then 20000 else 5000) y)
      | CALLDATACOPY \<Rightarrow> y_copy (a ! 0) (a ! 2) (y_window (input_data (fr_msg fr)) (unat (a ! 1)) (unat (a ! 2))) y
      | CODECOPY \<Rightarrow> y_copy (a ! 0) (a ! 2) (y_window (fr_code fr) (unat (a ! 1)) (unat (a ! 2))) y
      | EXTCODECOPY \<Rightarrow> y_copy (a ! 1) (a ! 3) (y_window (y_code fr (a ! 0) y) (unat (a ! 2)) (unat (a ! 3))) y
      | RETURNDATACOPY \<Rightarrow>
          if unat (a ! 1) + unat (a ! 2) \<le> length (y_returned y)
          then y_copy (a ! 0) (a ! 2) (y_window (y_returned y) (unat (a ! 1)) (unat (a ! 2))) y else None
      | SUICIDE \<Rightarrow> map_option (\<lambda>y1. y1\<lparr> y_host := host_selfdestruct (fr_host fr) (y_host y1) (fr_self fr) (y_address (a ! 0)) \<rparr>)
          (y_pay (y_suicide_cost fr (a ! 0) y) y)
      | LOG n \<Rightarrow> do {
          y1 \<leftarrow> y_expand (a ! 0) (a ! 1) y;
          y2 \<leftarrow> y_pay (8 * unat (a ! 1)) y1;
          Some (y2\<lparr> y_host := emit_log (fr_host fr) (y_host y2) (fr_self fr) (y_read (a ! 0) (a ! 1) y2)
                                (map to_be (take n (drop 2 a))) \<rparr>) }
      | _ \<Rightarrow> y_expand (a ! 0) (a ! 1) y)"

section \<open>Steps and runs\<close>

datatype y_next = YFall | YGoto nat | YHalt return_code "byte list"

type_synonym 'h y_result = "(y_next \<times> word256 list \<times> 'h machine_state) option"

definition y_jump :: "byte list \<Rightarrow> word256 \<Rightarrow> word256 list \<Rightarrow> 'h machine_state \<Rightarrow> 'h y_result" where
  "y_jump code dest S y = (if valid_jumpdest code (unat dest) then Some (YGoto (unat dest), S, y) else None)"

definition y_on_stack :: "word256 list option \<Rightarrow> 'h machine_state \<Rightarrow> 'h y_result" where
  "y_on_stack T y = map_option (\<lambda>S. (YFall, S, y)) T"

text \<open>Where an instruction without a result leads.\<close>

definition y_exit :: "instruction \<Rightarrow> word256 list \<Rightarrow> 'h machine_state \<Rightarrow> y_next" where
  "y_exit inst a y =
     (case inst of
        RETURN \<Rightarrow> YHalt Return (y_read (a ! 0) (a ! 1) y)
      | REVERT \<Rightarrow> YHalt Revert (y_read (a ! 0) (a ! 1) y)
      | SUICIDE \<Rightarrow> YHalt Stop []
      | _ \<Rightarrow> YFall)"

definition effect_insts :: "instruction \<Rightarrow> bool" where
  "effect_insts inst = (case inst of RETURN \<Rightarrow> True | REVERT \<Rightarrow> True | SUICIDE \<Rightarrow> True | MSTORE \<Rightarrow> True | MSTORE8 \<Rightarrow> True
     | SSTORE \<Rightarrow> True | CALLDATACOPY \<Rightarrow> True | RETURNDATACOPY \<Rightarrow> True | CODECOPY \<Rightarrow> True | EXTCODECOPY \<Rightarrow> True
     | LOG n \<Rightarrow> True | _ \<Rightarrow> False)"

definition y_exec :: "'h frame \<Rightarrow> nat \<Rightarrow> instruction \<Rightarrow> word256 list \<Rightarrow> 'h machine_state \<Rightarrow> 'h y_result" where
  "y_exec fr pc inst S y =
     (let code = fr_code fr; a = take (pops inst) S; S1 = drop (pops inst) S
      in case inst of
        STOP \<Rightarrow> Some (YHalt Stop [], S, y)
      | JUMPDEST \<Rightarrow> Some (YFall, S, y)
      | PUSH n \<Rightarrow> y_on_stack (evm_push (of_nat (be_value (y_window code (pc + 1) n))) S) y
      | DUP n \<Rightarrow> y_on_stack (evm_dup (n - 1) S) y
      | SWAP n \<Rightarrow> y_on_stack (evm_swap n S) y
      | PC \<Rightarrow> y_on_stack (evm_push (of_nat pc) S) y
      | CODESIZE \<Rightarrow> y_on_stack (evm_push (of_nat (length code)) S) y
      | _ \<Rightarrow>
        if length S < pops inst then None
        else if inst = POP then Some (YFall, S1, y)
        else if inst = JUMP then y_jump code (a ! 0) S1 y
        else if inst = JUMPI then (if a ! 1 \<noteq> 0 then y_jump code (a ! 0) S1 y else Some (YFall, S1, y))
        else if effect_insts inst then map_option (\<lambda>y1. (y_exit inst a y1, S1, y1)) (y_effect fr inst a y)
        else if length S1 < stackSizeLimit then map_option (\<lambda>(w, y1). (YFall, w # S1, y1)) (y_value fr inst a y)
        else None)"

text \<open>An instruction pays its step cost first; an undefined one, or one a static frame may not execute, halts.\<close>

definition y_step :: "'h frame \<Rightarrow> nat \<Rightarrow> word256 list \<Rightarrow> 'h machine_state \<Rightarrow> 'h y_result" where
  "y_step fr pc S y =
     (case instr_at (fr_code fr) pc of
        None \<Rightarrow> None
      | Some inst \<Rightarrow>
          if enabled (fr_rev fr) (fr_static fr) inst
          then Option.bind (y_pay (nat (getStepCost (fr_rev fr) (Some inst))) y) (y_exec fr pc inst S) else None)"

text \<open>A run, with fuel for the number of instructions: how it ends, its output, and the state it leaves.\<close>

fun y_run ::
    "nat \<Rightarrow> 'h frame \<Rightarrow> nat \<Rightarrow> word256 list \<Rightarrow> 'h machine_state \<Rightarrow> (return_code \<times> byte list \<times> 'h machine_state) option option" where
  "y_run 0 fr pc S y = None"
| "y_run (Suc fuel) fr pc S y =
     (if pc < length (fr_code fr) then
        (case y_step fr pc S y of
           None \<Rightarrow> Some None
         | Some (YFall, S1, y1) \<Rightarrow> y_run fuel fr (next_pc (fr_code fr) pc) S1 y1
         | Some (YGoto d, S1, y1) \<Rightarrow> y_run fuel fr d S1 y1
         | Some (YHalt rc out, S1, y1) \<Rightarrow> Some (Some (rc, out, y1)))
      else Some (Some (Stop, [], y)))"

text \<open>The start of a frame, and its answer to the host.\<close>

definition y_init :: "'h frame \<Rightarrow> 'h \<Rightarrow> 'h machine_state" where
  "y_init fr h = \<lparr> y_host = h, y_mem = (\<lambda>_. 0), y_words = 0, y_gas = unat (msg_gas (fr_msg fr)), y_returned = [] \<rparr>"

end
