(* ===== verification/Samples.thy ===== *)
theory Samples
  imports Metering
begin

text \<open>
  Concrete environments for the witnesses: a host that counts the state changes it is asked for, and
  a frame on it.
\<close>

definition sample_host :: "nat evmc_host" where
  "sample_host =
     \<lparr> account_exists = (\<lambda>h a. 1), get_storage = (\<lambda>h a k. replicate 32 0), set_storage = (\<lambda>h a k v. h + 1),
       get_balance = (\<lambda>h a. replicate 32 0), get_code_size = (\<lambda>h a. 0), copy_code = (\<lambda>h a i n. []),
       host_selfdestruct = (\<lambda>h a b. h + 1),
       host_call = (\<lambda>h m. (\<lparr> status_code = EVMC_SUCCESS, gas_left = msg_gas m, output_data = [7],
                            create_address = replicate 20 1 \<rparr>, h + 1)),
       get_tx_context = (\<lambda>h. \<lparr> tx_gas_price = replicate 32 0, tx_origin = replicate 20 0, block_coinbase = replicate 20 0,
                             block_number = 1, block_timestamp = 2, block_gas_limit = 3, block_difficulty = replicate 32 0 \<rparr>),
       get_block_hash = (\<lambda>h n. replicate 32 0), emit_log = (\<lambda>h a d ts. h + 1) \<rparr>"

lemma sample_host_ok: "host_ok sample_host"
  by (simp add: host_ok_def sample_host_def)

definition sample_msg :: "bool \<Rightarrow> 32 word \<Rightarrow> evmc_message" where
  "sample_msg static depth =
     \<lparr> destination = Some (replicate 20 2), sender = replicate 20 3, msg_value = replicate 32 0, input_data = [1, 2, 3],
       msg_gas = 100000, msg_depth = depth, msg_flags = (if static then EVMC_STATIC else 0), msg_kind = EVMC_CALL,
       msg_code_hash = Some (replicate 32 9) \<rparr>"

definition sample_env :: "bool \<Rightarrow> 32 word \<Rightarrow> byte list \<Rightarrow> nat env" where
  "sample_env static depth code =
     \<lparr> e_machine = \<lparr> little_endian = True, heap_limit = 2 ^ 33, heap_junk = (\<lambda>_. 0xAA) \<rparr>, e_host = sample_host,
       e_sha3 = (\<lambda>bs. replicate 32 0), e_msg = (\<lambda>_. sample_msg static depth),
       e_data = \<lparr> rd_gas = 100000, rd_callData = [1, 2, 3], rd_callDataSize = 3, rd_value = 0, rd_code = code,
                  rd_codeSize = length code, rd_address = 2, rd_caller = 3, rd_depth = scast depth \<rparr>,
       e_rev = EVMC_BYZANTIUM, e_static = static, e_division = lowered_division \<rparr>"

lemma sample_env_simps [simp]:
  "e_rev (sample_env static depth code) = EVMC_BYZANTIUM" "e_static (sample_env static depth code) = static"
  "e_host (sample_env static depth code) = sample_host" "e_le (sample_env static depth code) = True"
  "rd_depth (e_data (sample_env static depth code)) = scast depth"
  "rd_callData (e_data (sample_env static depth code)) = [1, 2, 3]"
  "heap_limit (e_machine (sample_env static depth code)) = 2 ^ 33"
  by (simp_all add: sample_env_def)

lemma sample_env_ok: "length code < 2 ^ 48 \<Longrightarrow> env_ok (sample_env static depth code)"
  by (simp add: env_ok_def sample_host_ok) (simp add: sample_env_def)

text \<open>The state of a fresh frame.\<close>

lemma init_runtime_ok:
  assumes "unat (rd_gas (e_data e)) < 2 ^ 47"
  shows "rt_ok (init_runtime e h)" "rt_budget (init_runtime e h) = unat (rd_gas (e_data e))"
  using assms by (simp_all add: init_runtime_def rt_ok_def rt_budget_def budget_def new_array_def mem_words_def Cmem_def
      state_ok_def mem_ok_def)

lemma sample_init_ok: "rt_ok (init_runtime (sample_env static depth code) h)"
  by (rule init_runtime_ok) (simp add: sample_env_def)

end
