(* ===== verification/Simulation.thy ===== *)
theory Simulation
  imports Evm
begin

text \<open>
  Compiling a block keeps step with the interpreter of \<open>Evm\<close>: what the compiler has put into its
  virtual stack and emitted after some instructions, evaluated at run time, is what the interpreter
  has on its stack and has done to the state after the same instructions.
\<close>

section \<open>Arguments\<close>

text \<open>Whether an argument is a constant at compile time does not matter to what the code does.\<close>

lemma arg_eq: "map ssa_value args = map ssa_value args' \<Longrightarrow> i < length args \<Longrightarrow> arg args i = arg args' i"
  by (metis length_map nth_map)

lemma code_CALL_args:
  assumes e: "env_ok e" and s: "rt_ok s" and eq: "map ssa_value args = map ssa_value args'"
    and n: "(if inst = CALL \<or> inst = CALLCODE then 7 else 6) \<le> length args"
  shows "code_CALL e inst args s = code_CALL e inst args' s"
proof -
  let ?k = "if inst = CALL \<or> inst = CALLCODE then 3 else 2 :: nat"
  let ?v = "\<lambda>as. if inst = CALL \<or> inst = CALLCODE then arg as 2 else 0"
  have a: "arg args i = arg args' i" if "i < (if inst = CALL \<or> inst = CALLCODE then 7 else 6)" for i
    using that n by (intro arg_eq [OF eq]) simp
  have "arg args 0 = arg args' 0" "arg args 1 = arg args' 1" "?v args = ?v args'" "arg args ?k = arg args' ?k"
    "arg args (?k + 1) = arg args' (?k + 1)" "arg args (?k + 2) = arg args' (?k + 2)" "arg args (?k + 3) = arg args' (?k + 3)"
    using a by auto
  then show ?thesis unfolding code_CALL_eq [OF e s] by (simp only:)
qed

lemma exec_value_args:
  assumes e: "env_ok e" and s: "rt_ok s" and eq: "map ssa_value args = map ssa_value args'" and n: "pops inst \<le> length args"
  shows "exec_value e inst args s = exec_value e inst args' s"
proof -
  have a: "i < pops inst \<Longrightarrow> arg args i = arg args' i" for i
    using n by (intro arg_eq [OF eq]) simp
  have "code_CALL e i args s = code_CALL e i args' s"
    if "i \<in> {CALL, CALLCODE, DELEGATECALL, STATICCALL}" "i = inst" for i
    using that n by (intro code_CALL_args [OF e s eq]) (auto simp: pops_def)
  then show ?thesis
    using eq a [of 0] a [of 1] a [of 2]
    by (cases inst) (simp_all add: exec_value_def pops_def code_SHA3_eq [OF e s] code_MLOAD_eq [OF e s]
        code_BLOCKHASH_def code_CREATE_eq [OF s])
qed

lemma exec_effect_args:
  assumes e: "env_ok e" and s: "rt_ok s" and eq: "map ssa_value args = map ssa_value args'" and n: "pops inst \<le> length args"
  shows "exec_effect e inst args s = exec_effect e inst args' s"
proof (cases "\<exists>k. inst = LOG k")
  case True
  then obtain k where k: "inst = LOG k" by blast
  have "map (\<lambda>i. arg args (2 + i)) [0..<k] = map (\<lambda>i. arg args' (2 + i)) [0..<k]"
    using n by (intro map_cong refl arg_eq [OF eq]) (simp add: k pops_def)
  moreover have "arg args 0 = arg args' 0" "arg args 1 = arg args' 1"
    using n by (auto intro!: arg_eq [OF eq] simp: k pops_def)
  ultimately show ?thesis unfolding k exec_effect_def instruction.case code_LOG_eq [OF e s] by (simp only:)
next
  case False
  have a: "i < pops inst \<Longrightarrow> arg args i = arg args' i" for i
    using n by (intro arg_eq [OF eq]) simp
  from False show ?thesis
    using a [of 0] a [of 1] a [of 2] a [of 3]
    by (cases inst) (simp_all add: exec_effect_def pops_def code_MSTORE_eq [OF e s] code_MSTORE8_eq [OF e s]
        code_SSTORE_eq [OF s] code_CALLDATACOPY_eq [OF e s] code_CODECOPY_eq [OF e s] code_EXTCODECOPY_eq [OF e s]
        code_RETURNDATACOPY_eq [OF e s] code_RETURN_eq [OF e s] code_SUICIDE_eq [OF s])
qed

lemma ssa_value_ssa_of [simp]: "ssa_value (ssa_of ev v) = (case v of Const c \<Rightarrow> c | _ \<Rightarrow> ev v)"
  by (cases v) simp_all

section \<open>The values of the virtual stack\<close>

fun below :: "nat \<Rightarrow> val \<Rightarrow> bool" where
  "below k (Reg n) = (n < k)"
| "below k v = True"

definition vals_all :: "(val \<Rightarrow> bool) \<Rightarrow> val local_stack \<Rightarrow> bool" where
  "vals_all P ls \<longleftrightarrow> (\<forall>v \<in> set (m_local ls). P v) \<and> (\<forall>v. Some v \<in> set (m_input ls) \<longrightarrow> P v)"

lemma vals_all_new [simp]: "vals_all P new_local_stack"
  by (simp add: vals_all_def new_local_stack_def)

lemma vals_all_mono: "vals_all P ls \<Longrightarrow> (\<And>v. P v \<Longrightarrow> Q v) \<Longrightarrow> vals_all Q ls"
  by (auto simp: vals_all_def)

lemma set_resize: "Some v \<in> set (resize n xs) \<longleftrightarrow> Some v \<in> set xs"
  by (auto simp: resize_def)

lemma vals_all_get:
  assumes "vals_all P ls" "\<And>k. P (load k)" "stack_get load i ls = (v, ls')"
  shows "P v" "vals_all P ls'"
proof -
  have "P v \<and> vals_all P ls'"
  proof (cases "i < length (m_local ls)")
    case True
    then have "m_local ls ! (length (m_local ls) - 1 - i) \<in> set (m_local ls)" by (intro nth_mem) simp
    then show ?thesis using assms True by (auto simp: stack_get_def vals_all_def)
  next
    case False
    define idx where "idx = i - length (m_local ls) + m_globalPops ls"
    define inp where "inp = (if length (m_input ls) \<le> idx then resize (idx + 1) (m_input ls) else m_input ls)"
    have len: "idx < length inp" by (simp add: inp_def length_resize)
    have inp: "Some u \<in> set inp \<Longrightarrow> P u" for u
      using assms(1) by (auto simp: inp_def set_resize vals_all_def split: if_splits)
    have get: "stack_get load i ls = (case inp ! idx of
        Some item \<Rightarrow> (item, ls\<lparr> m_input := inp \<rparr>)
      | None \<Rightarrow> (load idx, ls\<lparr> m_input := inp[idx := Some (load idx)], m_minSize := min (m_minSize ls) (- int idx - 1) \<rparr>))"
      using False by (simp only: stack_get_def if_False idx_def [symmetric] inp_def [symmetric] Let_def)
    have upd: "Some u \<in> set (inp[idx := Some (load idx)]) \<Longrightarrow> P u" for u
      using inp assms(2) set_update_subset_insert [of inp idx "Some (load idx)"] by auto
    show ?thesis
    proof (cases "inp ! idx")
      case None
      then show ?thesis using assms(1,2,3) upd by (auto simp: get vals_all_def)
    next
      case (Some item)
      then have "P item" using inp len nth_mem [OF len] by simp
      then show ?thesis using assms(1,3) inp Some by (auto simp: get vals_all_def)
    qed
  qed
  then show "P v" "vals_all P ls'" by simp_all
qed

lemma vals_all_push: "vals_all P ls \<Longrightarrow> P v \<Longrightarrow> vals_all P (stack_push v ls)"
  by (simp add: vals_all_def stack_push_def Let_def)

lemma vals_all_pop:
  assumes "vals_all P ls" "\<And>k. P (load k)" "stack_pop load ls = (v, ls')"
  shows "P v" "vals_all P ls'"
proof -
  obtain w ls1 where g: "stack_get load 0 ls = (w, ls1)" by fastforce
  note d = vals_all_get [OF assms(1,2) g]
  then show "P v" "vals_all P ls'"
    using assms(3) in_set_butlastD [of _ "m_local ls1"] by (auto simp: stack_pop_def g Let_def vals_all_def split: if_splits)
qed

lemma vals_all_set: "vals_all P ls \<Longrightarrow> P w \<Longrightarrow> vals_all P (stack_set i w ls)"
  using set_update_subset_insert [of "m_local ls" _ w] set_update_subset_insert [of "m_input ls" _ "Some w"]
  by (fastforce simp: vals_all_def stack_set_def)

lemma vals_all_dup:
  assumes "vals_all P ls" "\<And>k. P (load k)"
  shows "vals_all P (stack_dup load i ls)"
proof -
  obtain w ls1 where g: "stack_get load i ls = (w, ls1)" by fastforce
  show ?thesis using vals_all_get [OF assms g] by (simp add: stack_dup_def g vals_all_push)
qed

lemma vals_all_swap:
  assumes "vals_all P ls" "\<And>k. P (load k)"
  shows "vals_all P (stack_swap load i ls)"
proof -
  obtain v ls1 where g: "stack_get load i ls = (v, ls1)" by fastforce
  obtain w ls2 where h: "stack_get load 0 ls1 = (w, ls2)" by fastforce
  note d = vals_all_get [OF assms g]
  note d' = vals_all_get [OF d(2) assms(2) h]
  show ?thesis using d d' by (simp add: stack_swap_def g h vals_all_set)
qed

text \<open>Registers that the stack does not mention do not matter.\<close>

lemma stack_of_cong:
  assumes "vals_all P ls" "\<And>v. P v \<Longrightarrow> ev v = ev' v"
  shows "stack_of ev G ls = stack_of ev' G ls"
proof -
  have "input_item ls k = Some v \<Longrightarrow> P v" for k v
    using assms(1) by (auto simp: input_item_def vals_all_def in_set_conv_nth split: if_splits)
  then have "slot_value ev G ls k = slot_value ev' G ls k" for k
    using assms(2) by (auto simp: slot_value_def split: option.split)
  moreover have "map ev (rev (m_local ls)) = map ev' (rev (m_local ls))"
    using assms by (auto simp: vals_all_def)
  ultimately show ?thesis by (simp add: stack_of_def)
qed

section \<open>Popping the arguments\<close>

primrec stack_pops :: "nat \<Rightarrow> val local_stack \<Rightarrow> val list \<times> val local_stack" where
  "stack_pops 0 ls = ([], ls)"
| "stack_pops (Suc n) ls = (let (v, ls1) = stack_pop Slot ls; (vs, ls2) = stack_pops n ls1 in (v # vs, ls2))"

lemma pop_vals_eq: "pop_vals n cs = (fst (stack_pops n (cs_stack cs)), cs\<lparr> cs_stack := snd (stack_pops n (cs_stack cs)) \<rparr>)"
  by (induction n arbitrary: cs) (simp_all add: pop_val_def Let_def case_prod_beta)

lemma stack_pops_Suc:
  assumes "stack_pops (Suc n) ls = (vs, ls')"
  obtains v ls1 vs1 where "stack_pop Slot ls = (v, ls1)" "stack_pops n ls1 = (vs1, ls')" "vs = v # vs1"
  using assms by (auto simp: Let_def case_prod_beta prod_eq_iff)

lemma length_stack_pops: "stack_pops n ls = (vs, ls') \<Longrightarrow> length vs = n"
  by (induction n arbitrary: ls vs) (auto elim!: stack_pops_Suc simp del: stack_pops.simps(2))

lemma stack_pops_ok:
  assumes "local_stack_ok ls" "stack_pops n ls = (vs, ls')"
  shows "local_stack_ok ls' \<and> stack_size ls' = stack_size ls - int n \<and> m_maxSize ls' = m_maxSize ls \<and>
    m_minSize ls' \<le> m_minSize ls"
  using assms
proof (induction n arbitrary: ls vs)
  case (Suc n)
  obtain v ls1 vs1 where p: "stack_pop Slot ls = (v, ls1)" "stack_pops n ls1 = (vs1, ls')"
    using Suc.prems(2) by (rule stack_pops_Suc)
  note d = stack_pop_ok [OF Suc.prems(1) p(1)]
  show ?case using Suc.IH [OF d(1) p(2)] d by auto
qed simp

lemma vals_all_pops:
  "vals_all P ls \<Longrightarrow> (\<And>k. P (Slot k)) \<Longrightarrow> stack_pops n ls = (vs, ls') \<Longrightarrow> (\<forall>v \<in> set vs. P v) \<and> vals_all P ls'"
proof (induction n arbitrary: ls vs)
  case (Suc n)
  obtain v ls1 vs1 where p: "stack_pop Slot ls = (v, ls1)" "stack_pops n ls1 = (vs1, ls')" "vs = v # vs1"
    using Suc.prems(3) by (rule stack_pops_Suc)
  note d = vals_all_pop [OF Suc.prems(1) _ p(1)]
  show ?case using Suc.IH [OF d(2) _ p(2)] d(1) Suc.prems(2) by (auto simp: p(3))
qed simp

lemma stack_pops_counters:
  "local_stack_ok ls \<Longrightarrow> counters_ok j ls \<Longrightarrow> stack_pops n ls = (vs, ls') \<Longrightarrow> counters_ok (j + n) ls'"
proof (induction n arbitrary: j ls vs)
  case (Suc n)
  obtain v ls1 vs1 where p: "stack_pop Slot ls = (v, ls1)" "stack_pops n ls1 = (vs1, ls')"
    using Suc.prems(3) by (rule stack_pops_Suc)
  have "counters_ok (Suc j) ls1" using op_counters [of ls Pop j Slot] Suc.prems(1,2) p(1) by (simp add: op_ok_def)
  then show ?case using Suc.IH [OF stack_pop_ok(1) [OF Suc.prems(1) p(1)] _ p(2)] by fastforce
qed simp

lemma stack_pops_fits:
  "local_stack_ok ls \<Longrightarrow> fits N ls \<Longrightarrow> stack_pops n ls = (vs, ls') \<Longrightarrow> fits N ls' \<longleftrightarrow> int n \<le> int N + stack_size ls"
proof (induction n arbitrary: ls vs)
  case 0
  then show ?case using fits_mono [of N ls ls] by (auto simp: fits_def local_stack_ok_def)
next
  case (Suc n)
  obtain v ls1 vs1 where p: "stack_pop Slot ls = (v, ls1)" "stack_pops n ls1 = (vs1, ls')"
    using Suc.prems(3) by (rule stack_pops_Suc)
  note d = stack_pop_ok [OF Suc.prems(1) p(1)] and d' = stack_pops_ok [OF stack_pop_ok(1) [OF Suc.prems(1) p(1)] p(2)]
  show ?case
  proof (cases "fits N ls1")
    case True
    then show ?thesis using Suc.IH [OF d(1) True p(2)] d(2) d(5) [OF Suc.prems(2)] by linarith
  next
    case False
    then have "\<not> fits N ls'" using fits_mono [of N ls' ls1] d' by auto
    then show ?thesis using d(5) [OF Suc.prems(2)] False by linarith
  qed
qed

lemma stack_pops_refines:
  "local_stack_ok ls \<Longrightarrow> loads ev Slot G \<Longrightarrow> fits (length G) ls' \<Longrightarrow> stack_pops n ls = (vs, ls') \<Longrightarrow>
   map ev vs = take n (stack_of ev G ls) \<and> stack_of ev G ls' = drop n (stack_of ev G ls)"
proof (induction n arbitrary: ls vs)
  case (Suc n)
  obtain v ls1 vs1 where p: "stack_pop Slot ls = (v, ls1)" "stack_pops n ls1 = (vs1, ls')" "vs = v # vs1"
    using Suc.prems(4) by (rule stack_pops_Suc)
  note d = stack_pop_ok [OF Suc.prems(1) p(1)] and d' = stack_pops_ok [OF stack_pop_ok(1) [OF Suc.prems(1) p(1)] p(2)]
  have f1: "fits (length G) ls1" using fits_mono [OF Suc.prems(3)] d' by auto
  then have f: "fits (length G) ls" using fits_mono d(3,4) by (metis order_refl)
  have "evm_pop (stack_of ev G ls) = Some (ev v, stack_of ev G ls1)"
    using stack_pop_refines [OF Suc.prems(1) p(1) Suc.prems(2) f] f1 by simp
  then have "stack_of ev G ls = ev v # stack_of ev G ls1" by (auto simp: evm_pop_def split: list.splits)
  then show ?case using Suc.IH [OF d(1) Suc.prems(2,3) p(2)] by (simp add: p(3))
qed simp

section \<open>Values and effects\<close>

abbreviation run_ops :: "'h env \<Rightarrow> (regs \<Rightarrow> val \<Rightarrow> word256) \<Rightarrow> op cost_action list \<Rightarrow> 'h run_state \<Rightarrow> 'h run_state outcome" where
  "run_ops e ev \<equiv> run_acts (e_rev e) (exec_op e ev) pay_run"

text \<open>The constant folder replaces an operation by one of its operands or by a constant, of the value
  that the operation has.\<close>

definition folder_ok :: "'h env \<Rightarrow> (instruction \<Rightarrow> val list \<Rightarrow> val option) \<Rightarrow> bool" where
  "folder_ok e folder \<longleftrightarrow>
     (\<forall>inst vs v. folder inst vs = Some v \<longrightarrow>
        (v \<in> set vs \<or> (\<exists>c. v = Const c)) \<and>
        (\<forall>ev. (\<forall>c. ev (Const c) = c) \<longrightarrow> word_op e inst (map ev vs) = Some (ev v)))"

definition word_insts :: "instruction list" where
  "word_insts = arith_insts @ bit_insts"

text \<open>The cases of the instructions that push a result, as one function.\<close>

definition pre_acts :: "instruction \<Rightarrow> val list \<Rightarrow> op cost_action list" where
  "pre_acts inst vs =
     (case inst of
        EXP \<Rightarrow> [Op (CountExp (vs ! 1))]
      | CREATE \<Rightarrow> [Op (MemRequire (vs ! 1) (vs ! 2)), Commit]
      | _ \<Rightarrow> if behind_commit inst then [Commit] else [])"

definition make_value :: "config \<Rightarrow> instruction \<Rightarrow> val list \<Rightarrow> comp_state \<Rightarrow> val \<times> comp_state" where
  "make_value cfg inst vs cs =
     (if inst \<in> set word_insts then create_value cfg inst vs cs
      else if inst = EXP then create_exp (vs ! 0) (vs ! 1) cs
      else new_value inst vs cs)"

definition gen_value :: "config \<Rightarrow> instruction \<Rightarrow> comp_state \<Rightarrow> comp_state" where
  "gen_value cfg inst cs =
     (let (vs, cs1) = pop_vals (pops inst) cs;
          (v, cs2) = make_value cfg inst vs (cs1\<lparr> cs_acts := cs_acts cs1 @ pre_acts inst vs \<rparr>)
      in push_val v cs2)"

definition effect_exit :: "instruction \<Rightarrow> evm_next option" where
  "effect_exit inst =
     (case inst of
        RETURN \<Rightarrow> Some (Halt Return) | REVERT \<Rightarrow> Some (Halt Revert) | SUICIDE \<Rightarrow> Some (Halt Stop)
      | MSTORE \<Rightarrow> Some Fall | MSTORE8 \<Rightarrow> Some Fall | SSTORE \<Rightarrow> Some Fall | CALLDATACOPY \<Rightarrow> Some Fall
      | RETURNDATACOPY \<Rightarrow> Some Fall | CODECOPY \<Rightarrow> Some Fall | EXTCODECOPY \<Rightarrow> Some Fall | LOG n \<Rightarrow> Some Fall
      | _ \<Rightarrow> None)"

definition special :: "instruction \<Rightarrow> bool" where
  "special inst =
     (case inst of STOP \<Rightarrow> True | POP \<Rightarrow> True | PUSH n \<Rightarrow> True | DUP n \<Rightarrow> True | SWAP n \<Rightarrow> True | JUMPDEST \<Rightarrow> True
      | PC \<Rightarrow> True | CODESIZE \<Rightarrow> True | JUMP \<Rightarrow> True | JUMPI \<Rightarrow> True | _ \<Rightarrow> False)"

lemma evm_exec_value: "\<not> special inst \<Longrightarrow> effect_exit inst = None \<Longrightarrow> evm_exec e code pc inst S s = evm_value e inst S s"
  by (cases inst) (simp_all add: special_def effect_exit_def evm_exec_def)

lemma evm_exec_effect: "effect_exit inst = Some nxt \<Longrightarrow> evm_exec e code pc inst S s = evm_effect e inst nxt S s"
  by (cases inst) (auto simp: effect_exit_def evm_exec_def)

lemma compile_value:
  assumes "\<not> special inst" "effect_exit inst = None" "enabled (c_rev cfg) (c_static cfg) inst"
  shows "compile_words cfg code (Some inst) bb it cs = (gen_value cfg inst cs, it)"
  using assms
  by (cases inst) (simp_all add: special_def effect_exit_def enabled_def compile_inst_defs gen_value_def make_value_def
      pre_acts_def pops_def behind_commit_def word_insts_def arith_insts_def bit_insts_def word_case_def value_case_def
      call_case_def add_act_def Let_def case_prod_beta numeral_2_eq_2 numeral_3_eq_3)

lemma compile_effect:
  assumes "effect_exit inst = Some nxt" "enabled (c_rev cfg) (c_static cfg) inst"
  shows "compile_words cfg code (Some inst) bb it cs =
    ((case nxt of Halt rc \<Rightarrow> set_term (TExit rc) | _ \<Rightarrow> id) (effect_case inst (pops inst) cs), it)"
  using assms by (cases inst) (auto simp: effect_exit_def enabled_def compile_inst_defs pops_def)

section \<open>What one case of the switch keeps and does\<close>

definition cs_ok :: "comp_state \<Rightarrow> bool" where
  "cs_ok cs \<longleftrightarrow> local_stack_ok (cs_stack cs) \<and> vals_all (below (cs_next cs)) (cs_stack cs)"

definition no_count :: "op cost_action list \<Rightarrow> bool" where
  "no_count as \<longleftrightarrow> (\<forall>inst. Count inst \<notin> set as)"

text \<open>SSA form: every operation reads registers that an earlier one has written, and each register is
  written once, in the order of its number.  The result is the number of registers.\<close>

fun reads :: "op \<Rightarrow> val list" where
  "reads (Eval n inst vs) = vs"
| "reads (Do inst vs) = vs"
| "reads (MemRequire off len) = [off, len]"
| "reads (CountExp exponent) = [exponent]"

fun writes :: "op \<Rightarrow> nat option" where
  "writes (Eval n inst vs) = Some n"
| "writes a = None"

fun ssa_acts :: "nat \<Rightarrow> op cost_action list \<Rightarrow> nat option" where
  "ssa_acts k [] = Some k"
| "ssa_acts k (Op a # as) =
     (if (\<forall>v \<in> set (reads a). below k v) \<and> (writes a = None \<or> writes a = Some k)
      then ssa_acts (if writes a = None then k else k + 1) as else None)"
| "ssa_acts k (Count inst # as) = ssa_acts k as"
| "ssa_acts k (Commit # as) = ssa_acts k as"

lemma ssa_acts_append: "ssa_acts k (as @ bs) = Option.bind (ssa_acts k as) (\<lambda>n. ssa_acts n bs)"
  by (induction k as rule: ssa_acts.induct) simp_all

fun term_vals :: "terminator option \<Rightarrow> val set" where
  "term_vals (Some (TJump dest)) = {dest}"
| "term_vals (Some (TJumpI dest cond)) = {dest, cond}"
| "term_vals t = {}"

text \<open>At compile time: emitted actions, bounds and registers only grow.\<close>

definition comp_step :: "comp_state \<Rightarrow> comp_state \<Rightarrow> op cost_action list \<Rightarrow> bool" where
  "comp_step cs cs' as \<longleftrightarrow>
     cs_acts cs' = cs_acts cs @ as \<and> well_metered metered_op True as \<and> no_count as \<and> cs_ok cs' \<and>
     ssa_acts (cs_next cs) as = Some (cs_next cs') \<and> (\<forall>v \<in> term_vals (cs_term cs'). below (cs_next cs') v) \<and>
     m_minSize (cs_stack cs') \<le> m_minSize (cs_stack cs) \<and> m_maxSize (cs_stack cs) \<le> m_maxSize (cs_stack cs') \<and>
     (\<forall>j. counters_ok j (cs_stack cs) \<longrightarrow> counters_ok (j + 8) (cs_stack cs'))"

definition term_next :: "byte list \<Rightarrow> (val \<Rightarrow> word256) \<Rightarrow> terminator option \<Rightarrow> evm_next" where
  "term_next code ev trm =
     (case trm of
        None \<Rightarrow> Fall
      | Some (TJump dest) \<Rightarrow> jump_to code (ev dest)
      | Some (TJumpI dest cond) \<Rightarrow> if ev cond \<noteq> 0 then jump_to code (ev dest) else Fall
      | Some (TExit rc) \<Rightarrow> Halt rc)"

text \<open>At run time: the actions do what the reference \<open>F\<close> does, for every stack \<open>G\<close> at the block's entry.\<close>

definition holds_stack :: "word256 list \<Rightarrow> word256 list \<Rightarrow> bool" where
  "holds_stack base G \<longleftrightarrow> length base = stackSizeLimit \<and> length G \<le> stackSizeLimit \<and> take (length G) base = rev G"

definition after_ops ::
    "'h env \<Rightarrow> byte list \<Rightarrow> (regs \<Rightarrow> val \<Rightarrow> word256) \<Rightarrow> word256 list \<Rightarrow> comp_state \<Rightarrow> op cost_action list \<Rightarrow>
     'h run_state \<Rightarrow> 'h evm_result" where
  "after_ops e code ev G cs' as st =
     (if fits (length G) (cs_stack cs')
      then obind (run_ops e ev as st) (\<lambda>(regs, s).
             Done (term_next code (ev regs) (cs_term cs'), stack_of (ev regs) G (cs_stack cs'), s))
      else LongJmp)"

definition step_runs ::
    "'h env \<Rightarrow> byte list \<Rightarrow> comp_state \<Rightarrow> comp_state \<Rightarrow> op cost_action list \<Rightarrow>
     (word256 list \<Rightarrow> 'h rt_state \<Rightarrow> 'h evm_result) \<Rightarrow> bool" where
  "step_runs e code cs cs' as F \<longleftrightarrow>
     (\<forall>base G regs s. holds_stack base G \<longrightarrow> fits (length G) (cs_stack cs) \<longrightarrow> rt_ok s \<longrightarrow>
        F (stack_of (eval_val base (length G) regs) G (cs_stack cs)) s =
          after_ops e code (eval_val base (length G)) G cs' as (regs, s))"

definition step_sim ::
    "'h env \<Rightarrow> byte list \<Rightarrow> comp_state \<Rightarrow> comp_state \<Rightarrow> (word256 list \<Rightarrow> 'h rt_state \<Rightarrow> 'h evm_result) \<Rightarrow> bool" where
  "step_sim e code cs cs' F \<longleftrightarrow> (\<exists>as. comp_step cs cs' as \<and> step_runs e code cs cs' as F)"

lemma eval_val_below [simp]: "below k v \<Longrightarrow> eval_val base sp (regs(k := w)) v = eval_val base sp regs v"
  by (cases v) simp_all

lemma below_mono: "below k v \<Longrightarrow> k \<le> k' \<Longrightarrow> below k' v"
  by (cases v) simp_all

lemma loads_eval_val: "holds_stack base G \<Longrightarrow> loads (eval_val base (length G) regs) Slot G"
  unfolding loads_def
proof (intro allI impI)
  fix k
  assume h: "holds_stack base G" and k: "k < length G"
  then have "base ! (length G - 1 - k) = take (length G) base ! (length G - 1 - k)" by simp
  also have "\<dots> = G ! k" using h k by (simp add: holds_stack_def rev_nth)
  finally show "eval_val base (length G) regs (Slot k) = G ! k" by simp
qed

lemma counters_mono: "counters_ok j ls \<Longrightarrow> j \<le> k \<Longrightarrow> counters_ok k ls"
  by (simp add: counters_ok_def)

lemma run_acts_Nil [simp]: "run_acts m_rev ex py [] = Done"
  by (rule ext) simp

lemma run_acts_Commit [simp]: "run_acts m_rev ex py (Commit # as) = run_acts m_rev ex py as"
  by (rule ext) simp

text \<open>Making a value: the emitted actions leave it where the compiler says.\<close>

lemma exec_value_word:
  "inst \<in> set word_insts \<Longrightarrow> exec_value e inst args s = use (word_op e inst (map ssa_value args)) (\<lambda>v. Done (v, s))"
  by (cases inst) (simp_all add: word_insts_def arith_insts_def bit_insts_def exec_value_def env_insts_def)

lemma make_value_sim:
  assumes e: "env_ok e" and folder: "folder_ok e (c_fold cfg)"
    and v: "make_value cfg inst vs cs = (v, cs')" and n: "length vs = pops inst"
    and vs: "\<forall>u \<in> set vs. below (cs_next cs) u"
  obtains as R where "cs' = cs\<lparr> cs_acts := cs_acts cs @ as, cs_next := cs_next cs' \<rparr>" "cs_next cs \<le> cs_next cs'"
    "below (cs_next cs') v" "no_count as" "well_metered metered_op (\<not> behind_commit inst) as"
    "ssa_acts (cs_next cs) as = Some (cs_next cs')"
    "\<And>base sp regs s. rt_ok s \<Longrightarrow> run_ops e (eval_val base sp) as (regs, s) =
       obind (exec_value e inst (map (\<lambda>u. Inst (eval_val base sp regs u)) vs) s) (\<lambda>(w, s'). Done (R regs w, s'))"
    "\<And>base sp regs s w s'. exec_value e inst (map (\<lambda>u. Inst (eval_val base sp regs u)) vs) s = Done (w, s') \<Longrightarrow>
       eval_val base sp (R regs w) v = w \<and> (\<forall>u. below (cs_next cs) u \<longrightarrow> eval_val base sp (R regs w) u = eval_val base sp regs u)"
proof -
  note result = that
  let ?args = "\<lambda>base sp regs. map (\<lambda>u. Inst (eval_val base sp regs u)) vs"
  have fresh: thesis if fr: "(v, cs') = new_value inst vs cs"
  proof (rule result [of "[Op (Eval (cs_next cs) inst vs)]" "\<lambda>regs w. regs(cs_next cs := w)"], goal_cases)
    case (7 base sp regs s)
    have "exec_value e inst (map (ssa_of (eval_val base sp regs)) vs) s = exec_value e inst (?args base sp regs) s"
      using n by (intro exec_value_args [OF e 7]) (auto split: val.split)
    then show ?case by simp
  qed (use fr vs in \<open>simp_all add: new_value_def add_act_def no_count_def\<close>)
  have same: thesis if "cs' = cs" "below (cs_next cs) v"
    and "\<And>base sp regs s. exec_value e inst (?args base sp regs) s = Done (eval_val base sp regs v, s)"
    by (rule result [of "[]" "\<lambda>regs w. regs"]) (use that in \<open>simp_all add: no_count_def\<close>)
  show ?thesis
  proof (cases "inst \<in> set word_insts")
    case True
    show ?thesis
    proof (cases "c_fold cfg inst vs")
      case None
      then show ?thesis using v True by (intro fresh) (simp add: make_value_def create_value_def)
    next
      case (Some u)
      note f = folder [unfolded folder_ok_def, rule_format, OF Some]
      have uv: "v = u" "cs' = cs" using v True Some by (simp_all add: make_value_def create_value_def)
      have "word_op e inst (map (eval_val base sp regs) vs) = Some (eval_val base sp regs u)" for base sp regs
        using f by simp
      then show ?thesis
        using f vs uv by (intro same) (auto simp: exec_value_word [OF True] comp_def)
    qed
  next
    case False
    show ?thesis
    proof (cases "inst = EXP")
      case True
      then obtain x y where xy: "vs = [x, y]"
        using n by (auto simp: pops_def length_Suc_conv numeral_2_eq_2)
      show ?thesis
      proof (cases "\<exists>b c. x = Const b \<and> y = Const c")
        case True
        then obtain b c where bc: "x = Const b" "y = Const c" by blast
        have "v = Const (getExpFunc b c)" "cs' = cs"
          using v False \<open>inst = EXP\<close> by (simp_all add: make_value_def create_exp_def xy bc exp_fold_eq_loop getExpFunc_def)
        then show ?thesis using \<open>inst = EXP\<close> by (intro same) (simp_all add: exec_value_def xy bc)
      next
        case False
        then have "(v, cs') = new_value inst vs cs"
          using v \<open>inst \<notin> set word_insts\<close> \<open>inst = EXP\<close>
          by (simp add: make_value_def create_exp_def xy split: val.splits)
        then show ?thesis by (rule fresh)
      qed
    next
      case False
      then show ?thesis using v \<open>inst \<notin> set word_insts\<close> by (intro fresh) (simp add: make_value_def)
    qed
  qed
qed

text \<open>The instructions with a result.\<close>

lemma pre_acts_run:
  assumes e: "env_ok e" and s: "rt_ok s" and n: "length vs = pops inst"
  shows "run_ops e (eval_val base sp) (pre_acts inst vs) (regs, s) =
    obind (evm_pay_dynamic e inst (map (eval_val base sp regs) vs) s) (\<lambda>s1. Done (regs, s1))"
proof -
  let ?ev = "eval_val base sp regs"
  have eq: "ssa_value (ssa_of ?ev v) = ?ev v" for v by (cases v) simp_all
  have r: "on_mem (require (e_machine e) off (ssa_of ?ev v)) s = on_mem (require (e_machine e) off (Inst (?ev v))) s" for off v
    unfolding on_mem_require [OF e s] eq ssa_value.simps by (rule refl)
  show ?thesis
    using n by (cases inst) (simp_all add: pre_acts_def evm_pay_dynamic_def pops_def r)
qed

lemma pre_acts_static: "no_count (pre_acts inst vs)" "well_metered metered_op True (pre_acts inst vs)"
  "opened_after True (pre_acts inst vs) = (\<not> behind_commit inst)"
  by (cases inst; simp add: pre_acts_def no_count_def behind_commit_def)+

lemma pre_acts_ssa: "length vs = pops inst \<Longrightarrow> \<forall>v \<in> set vs. below k v \<Longrightarrow> ssa_acts k (pre_acts inst vs) = Some k"
  by (cases inst) (simp_all add: pre_acts_def pops_def)

lemma no_count_append [simp]: "no_count (as @ bs) \<longleftrightarrow> no_count as \<and> no_count bs"
  by (auto simp: no_count_def)

lemma pops_bound: "valid_instruction inst \<Longrightarrow> pops inst \<le> 7"
  by (cases inst) (simp_all add: pops_def valid_instruction_def)

lemma fits_push_pops:
  assumes ok: "local_stack_ok ls" and p: "stack_pops n ls = (vs, ls1)" and f: "fits N ls"
  shows "fits N (stack_push v ls1) \<longleftrightarrow> int n \<le> int N + stack_size ls \<and> int N + stack_size ls - int n < int stackSizeLimit"
proof -
  note d = stack_pops_ok [OF ok p] and f1 = stack_pops_fits [OF ok f p]
  note q = stack_push_ok [where ls = ls1 and v = v]
  show ?thesis
  proof (cases "fits N ls1")
    case True
    then show ?thesis using q(5) d f1 by auto
  next
    case False
    moreover have "\<not> fits N (stack_push v ls1)" using False fits_mono [of N "stack_push v ls1" ls1] q d by auto
    ultimately show ?thesis using f1 by simp
  qed
qed

lemma gen_value_sim:
  assumes e: "env_ok e" and folder: "folder_ok e (c_fold cfg)" and cs: "cs_ok cs" and valid: "valid_instruction inst"
    and trm: "cs_term cs = None"
  shows "step_sim e code cs (gen_value cfg inst cs) (evm_value e inst)"
proof -
  let ?n = "pops inst" and ?ls = "cs_stack cs"
  obtain vs ls1 where p: "stack_pops ?n ?ls = (vs, ls1)" by fastforce
  define cs1 where "cs1 = cs\<lparr> cs_stack := ls1, cs_acts := cs_acts cs @ pre_acts inst vs \<rparr>"
  obtain v cs2 where mv: "make_value cfg inst vs cs1 = (v, cs2)" by fastforce
  have cs': "gen_value cfg inst cs = push_val v cs2"
    using mv by (simp add: gen_value_def pop_vals_eq p cs1_def)
  have ok: "local_stack_ok ?ls" and below: "vals_all (below (cs_next cs)) ?ls" using cs by (simp_all add: cs_ok_def)
  note d = stack_pops_ok [OF ok p] and n = length_stack_pops [OF p]
  have bs: "\<forall>u \<in> set vs. below (cs_next cs) u" "vals_all (below (cs_next cs)) ls1"
    using vals_all_pops [OF below _ p] by auto
  obtain as R where mk: "cs2 = cs1\<lparr> cs_acts := cs_acts cs1 @ as, cs_next := cs_next cs2 \<rparr>" "cs_next cs1 \<le> cs_next cs2"
    "below (cs_next cs2) v" "no_count as" "well_metered metered_op (\<not> behind_commit inst) as"
    "ssa_acts (cs_next cs1) as = Some (cs_next cs2)"
    and run: "\<And>base sp regs s. rt_ok s \<Longrightarrow> run_ops e (eval_val base sp) as (regs, s) =
       obind (exec_value e inst (map (\<lambda>u. Inst (eval_val base sp regs u)) vs) s) (\<lambda>(w, s'). Done (R regs w, s'))"
    and R: "\<And>base sp regs s w s'. exec_value e inst (map (\<lambda>u. Inst (eval_val base sp regs u)) vs) s = Done (w, s') \<Longrightarrow>
       eval_val base sp (R regs w) v = w \<and> (\<forall>u. below (cs_next cs1) u \<longrightarrow> eval_val base sp (R regs w) u = eval_val base sp regs u)"
    using make_value_sim [OF e folder mv n] bs(1) unfolding cs1_def by auto
  let ?as = "pre_acts inst vs @ as"
  have st: "cs_stack (push_val v cs2) = stack_push v ls1" "cs_term (push_val v cs2) = None"
    "cs_acts (push_val v cs2) = cs_acts cs @ ?as" "cs_next (push_val v cs2) = cs_next cs2" "cs_next cs1 = cs_next cs"
    using mk(1) trm by (simp_all add: push_val_def cs1_def) (metis comp_state.simps comp_state.surjective)+
  have vals: "vals_all (below (cs_next cs2)) ls1"
    by (rule vals_all_mono [OF bs(2)]) (use mk(2) st(5) below_mono in auto)
  have "comp_step cs (push_val v cs2) ?as"
  proof -
    have "counters_ok (j + 8) (stack_push v ls1)" if "counters_ok j ?ls" for j
      using push_counters [where ls = ls1 and j = "j + ?n" and v = v] stack_pops_counters [OF ok that p] d pops_bound [OF valid]
      by (auto elim: counters_mono)
    then show ?thesis
      using mk(2-6) stack_push_ok [where ls = ls1 and v = v] d vals_all_push [OF vals mk(3)]
      by (simp add: comp_step_def st cs_ok_def well_metered_append pre_acts_static ssa_acts_append pre_acts_ssa [OF n bs(1)])
  qed
  moreover have "step_runs e code cs (push_val v cs2) ?as (evm_value e inst)"
    unfolding step_runs_def
  proof (intro allI impI)
    fix base G regs and s :: "'a rt_state"
    assume h: "holds_stack base G" and f: "fits (length G) ?ls" and s: "rt_ok s"
    let ?ev = "eval_val base (length G)"
    let ?S = "stack_of (?ev regs) G ?ls"
    have len: "int (length ?S) = int (length G) + stack_size ?ls" by (rule length_stack_of [OF ok f])
    have fit: "fits (length G) (stack_push v ls1) \<longleftrightarrow> ?n \<le> length ?S \<and> length ?S - ?n < stackSizeLimit"
      unfolding fits_push_pops [OF ok p f] using len by linarith
    show "evm_value e inst ?S s = after_ops e code ?ev G (push_val v cs2) ?as (regs, s)"
    proof (cases "fits (length G) (stack_push v ls1)")
      case True
      then have f1: "fits (length G) ls1" using fits_mono stack_push_ok [where ls = ls1 and v = v] d by (metis order_refl)
      have args: "map (?ev regs) vs = take ?n ?S" and rest: "stack_of (?ev regs) G ls1 = drop ?n ?S"
        using stack_pops_refines [OF ok loads_eval_val [OF h] f1 p] by blast+
      have evm: "evm_value e inst ?S s = obind (evm_pay_dynamic e inst (map (?ev regs) vs) s) (\<lambda>s1.
          obind (exec_value e inst (map (\<lambda>u. Inst (?ev regs u)) vs) s1) (\<lambda>(w, s2). Done (Fall, w # drop ?n ?S, s2)))"
        using True fit by (simp add: evm_value_def evm_compute_def obind_assoc args [symmetric] comp_def)
      have post: "stack_of (?ev (R regs w)) G (stack_push v ls1) = w # drop ?n ?S"
        if "exec_value e inst (map (\<lambda>u. Inst (?ev regs u)) vs) s1 = Done (w, s2)" for s1 w s2
      proof -
        have "stack_of (?ev (R regs w)) G ls1 = stack_of (?ev regs) G ls1"
          using R [OF that] st(5) by (intro stack_of_cong [OF bs(2)]) simp
        moreover have "evm_push (?ev (R regs w) v) (stack_of (?ev (R regs w)) G ls1) =
            Some (stack_of (?ev (R regs w)) G (stack_push v ls1))"
          using stack_push_refines [OF _ f1, of "?ev (R regs w)" v] True d by simp
        ultimately show ?thesis using R [OF that] rest by (auto simp: evm_push_def split: if_splits)
      qed
      have "rt_ok s1" if "evm_pay_dynamic e inst (map (?ev regs) vs) s = Done s1" for s1
        using keepsD [OF evm_pay_dynamic_keeps [OF e] s that] by simp
      then show ?thesis
        using True unfolding evm after_ops_def st run_acts_append pre_acts_run [OF e s n] obind_assoc
        by (simp add: term_next_def, intro obind_cong refl) (auto simp: run obind_assoc post intro!: obind_cong)
    next
      case False
      then show ?thesis using fit by (auto simp: evm_value_def after_ops_def st)
    qed
  qed
  ultimately show ?thesis unfolding cs' step_sim_def by blast
qed

text \<open>The instructions without a result.\<close>

lemma gen_effect_sim:
  assumes e: "env_ok e" and cs: "cs_ok cs" and valid: "valid_instruction inst" and trm: "cs_term cs = None"
    and exit: "nxt = Fall \<and> cs' = effect_case inst (pops inst) cs \<or>
      (\<exists>rc. nxt = Halt rc \<and> cs' = set_term (TExit rc) (effect_case inst (pops inst) cs))"
  shows "step_sim e code cs cs' (evm_effect e inst nxt)"
proof -
  let ?n = "pops inst" and ?ls = "cs_stack cs"
  obtain vs ls1 where p: "stack_pops ?n ?ls = (vs, ls1)" by fastforce
  let ?as = "[Op (Do inst vs)]"
  have st: "cs_stack cs' = ls1" "cs_acts cs' = cs_acts cs @ ?as" "cs_next cs' = cs_next cs"
    "\<And>ev. term_next code ev (cs_term cs') = nxt"
    using exit trm by (auto simp: effect_case_def pop_vals_eq p add_act_def set_term_def term_next_def)
  have ok: "local_stack_ok ?ls" and below: "vals_all (below (cs_next cs)) ?ls" using cs by (simp_all add: cs_ok_def)
  note d = stack_pops_ok [OF ok p] and n = length_stack_pops [OF p]
  have "vals_all (below (cs_next cs)) ls1" "\<forall>v \<in> set vs. below (cs_next cs) v" using vals_all_pops [OF below _ p] by auto
  moreover have "counters_ok (j + 8) ls1" if "counters_ok j ?ls" for j
    using stack_pops_counters [OF ok that p] pops_bound [OF valid] by (auto elim: counters_mono)
  moreover have "term_vals (cs_term cs') = {}"
    using exit trm by (auto simp: effect_case_def pop_vals_eq p add_act_def set_term_def)
  ultimately have "comp_step cs cs' ?as"
    using d by (simp add: comp_step_def st cs_ok_def no_count_def)
  moreover have "step_runs e code cs cs' ?as (evm_effect e inst nxt)"
    unfolding step_runs_def
  proof (intro allI impI)
    fix base G regs and s :: "'a rt_state"
    assume h: "holds_stack base G" and f: "fits (length G) ?ls" and s: "rt_ok s"
    let ?ev = "eval_val base (length G)"
    let ?S = "stack_of (?ev regs) G ?ls"
    have fit: "fits (length G) ls1 \<longleftrightarrow> ?n \<le> length ?S"
      unfolding stack_pops_fits [OF ok f p] using length_stack_of [OF ok f, of "?ev regs"] by linarith
    show "evm_effect e inst nxt ?S s = after_ops e code ?ev G cs' ?as (regs, s)"
    proof (cases "fits (length G) ls1")
      case True
      have args: "map (?ev regs) vs = take ?n ?S" and rest: "stack_of (?ev regs) G ls1 = drop ?n ?S"
        using stack_pops_refines [OF ok loads_eval_val [OF h] True p] by blast+
      have "exec_effect e inst (map (ssa_of (?ev regs)) vs) s = exec_effect e inst (map Inst (take ?n ?S)) s"
        unfolding args [symmetric] using n by (intro exec_effect_args [OF e s]) (auto split: val.split)
      then show ?thesis
        using True fit by (simp add: evm_effect_def after_ops_def st rest obind_assoc)
    next
      case False
      then show ?thesis using fit by (auto simp: evm_effect_def after_ops_def st)
    qed
  qed
  ultimately show ?thesis unfolding step_sim_def by blast
qed

text \<open>The instructions that only move values of the stack.\<close>

lemma vals_all_op:
  assumes "vals_all P ls" "\<And>k. P (Slot k)" "\<And>v. p = Push v \<Longrightarrow> P v"
  shows "vals_all P (do_stack_op Slot p ls)"
  using assms by (cases p) (auto simp: vals_all_push vals_all_dup vals_all_swap prod_eq_iff intro: vals_all_pop(2) [OF assms(1,2)])

lemma stack_op_sim:
  assumes cs: "cs_ok cs" and trm: "cs_term cs = None" and p: "op_ok p" "\<And>v. p = Push v \<Longrightarrow> below 0 v"
    and cs': "cs_stack cs' = do_stack_op Slot p (cs_stack cs)" "cs_acts cs' = cs_acts cs" "cs_next cs' = cs_next cs"
      "cs_term cs' = None"
    and F: "\<And>base sp regs S s. F S s = on_stack (evm_stack_op (eval_val base sp regs) p S) s"
  shows "step_sim e code cs cs' F"
proof -
  let ?ls = "cs_stack cs"
  have ok: "local_stack_ok ?ls" and below: "vals_all (below (cs_next cs)) ?ls" using cs by (simp_all add: cs_ok_def)
  note d = stack_op_refines [OF ok p(1), where load = Slot]
  have "vals_all (below (cs_next cs)) (do_stack_op Slot p ?ls)"
    by (rule vals_all_op [OF below]) (use below_mono [OF p(2)] in auto)
  moreover have "counters_ok (j + 8) (do_stack_op Slot p ?ls)" if "counters_ok j ?ls" for j
    by (rule counters_mono [OF op_counters [OF ok p(1) that]]) simp
  ultimately have "comp_step cs cs' []" using d by (simp add: comp_step_def cs' cs_ok_def no_count_def)
  moreover have "step_runs e code cs cs' [] F"
    unfolding step_runs_def
  proof (intro allI impI)
    fix base G regs and s :: "'a rt_state"
    assume h: "holds_stack base G" and f: "fits (length G) ?ls"
    show "F (stack_of (eval_val base (length G) regs) G ?ls) s = after_ops e code (eval_val base (length G)) G cs' [] (regs, s)"
      unfolding F [where base = base and sp = "length G" and regs = regs] d(4) [OF loads_eval_val [OF h] f]
      by (simp add: on_stack_def after_ops_def cs' term_next_def)
  qed
  ultimately show ?thesis unfolding step_sim_def by blast
qed

text \<open>Jumps, and the end of the frame.\<close>

lemma pops_term_sim:
  assumes cs: "cs_ok cs" and n: "n \<le> 7" and p: "stack_pops n (cs_stack cs) = (vs, ls1)"
    and cs': "cs' = cs\<lparr> cs_stack := ls1, cs_term := Some t \<rparr>" and t: "term_vals (Some t) \<subseteq> set vs"
    and F: "\<And>base sp regs S s. n \<le> length S \<Longrightarrow> map (eval_val base sp regs) vs = take n S \<Longrightarrow>
        F S s = Done (term_next code (eval_val base sp regs) (Some t), drop n S, s)"
      "\<And>S s. length S < n \<Longrightarrow> F S s = LongJmp"
  shows "step_sim e code cs cs' F"
proof -
  let ?ls = "cs_stack cs"
  have ok: "local_stack_ok ?ls" and below: "vals_all (below (cs_next cs)) ?ls" using cs by (simp_all add: cs_ok_def)
  note d = stack_pops_ok [OF ok p]
  have "vals_all (below (cs_next cs)) ls1" "\<forall>v \<in> term_vals (Some t). below (cs_next cs) v"
    using vals_all_pops [OF below _ p] t by auto
  moreover have "counters_ok (j + 8) ls1" if "counters_ok j ?ls" for j
    using stack_pops_counters [OF ok that p] n by (auto elim: counters_mono)
  ultimately have "comp_step cs cs' []" using d by (simp add: comp_step_def cs' cs_ok_def no_count_def)
  moreover have "step_runs e code cs cs' [] F"
    unfolding step_runs_def
  proof (intro allI impI)
    fix base G regs and s :: "'a rt_state"
    assume h: "holds_stack base G" and f: "fits (length G) ?ls"
    let ?ev = "eval_val base (length G)"
    let ?S = "stack_of (?ev regs) G ?ls"
    have fit: "fits (length G) ls1 \<longleftrightarrow> n \<le> length ?S"
      unfolding stack_pops_fits [OF ok f p] using length_stack_of [OF ok f, of "?ev regs"] by linarith
    show "F ?S s = after_ops e code ?ev G cs' [] (regs, s)"
    proof (cases "fits (length G) ls1")
      case True
      have "map (?ev regs) vs = take n ?S" "stack_of (?ev regs) G ls1 = drop n ?S"
        using stack_pops_refines [OF ok loads_eval_val [OF h] True p] by blast+
      then show ?thesis using True fit F(1) by (simp add: after_ops_def cs')
    next
      case False
      then show ?thesis using fit F(2) by (auto simp: after_ops_def cs')
    qed
  qed
  ultimately show ?thesis unfolding step_sim_def by blast
qed

lemma exit_sim: "cs_ok cs \<Longrightarrow> step_sim e code cs (set_term (TExit rc) cs) (\<lambda>S s. Done (Halt rc, S, s))"
  by (rule pops_term_sim [of cs 0 "[]" "cs_stack cs" _ "TExit rc"]) (simp_all add: set_term_def term_next_def)

end
