(* ===== verification/BlockSim.thy ===== *)
theory BlockSim
  imports Simulation
begin

text \<open>
  A block does what the interpreter does from its front to its end: every case of the switch keeps
  step with the instruction it compiles, hence so does the loop over the block, and so does the block
  with its stack check and its prepaid cost blocks.
\<close>

section \<open>One instruction\<close>

definition config_ok :: "'h env \<Rightarrow> byte list \<Rightarrow> config \<Rightarrow> bool" where
  "config_ok e code cfg \<longleftrightarrow>
     c_rev cfg = e_rev e \<and> c_static cfg = e_static e \<and> c_codeSize cfg = length code \<and> folder_ok e (c_fold cfg)"

lemma compile_disabled:
  "\<not> enabled (c_rev cfg) (c_static cfg) inst \<Longrightarrow> compile_words cfg code (Some inst) bb it cs = invalid_case bb it cs"
  by (cases inst) (auto simp: enabled_def compile_inst_defs)

lemma instr_at_valid: "instr_at code p = Some inst \<Longrightarrow> valid_instruction inst"
  by (simp add: instr_at_def Instruction_of_eq_Some_iff)

lemma instr_at_push:
  assumes "instr_at code p = Some (PUSH n)"
  shows "is_push (code ! p)" "push_size (code ! p) = n"
proof -
  have "valid_instruction (PUSH n)" "opcode (PUSH n) = unat (code ! p)"
    using assms by (simp_all add: instr_at_def Instruction_of_eq_Some_iff)
  then show "is_push (code ! p)" "push_size (code ! p) = n"
    by (auto simp: valid_instruction_def push_size_def is_push_def word_le_nat_alt)
qed

lemma instr_at_not_push:
  assumes "instr_at code p = Some inst" "\<And>n. inst \<noteq> PUSH n"
  shows "\<not> is_push (code ! p)"
proof
  assume push: "is_push (code ! p)"
  then have "valid_instruction (PUSH (push_size (code ! p)))" "opcode (PUSH (push_size (code ! p))) = unat (code ! p)"
    by (auto simp: valid_instruction_def push_size_def is_push_def word_le_nat_alt)
  then have "instr_at code p = Some (PUSH (push_size (code ! p)))"
    by (simp add: instr_at_def Instruction_of_eq_Some_iff)
  with assms show False by auto
qed

text \<open>PUSH data never crosses the end of a block, unless the code ends there.\<close>

lemma block_next:
  assumes "block_ok code bb" "p \<in> positions code" "m_begin bb \<le> p" "p < m_end bb"
  shows "next_pc code p \<le> m_end bb" "on_boundary code (next_pc code p)" "p < length code"
  using assms positions_gap [of p code "m_end bb"] positions_step [of p code] positions_less [of p code]
  by (auto simp: block_ok_def next_pc_def)

lemma push_in_block:
  assumes bb: "block_ok code bb" "it \<in> positions code" "m_begin bb \<le> it" "it < m_end bb"
    and push: "is_push (code ! it)"
  shows "readPushData code it (m_end bb) =
    (of_nat (be_value (push_bytes code (length code) (push_size (code ! it)) (it + 1))), next_pc code it - 1)"
proof -
  let ?n = "push_size (code ! it)"
  note nx = block_next [OF bb]
  have le: "it + 1 + min ?n (length code - it - 1) \<le> m_end bb"
    using nx(1) push by (simp add: next_pc_def skipPushDataAndGetNext_def Let_def)
  have end_le: "m_end bb \<le> length code" using bb(1) by (simp add: block_ok_def)
  have "push_bytes code (m_end bb) ?n (it + 1) = push_bytes code (length code) ?n (it + 1)"
    using le end_le nx(3) by (auto simp: push_bytes_def min_def split: if_splits)
  moreover have "min (it + ?n) (m_end bb - 1) = next_pc code it - 1"
    using le end_le nx(3) bb(4) push by (auto simp: next_pc_def skipPushDataAndGetNext_def Let_def min_def split: if_splits)
  ultimately show ?thesis using readPushData_eq [OF push bb(4)] by simp
qed

text \<open>The cases that \<open>special\<close> names.\<close>

lemma compile_special:
  assumes "special inst"
  shows "compile_words cfg code (Some inst) bb it cs =
    (case inst of
       STOP \<Rightarrow> (set_term (TExit Stop) cs, it)
     | POP \<Rightarrow> (snd (pop_val cs), it)
     | PUSH n \<Rightarrow> (push_val (Const (fst (readPushData code it (m_end bb)))) cs, snd (readPushData code it (m_end bb)))
     | DUP n \<Rightarrow> (cs\<lparr> cs_stack := stack_dup Slot (n - 1) (cs_stack cs) \<rparr>, it)
     | SWAP n \<Rightarrow> (cs\<lparr> cs_stack := stack_swap Slot (n - 1 + 1) (cs_stack cs) \<rparr>, it)
     | JUMPDEST \<Rightarrow> (cs\<lparr> cs_isDest := True \<rparr>, it)
     | PC \<Rightarrow> (push_val (Const (of_nat (it - m_begin bb + m_firstInstrIdx bb))) cs, it)
     | CODESIZE \<Rightarrow> (push_val (Const (of_nat (c_codeSize cfg))) cs, it)
     | JUMP \<Rightarrow> (let (dest, cs1) = pop_val cs in (set_term (TJump dest) cs1, it))
     | _ \<Rightarrow> (let (dest, cs1) = pop_val cs; (cond, cs2) = pop_val cs1 in (set_term (TJumpI dest cond) cs2, it)))"
  using assms by (cases inst) (simp_all add: special_def compile_inst_defs case_prod_beta)

lemma push_const_sim:
  "cs_ok cs \<Longrightarrow> cs_term cs = None \<Longrightarrow> step_sim e code cs (push_val (Const w) cs) (\<lambda>S. on_stack (evm_push w S))"
  by (rule stack_op_sim [where p = "Push (Const w)"]) (auto simp: push_val_def op_ok_def)

lemma jump_sim:
  assumes "cs_ok cs" "cs_term cs = None"
  shows "step_sim e code cs (let (dest, cs1) = pop_val cs in set_term (TJump dest) cs1)
    (\<lambda>S s. case S of dest # S1 \<Rightarrow> Done (jump_to code dest, S1, s) | _ \<Rightarrow> LongJmp)"
proof -
  obtain v ls1 where p: "stack_pop Slot (cs_stack cs) = (v, ls1)" by fastforce
  have pops: "stack_pops 1 (cs_stack cs) = ([v], ls1)" by (simp add: p)
  have cs': "(let (dest, cs1) = pop_val cs in set_term (TJump dest) cs1) = cs\<lparr> cs_stack := ls1, cs_term := Some (TJump v) \<rparr>"
    by (simp add: p pop_val_def set_term_def)
  show ?thesis
    by (rule pops_term_sim [OF assms(1) _ pops cs'])
      (simp, simp, rename_tac S s, case_tac S, auto simp: term_next_def)
qed

lemma jumpi_sim:
  assumes "cs_ok cs" "cs_term cs = None"
  shows "step_sim e code cs (let (dest, cs1) = pop_val cs; (cond, cs2) = pop_val cs1 in set_term (TJumpI dest cond) cs2)
    (\<lambda>S s. case S of dest # cond # S1 \<Rightarrow> Done (if cond \<noteq> 0 then jump_to code dest else Fall, S1, s) | _ \<Rightarrow> LongJmp)"
    (is "step_sim e code cs _ ?F")
proof -
  obtain v ls1 where p: "stack_pop Slot (cs_stack cs) = (v, ls1)" by fastforce
  obtain w ls2 where q: "stack_pop Slot ls1 = (w, ls2)" by fastforce
  have pops: "stack_pops 2 (cs_stack cs) = ([v, w], ls2)" by (simp add: p q numeral_2_eq_2)
  have cs': "(let (dest, cs1) = pop_val cs; (cond, cs2) = pop_val cs1 in set_term (TJumpI dest cond) cs2) =
      cs\<lparr> cs_stack := ls2, cs_term := Some (TJumpI v w) \<rparr>"
    by (simp add: p q pop_val_def set_term_def)
  have "?F S s = Done (term_next code (eval_val base sp regs) (Some (TJumpI v w)), drop 2 S, s)"
    if S: "2 \<le> length S" "map (eval_val base sp regs) [v, w] = take 2 S" for base sp regs S s
  proof -
    obtain x y S1 where "S = x # y # S1" using S(1) by (cases S; cases "tl S") simp_all
    then show ?thesis using S(2) by (simp add: term_next_def numeral_2_eq_2)
  qed
  moreover have "?F S s = LongJmp" if "length S < 2" for S s
    using that by (auto split: list.split)
  ultimately show ?thesis by (intro pops_term_sim [OF assms(1) _ pops cs']) simp_all
qed

lemma special_sim:
  assumes i: "instr_at code it = Some inst" and special: "special inst"
    and bb: "block_ok code bb" "it \<in> positions code" "m_begin bb \<le> it" "it < m_end bb"
    and size: "c_codeSize cfg = length code" and cs: "cs_ok cs" "cs_term cs = None"
  shows "step_sim e code cs (fst (compile_words cfg code (Some inst) bb it cs)) (evm_exec e code it inst)"
proof -
  have pc: "it - m_begin bb + m_firstInstrIdx bb = it" using bb by (simp add: block_ok_def)
  have valid: "valid_instruction inst" by (rule instr_at_valid [OF i])
  note push = push_in_block [OF bb instr_at_push(1), of _] and op = stack_op_sim [OF cs]
  show ?thesis
  proof (cases inst)
    case (PUSH n)
    then show ?thesis
      using push [of n] instr_at_push(2) [of code it n] i push_const_sim [OF cs]
      by (simp add: compile_special special_def evm_exec_def [abs_def])
  next
    case POP
    have "step_sim e code cs (snd (pop_val cs)) (\<lambda>S. on_stack (map_option snd (evm_pop S)))"
      by (rule op [where p = Pop]) (simp_all add: op_ok_def pop_val_def case_prod_beta cs)
    then show ?thesis using special by (simp add: POP compile_special evm_exec_def [abs_def])
  next
    case (DUP n)
    have "step_sim e code cs (cs\<lparr> cs_stack := stack_dup Slot (n - 1) (cs_stack cs) \<rparr>) (\<lambda>S. on_stack (evm_dup (n - 1) S))"
      using valid by (intro op [where p = "Dup (n - 1)"]) (auto simp: op_ok_def DUP valid_instruction_def cs)
    then show ?thesis using special by (simp add: DUP compile_special evm_exec_def [abs_def])
  next
    case (SWAP n)
    have "step_sim e code cs (cs\<lparr> cs_stack := stack_swap Slot n (cs_stack cs) \<rparr>) (\<lambda>S. on_stack (evm_swap n S))"
      using valid by (intro op [where p = "Swap n"]) (auto simp: op_ok_def SWAP valid_instruction_def cs)
    then show ?thesis using special valid by (simp add: SWAP compile_special evm_exec_def [abs_def] valid_instruction_def)
  next
    case JUMPDEST
    have "step_sim e code cs (cs\<lparr> cs_isDest := True \<rparr>) (\<lambda>S s. Done (Fall, S, s))"
      using cs by (auto simp: step_sim_def comp_step_def step_runs_def after_ops_def cs_ok_def no_count_def term_next_def
          intro!: exI [of _ "[]"] elim: counters_mono)
    then show ?thesis using special by (simp add: JUMPDEST compile_special evm_exec_def [abs_def])
  qed (use special cs push_const_sim [OF cs] exit_sim [OF cs(1)] jump_sim [OF cs] jumpi_sim [OF cs] in
      \<open>simp_all add: compile_special evm_exec_def [abs_def] pc size special_def case_prod_beta Let_def\<close>)
qed

text \<open>Every case of the switch.\<close>

lemma instr_cases:
  obtains "special inst" | nxt where "effect_exit inst = Some nxt" | "\<not> special inst" "effect_exit inst = None"
  by (cases "effect_exit inst") auto

lemma effect_exit_next: "effect_exit inst = Some nxt \<Longrightarrow> nxt = Fall \<or> (\<exists>rc. nxt = Halt rc)"
  by (cases inst) (auto simp: effect_exit_def)

theorem compile_words_sim:
  assumes e: "env_ok e" and cfg: "config_ok e code cfg" and cs: "cs_ok cs" "cs_term cs = None"
    and bb: "block_ok code bb" "it \<in> positions code" "m_begin bb \<le> it" "it < m_end bb"
  shows "step_sim e code cs (fst (compile_words cfg code (instr_at code it) bb it cs)) (evm_instr e code it)"
proof (cases "instr_at code it")
  case None
  then show ?thesis
    using exit_sim [OF cs(1)] by (simp add: compile_inst_defs invalid_case_def evm_instr_def [abs_def])
next
  case (Some inst)
  note valid = instr_at_valid [OF Some] and folder = cfg [unfolded config_ok_def]
  show ?thesis
  proof (cases "enabled (c_rev cfg) (c_static cfg) inst")
    case False
    then show ?thesis
      using exit_sim [OF cs(1)] folder by (simp add: Some compile_disabled invalid_case_def evm_instr_def [abs_def])
  next
    case True
    then have F: "evm_instr e code it = evm_exec e code it inst"
      using folder by (intro ext) (simp add: evm_instr_def Some)
    show ?thesis
    proof (cases inst rule: instr_cases)
      case 1
      then show ?thesis using special_sim [OF Some _ bb _ cs, of cfg e] folder by (simp add: Some F)
    next
      case (2 nxt)
      have "step_sim e code cs ((case nxt of Halt rc \<Rightarrow> set_term (TExit rc) | _ \<Rightarrow> id) (effect_case inst (pops inst) cs))
          (evm_effect e inst nxt)"
        using effect_exit_next [OF 2] by (intro gen_effect_sim [OF e cs(1) valid cs(2)]) auto
      moreover have "evm_exec e code it inst = evm_effect e inst nxt" by (intro ext evm_exec_effect 2)
      ultimately show ?thesis using True by (simp add: Some F compile_effect [OF 2])
    next
      case 3
      have "evm_exec e code it inst = evm_value e inst" by (intro ext evm_exec_value 3)
      then show ?thesis
        using gen_value_sim [OF e _ cs(1) valid cs(2)] folder True by (simp add: Some F compile_value [OF 3])
    qed
  qed
qed

lemma gen_value_same:
  "cs_term (gen_value cfg inst cs) = cs_term cs" "cs_isDest (gen_value cfg inst cs) = cs_isDest cs"
  by (simp_all add: gen_value_def make_value_def create_value_def create_exp_def new_value_def add_act_def push_val_def
      pop_vals_eq Let_def case_prod_beta split: option.split val.split)

text \<open>Where the iterator ends up, and when the case ends the block.\<close>

lemma compile_words_next:
  assumes bb: "block_ok code bb" "it \<in> positions code" "m_begin bb \<le> it" "it < m_end bb" and cs: "cs_term cs = None"
    and r: "compile_words cfg code (instr_at code it) bb it cs = (cs', it')"
  shows "cs_term cs' = None \<Longrightarrow> it' + 1 = next_pc code it"
    and "cs_term cs' \<noteq> None \<Longrightarrow> it' + 1 = m_end bb \<and> (next_pc code it = m_end bb \<or> (\<exists>rc. cs_term cs' = Some (TExit rc)))"
proof -
  have "(cs_term cs' = None \<and> it' + 1 = next_pc code it) \<or>
    (it' + 1 = m_end bb \<and> (next_pc code it = m_end bb \<or> (\<exists>rc. cs_term cs' = Some (TExit rc))))"
  proof (cases "\<exists>inst. instr_at code it = Some inst \<and> enabled (c_rev cfg) (c_static cfg) inst")
    case False
    then have "(cs', it') = invalid_case bb it cs"
      using r by (cases "instr_at code it") (simp_all add: compile_disabled, simp add: compile_inst_defs)
    then show ?thesis using bb(4) by (auto simp: invalid_case_def set_term_def)
  next
    case True
    then obtain inst where i: "instr_at code it = Some inst" and en: "enabled (c_rev cfg) (c_static cfg) inst" by blast
    have step: "next_pc code it = it + 1" if "\<And>n. inst \<noteq> PUSH n"
      using instr_at_not_push [OF i that] by (simp add: next_pc_def skip_one)
    have ends: "next_pc code it = m_end bb" if "ends_block (Some inst)"
      using bb that i by (simp add: block_ok_def next_pc_def)
    show ?thesis
    proof (cases inst rule: instr_cases)
      case 1
      have "it \<le> next_pc code it - 1" using next_pc_bounds(1) [of it code] by linarith
      with 1 show ?thesis
        using r cs step ends push_in_block [OF bb instr_at_push(1)] i next_pc_bounds(1) [of it code]
        by (cases inst) (auto simp: special_def compile_special case_prod_beta Let_def push_val_def set_term_def pop_val_def
            ends_block_def makes_dead_def)
    next
      case (2 nxt)
      have eff: "cs_term (effect_case inst (pops inst) cs) = None"
        by (simp add: effect_case_def pop_vals_eq add_act_def cs)
      have "\<And>n. inst \<noteq> PUSH n" "nxt \<noteq> Fall \<Longrightarrow> ends_block (Some inst)"
        using 2 by (cases inst; simp add: effect_exit_def ends_block_def makes_dead_def; fail)+
      then show ?thesis
        using r eff step ends effect_exit_next [OF 2] by (auto simp: i compile_effect [OF 2 en] set_term_def)
    next
      case 3
      then have "\<And>n. inst \<noteq> PUSH n" by (auto simp: special_def)
      then show ?thesis
        using r cs step gen_value_same(1) [of cfg inst cs] by (auto simp: compile_value [OF 3 en] i)
    qed
  qed
  then show "cs_term cs' = None \<Longrightarrow> it' + 1 = next_pc code it"
    "cs_term cs' \<noteq> None \<Longrightarrow> it' + 1 = m_end bb \<and> (next_pc code it = m_end bb \<or> (\<exists>rc. cs_term cs' = Some (TExit rc)))"
    by auto
qed

section \<open>The loop over a block\<close>

text \<open>The interpreter from \<open>pc\<close> until control leaves the range that ends at \<open>stop\<close>.\<close>

function evm_block ::
    "'h env \<Rightarrow> byte list \<Rightarrow> nat \<Rightarrow> nat \<Rightarrow> word256 list \<Rightarrow> 'h rt_state \<Rightarrow> 'h evm_result" where
  "evm_block e code stop pc S s =
     (if pc < stop then
        obind (evm_step e code pc S s) (\<lambda>(nxt, S1, s1).
          if nxt = Fall then evm_block e code stop (next_pc code pc) S1 s1 else Done (nxt, S1, s1))
      else Done (Fall, S, s))"
  by pat_completeness auto
termination
  by (relation "measure (\<lambda>(e, code, stop, pc, S, s). stop - pc)")
    (auto intro!: diff_less_mono2 next_pc_bounds(1))

declare evm_block.simps [simp del]

lemma evm_block_end [simp]: "\<not> pc < stop \<Longrightarrow> evm_block e code stop pc S s = Done (Fall, S, s)"
  by (subst evm_block.simps) simp

text \<open>The static and the dynamic half, as for one case.\<close>

definition loop_comp :: "evmc_revision \<Rightarrow> nat \<Rightarrow> comp_state \<Rightarrow> comp_state \<Rightarrow> op cost_action list \<Rightarrow> bool" where
  "loop_comp m_rev k cs cs' as \<longleftrightarrow>
     cs_acts cs' = cs_acts cs @ as \<and> (\<forall>opened. well_metered metered_op opened as) \<and> counted m_rev as \<le> 32000 * int k \<and>
     cs_ok cs' \<and> ssa_acts (cs_next cs) as = Some (cs_next cs') \<and> (\<forall>v \<in> term_vals (cs_term cs'). below (cs_next cs') v) \<and>
     m_minSize (cs_stack cs') \<le> m_minSize (cs_stack cs) \<and> m_maxSize (cs_stack cs) \<le> m_maxSize (cs_stack cs') \<and>
     (\<forall>j. counters_ok j (cs_stack cs) \<longrightarrow> counters_ok (j + 8 * k) (cs_stack cs'))"

definition loop_runs ::
    "'h env \<Rightarrow> byte list \<Rightarrow> nat \<Rightarrow> nat \<Rightarrow> comp_state \<Rightarrow> comp_state \<Rightarrow> op cost_action list \<Rightarrow> bool" where
  "loop_runs e code stop it cs cs' as \<longleftrightarrow>
     (\<forall>base G regs s. holds_stack base G \<longrightarrow> fits (length G) (cs_stack cs) \<longrightarrow> rt_ok s \<longrightarrow>
        refines (evm_block e code stop it (stack_of (eval_val base (length G) regs) G (cs_stack cs)) s)
          (after_ops e code (eval_val base (length G)) G cs' as (regs, s)))"

lemma counted_no_count: "no_count as \<Longrightarrow> counted m_rev as = 0"
  by (induction m_rev as rule: counted.induct) (auto simp: no_count_def)

lemma step_cost_bound: "getStepCost m_rev (instr_at code it) \<le> 32000"
  by (rule getStepCost_bound) (rule instr_at_valid)

lemma loop_comp_step:
  assumes step: "comp_step (add_act (Count (instr_at code it)) cs) cs2 as1"
    and loop: "loop_comp m_rev k cs2 cs' as2"
  shows "loop_comp m_rev (Suc k) cs cs' (Count (instr_at code it) # as1 @ as2)"
  using assms step_cost_bound [of m_rev code it]
  by (auto simp: comp_step_def loop_comp_def add_act_def well_metered_append counted_append counted_no_count
      ssa_acts_append algebra_simps intro: order_trans)

lemma loop_comp_mono: "loop_comp m_rev k cs cs' as \<Longrightarrow> k \<le> k' \<Longrightarrow> loop_comp m_rev k' cs cs' as"
  by (auto simp: loop_comp_def elim!: counters_mono intro: order_trans)

lemma loop_comp_refl:
  "cs_ok cs \<Longrightarrow> \<forall>v \<in> term_vals (cs_term cs). below (cs_next cs) v \<Longrightarrow> loop_comp m_rev k cs cs []"
  by (auto simp: loop_comp_def elim: counters_mono)

lemma refines_LongJmp: "(\<And>x. m = Done x \<Longrightarrow> refines (f x) LongJmp) \<Longrightarrow> refines (obind m f) LongJmp"
  by (cases m) (auto simp: refines_def)

lemma run_ops_ok: "env_ok e \<Longrightarrow> rt_ok s \<Longrightarrow> run_ops e ev as (regs, s) = Done (regs', s') \<Longrightarrow> rt_ok s'"
  using metered.run_acts_inv [of e "(regs, s)" "e_rev e" ev as "(regs', s')"] by (simp add: run_ok_def)

lemma after_ops_Count:
  "after_ops e code ev G cs' (Count inst # as) (regs, s) =
    (if fits (length G) (cs_stack cs')
     then obind (pay (nat (getStepCost (e_rev e) inst)) s) (\<lambda>s1. after_ops e code ev G cs' as (regs, s1))
     else LongJmp)"
  by (simp add: after_ops_def pay_run_def obind_assoc)

lemma loop_runs_step:
  assumes e: "env_ok e" and it: "it < stop"
    and step: "comp_step (add_act (Count (instr_at code it)) cs) cs2 as1"
      "step_runs e code (add_act (Count (instr_at code it)) cs) cs2 as1 (evm_instr e code it)"
    and loop: "loop_comp m_rev k cs2 cs' as2" "loop_runs e code stop (next_pc code it) cs2 cs' as2"
    and fall: "cs_term cs2 = None"
  shows "loop_runs e code stop it cs cs' (Count (instr_at code it) # as1 @ as2)"
  unfolding loop_runs_def
proof (intro allI impI)
  fix base G regs and s :: "'a rt_state"
  assume h: "holds_stack base G" and f: "fits (length G) (cs_stack cs)" and s: "rt_ok s"
  let ?ev = "eval_val base (length G)" and ?c = "nat (getStepCost (e_rev e) (instr_at code it))"
  let ?S = "\<lambda>regs cs. stack_of (?ev regs) G (cs_stack cs)"
  have F: "evm_instr e code it (?S regs cs) s1 = after_ops e code ?ev G cs2 as1 (regs, s1)" if "rt_ok s1" for s1
    using step(2) [unfolded step_runs_def, rule_format, OF h, where regs = regs and s = s1] f that by (simp add: add_act_def)
  let ?K = "\<lambda>(nxt, S1, s1). if nxt = Fall then evm_block e code stop (next_pc code it) S1 s1 else Done (nxt, S1, s1)"
  have block: "evm_block e code stop it (?S regs cs) s =
      obind (pay ?c s) (\<lambda>s1. obind (after_ops e code ?ev G cs2 as1 (regs, s1)) ?K)"
    using it F pay_ok(1) [OF s]
    by (subst evm_block.simps) (simp add: evm_step_def obind_assoc cong: obind_cong)
  show "refines (evm_block e code stop it (?S regs cs) s) (after_ops e code ?ev G cs' (Count (instr_at code it) # as1 @ as2) (regs, s))"
  proof (cases "fits (length G) (cs_stack cs2)")
    case True
    have rest: "refines (evm_block e code stop (next_pc code it) (?S regs1 cs2) s2) (after_ops e code ?ev G cs' as2 (regs1, s2))"
      if "rt_ok s2" for regs1 s2
      using loop(2) [unfolded loop_runs_def, rule_format, OF h True that] .
    have run: "obind (after_ops e code ?ev G cs2 as1 (regs, s1)) ?K =
        obind (run_ops e ?ev as1 (regs, s1)) (\<lambda>(regs1, s2). evm_block e code stop (next_pc code it) (?S regs1 cs2) s2)" for s1
      using True fall by (simp add: after_ops_def term_next_def obind_assoc split_def)
    have "refines (obind (run_ops e ?ev as1 (regs, s1)) (\<lambda>(regs1, s2). evm_block e code stop (next_pc code it) (?S regs1 cs2) s2))
        (if fits (length G) (cs_stack cs') then after_ops e code ?ev G cs' (as1 @ as2) (regs, s1) else LongJmp)"
      if "rt_ok s1" for s1
    proof (cases "fits (length G) (cs_stack cs')")
      case True
      have "after_ops e code ?ev G cs' (as1 @ as2) (regs, s1) =
          obind (run_ops e ?ev as1 (regs, s1)) (after_ops e code ?ev G cs' as2)"
        using True by (simp add: after_ops_def [abs_def] run_acts_append obind_assoc)
      then show ?thesis
        using True rest run_ops_ok [OF e that] by (auto intro!: refines_bind_right)
    next
      case False
      then show ?thesis
        using rest run_ops_ok [OF e that] by (auto simp: after_ops_def intro!: refines_LongJmp)
    qed
    then have "refines (obind (pay ?c s) (\<lambda>s1. obind (run_ops e ?ev as1 (regs, s1))
        (\<lambda>(regs1, s2). evm_block e code stop (next_pc code it) (?S regs1 cs2) s2)))
        (obind (pay ?c s) (\<lambda>s1. if fits (length G) (cs_stack cs') then after_ops e code ?ev G cs' (as1 @ as2) (regs, s1) else LongJmp))"
      using pay_ok(1) [OF s] by (intro refines_bind_right) blast
    also have "refines \<dots> (after_ops e code ?ev G cs' (Count (instr_at code it) # as1 @ as2) (regs, s))"
      by (auto simp: after_ops_Count intro!: refines_LongJmp)
    finally show ?thesis by (simp only: block run)
  next
    case False
    moreover have "\<not> fits (length G) (cs_stack cs')"
      using False loop(1) fits_mono [of "length G" "cs_stack cs'" "cs_stack cs2"] by (auto simp: loop_comp_def)
    ultimately show ?thesis
      unfolding block after_ops_Count by (auto simp: after_ops_def intro!: refines_LongJmp)
  qed
qed

lemma loop_runs_end:
  assumes e: "env_ok e" and it: "it < stop"
    and step: "step_runs e code (add_act (Count (instr_at code it)) cs) cs' as1 (evm_instr e code it)"
    and last: "next_pc code it = stop \<or> (\<exists>rc. cs_term cs' = Some (TExit rc))"
  shows "loop_runs e code stop it cs cs' (Count (instr_at code it) # as1)"
  unfolding loop_runs_def
proof (intro allI impI)
  fix base G regs and s :: "'a rt_state"
  assume h: "holds_stack base G" and f: "fits (length G) (cs_stack cs)" and s: "rt_ok s"
  let ?ev = "eval_val base (length G)" and ?c = "nat (getStepCost (e_rev e) (instr_at code it))"
  let ?S = "stack_of (?ev regs) G (cs_stack cs)"
  let ?K = "\<lambda>(nxt, S1, s1). if nxt = Fall then evm_block e code stop (next_pc code it) S1 s1 else Done (nxt, S1, s1)"
  have F: "evm_instr e code it ?S s1 = after_ops e code ?ev G cs' as1 (regs, s1)" if "rt_ok s1" for s1
    using step [unfolded step_runs_def, rule_format, OF h, where regs = regs and s = s1] f that by (simp add: add_act_def)
  have "obind (after_ops e code ?ev G cs' as1 (regs, s1)) ?K = after_ops e code ?ev G cs' as1 (regs, s1)" for s1
  proof -
    have K: "(if term_next code ev' (cs_term cs') = Fall then evm_block e code stop (next_pc code it) S1 s2
        else Done (term_next code ev' (cs_term cs'), S1, s2)) = Done (term_next code ev' (cs_term cs'), S1, s2)" for ev' S1 s2
      using last by (auto simp: term_next_def)
    show ?thesis by (auto simp: after_ops_def obind_assoc K intro!: obind_cong)
  qed
  then have "evm_block e code stop it ?S s = obind (pay ?c s) (\<lambda>s1. after_ops e code ?ev G cs' as1 (regs, s1))"
    using it F pay_ok(1) [OF s]
    by (subst evm_block.simps) (simp add: evm_step_def obind_assoc cong: obind_cong)
  then show "refines (evm_block e code stop it ?S s) (after_ops e code ?ev G cs' (Count (instr_at code it) # as1) (regs, s))"
    unfolding after_ops_Count by (auto simp: after_ops_def intro!: refines_LongJmp)
qed

theorem compile_loop_sim:
  assumes e: "env_ok e" and cfg: "config_ok e code cfg" and bb: "block_ok code bb"
  shows "m_begin bb \<le> it \<Longrightarrow> it \<le> m_end bb \<Longrightarrow> on_boundary code it \<Longrightarrow> cs_ok cs \<Longrightarrow> cs_term cs = None \<Longrightarrow>
    \<exists>as. loop_comp (e_rev e) (m_end bb - it) cs (compile_loop cfg code bb it cs) as \<and>
      loop_runs e code (m_end bb) it cs (compile_loop cfg code bb it cs) as"
proof (induction "m_end bb - it" arbitrary: it cs rule: less_induct)
  case less
  show ?case
  proof (cases "it < m_end bb")
    case False
    then have "compile_loop cfg code bb it cs = cs" by (subst compile_loop.simps) simp
    moreover have "loop_runs e code (m_end bb) it cs cs []"
      using False less.prems(5) by (auto simp: loop_runs_def after_ops_def term_next_def)
    ultimately show ?thesis using loop_comp_refl [OF less.prems(4)] less.prems(5) by auto
  next
    case True
    let ?cs1 = "add_act (Count (instr_at code it)) cs"
    have pos: "it \<in> positions code"
      using less.prems(3) True bb by (auto simp: on_boundary_def block_ok_def)
    note b = bb pos less.prems(1) True
    obtain cs2 it1 where c: "compile_words cfg code (instr_at code it) bb it ?cs1 = (cs2, it1)" by fastforce
    have loop: "compile_loop cfg code bb it cs = compile_loop cfg code bb (it1 + 1) cs2"
      using True by (subst compile_loop.simps) (simp add: c)
    have cs1: "cs_ok ?cs1" "cs_term ?cs1 = None" using less.prems(4,5) by (simp_all add: cs_ok_def add_act_def)
    obtain as1 where s1: "comp_step ?cs1 cs2 as1" "step_runs e code ?cs1 cs2 as1 (evm_instr e code it)"
      using compile_words_sim [OF e cfg cs1 b] by (auto simp: c step_sim_def)
    have ok2: "cs_ok cs2" "\<forall>v \<in> term_vals (cs_term cs2). below (cs_next cs2) v" using s1(1) by (simp_all add: comp_step_def)
    note nx = compile_words_next [OF b cs1(2) c] and bn = block_next [OF b]
    show ?thesis
    proof (cases "cs_term cs2 = None")
      case fall: True
      note it1 = nx(1) [OF fall]
      have lt: "it < next_pc code it" by (rule next_pc_bounds)
      have k: "m_end bb - next_pc code it < m_end bb - it" using lt True by linarith
      obtain as2 where s2: "loop_comp (e_rev e) (m_end bb - next_pc code it) cs2 (compile_loop cfg code bb (next_pc code it) cs2) as2"
        "loop_runs e code (m_end bb) (next_pc code it) cs2 (compile_loop cfg code bb (next_pc code it) cs2) as2"
        using less.hyps [OF k _ bn(1,2) ok2(1) fall] less.prems(1) lt by auto
      have "loop_comp (e_rev e) (m_end bb - it) cs (compile_loop cfg code bb (next_pc code it) cs2)
          (Count (instr_at code it) # as1 @ as2)"
        by (rule loop_comp_mono [OF loop_comp_step [OF s1(1) s2(1)]]) (use k in simp)
      then show ?thesis
        using loop_runs_step [OF e True s1 s2 fall] unfolding loop it1 by blast
    next
      case False
      note it1 = nx(2) [OF False]
      have "compile_loop cfg code bb (it1 + 1) cs2 = cs2" using it1 by (subst compile_loop.simps) simp
      moreover have "loop_comp (e_rev e) (m_end bb - it) cs cs2 (Count (instr_at code it) # as1)"
        by (rule loop_comp_mono [OF loop_comp_step [OF s1(1) loop_comp_refl [OF ok2, of _ 0], simplified]]) (use True in simp)
      moreover have "loop_runs e code (m_end bb) it cs cs2 (Count (instr_at code it) # as1)"
        using it1 by (intro loop_runs_end [OF e True s1(2)]) blast
      ultimately show ?thesis unfolding loop by auto
    qed
  qed
qed

section \<open>A compiled block\<close>

lemma cs_ok_new: "cs_ok new_comp_state"
  by (simp add: cs_ok_def new_comp_state_def)

lemma compileBasicBlock_fields:
  fixes cfg code bb
  defines "cs \<equiv> compile_loop cfg code bb (m_begin bb) new_comp_state"
  shows "cb_min (compileBasicBlock cfg code bb) = m_minSize (cs_stack cs)"
    "cb_max (compileBasicBlock cfg code bb) = m_maxSize (cs_stack cs)"
    "cb_size (compileBasicBlock cfg code bb) = stack_size (cs_stack cs)"
    "cb_code (compileBasicBlock cfg code bb) = layout (c_rev cfg) False (cs_acts cs)"
    "cb_stores (compileBasicBlock cfg code bb) = finalize (cs_stack cs)"
    "cb_term (compileBasicBlock cfg code bb) = cs_term cs" "cb_isDest (compileBasicBlock cfg code bb) = cs_isDest cs"
    "cb_first (compileBasicBlock cfg code bb) = m_firstInstrIdx bb"
  by (simp_all add: compileBasicBlock_def Let_def cs_def cost_actions_code)

text \<open>How \<open>run_block\<close> answers a run of the interpreter over the same range.\<close>

definition block_answers ::
    "byte list \<Rightarrow> jump_table \<Rightarrow> compiled_block \<Rightarrow> branch \<Rightarrow>
     'h evm_result \<Rightarrow> ((nat + return_code) \<times> stack_mem \<times> 'h rt_state) outcome \<Rightarrow> bool" where
  "block_answers code table cb br r c \<longleftrightarrow>
     (case r of
        Done (nxt, S, s) \<Rightarrow>
          \<exists>ev base. (\<forall>w. ev (Const w) = w) \<and> term_next code ev (cb_term cb) = nxt \<and> holds_stack base S \<and>
            c = Done (run_branch table ev br, (base, of_nat (length S)), s)
      | LongJmp \<Rightarrow> c = LongJmp
      | Undefined \<Rightarrow> True)"

theorem compiled_block_sim:
  assumes e: "env_ok e" and cfg: "config_ok e code cfg" and bb: "block_ok code bb" and len: "length code < 2 ^ 48"
    and h: "holds_stack base G" and s: "rt_ok s"
  shows "block_answers code table (compileBasicBlock cfg code bb) br
    (evm_block e code (m_end bb) (m_begin bb) G s)
    (run_block e table (compileBasicBlock cfg code bb, br) (base, of_nat (length G)) s)"
proof -
  define cs where "cs = compile_loop cfg code bb (m_begin bb) new_comp_state"
  note fields = compileBasicBlock_fields [of cfg code bb, folded cs_def]
  let ?cb = "compileBasicBlock cfg code bb" and ?n = "length G" and ?ls = "cs_stack cs"
  let ?ev = "eval_val base ?n" and ?st = "(\<lambda>_. 0, s) :: regs \<times> _"
  have n: "?n \<le> stackSizeLimit" using h by (simp add: holds_stack_def)
  have b: "m_begin bb \<le> m_end bb" "m_end bb \<le> length code" "on_boundary code (m_begin bb)"
    using bb by (auto simp: block_ok_def)
  obtain as where comp: "loop_comp (e_rev e) (m_end bb - m_begin bb) new_comp_state cs as"
    and runs: "loop_runs e code (m_end bb) (m_begin bb) new_comp_state cs as"
    using compile_loop_sim [OF e cfg bb order_refl b(1,3) cs_ok_new] by (auto simp: cs_def new_comp_state_def)
  have acts: "cs_acts cs = as" and ok: "local_stack_ok ?ls"
    using comp by (simp_all add: loop_comp_def new_comp_state_def cs_ok_def)
  have evm: "refines (evm_block e code (m_end bb) (m_begin bb) G s) (after_ops e code ?ev G cs as ?st)"
    using runs [unfolded loop_runs_def, rule_format, OF h, where regs = "\<lambda>_. 0" and s = s] n s
    by (simp add: new_comp_state_def stack_of_new)
  have k: "int (m_end bb - m_begin bb) < 2 ^ 48"
  proof -
    have "m_end bb - m_begin bb < 2 ^ 48" using b len by simp
    then show ?thesis by simp
  qed
  have counted: "counted (e_rev e) as < 2 ^ 63"
  proof -
    have "counted (e_rev e) as \<le> 32000 * int (m_end bb - m_begin bb)" using comp by (simp add: loop_comp_def)
    also have "\<dots> < 2 ^ 63" using k by simp
    finally show ?thesis .
  qed
  have bounds: "- (2 ^ 61) \<le> m_minSize ?ls" "m_maxSize ?ls < 2 ^ 61"
  proof -
    have "counters_ok (8 * (m_end bb - m_begin bb)) ?ls"
      using comp counters_new by (auto simp: loop_comp_def new_comp_state_def)
    then show "- (2 ^ 61) \<le> m_minSize ?ls" "m_maxSize ?ls < 2 ^ 61" using k by (auto simp: counters_ok_def)
  qed
  have prep: "stack_prepare (of_nat ?n) (word_of_int (cb_min ?cb)) (word_of_int (cb_max ?cb)) (word_of_int (cb_size ?cb)) =
      (if fits ?n ?ls then Done (of_nat (nat (int ?n + stack_size ?ls)), of_nat ?n) else LongJmp)"
    unfolding fields by (rule stack_prepare_eq [OF n ok bounds])
  have sp: "unat (of_nat ?n :: i64) = ?n" using n by (simp add: unat_of_nat_small stackSizeLimit_def)
  have prepaid: "refines (run_ops e ?ev as ?st) (exec_code e ?ev (cb_code ?cb) ?st)"
    using metered.prepaid_code [of False as e ?st "e_rev e" ?ev] comp e s counted cfg
    unfolding fields acts exec_code_run_code by (simp add: loop_comp_def run_ok_def config_ok_def)
  show ?thesis
  proof (cases "fits ?n ?ls")
    case False
    then have "run_block e table (?cb, br) (base, of_nat ?n) s = LongJmp"
      unfolding run_block_def by (simp add: prep)
    moreover have "evm_block e code (m_end bb) (m_begin bb) G s \<in> {LongJmp, Undefined}"
      using evm False by (auto simp: after_ops_def refines_def)
    ultimately show ?thesis by (auto simp: block_answers_def)
  next
    case True
    let ?stores = "\<lambda>regs. stack_stores ?n (map (map_prod id (?ev regs)) (finalize ?ls)) base"
    let ?m = "nat (int ?n + stack_size ?ls)"
    have run: "run_block e table (?cb, br) (base, of_nat ?n) s =
        obind (exec_code e ?ev (cb_code ?cb) ?st) (\<lambda>(regs, s1). Done (run_branch table (?ev regs) br, (?stores regs, of_nat ?m), s1))"
      unfolding run_block_def using True by (simp add: prep sp fields(5) Let_def)
    have stack: "holds_stack (?stores regs) (stack_of (?ev regs) G ?ls)" "length (stack_of (?ev regs) G ?ls) = ?m" for regs
    proof -
      have l: "int (length (stack_of (?ev regs) G ?ls)) = int ?n + stack_size ?ls" by (rule length_stack_of [OF ok True])
      then show m: "length (stack_of (?ev regs) G ?ls) = ?m" by linarith
      have "?m \<le> stackSizeLimit" using True ok by (auto simp: fits_def local_stack_ok_def)
      then show "holds_stack (?stores regs) (stack_of (?ev regs) G ?ls)"
        using finalize_refines [OF ok True, of base "?ev regs"] h m by (simp add: holds_stack_def)
    qed
    have ref: "refines (evm_block e code (m_end bb) (m_begin bb) G s)
        (obind (exec_code e ?ev (cb_code ?cb) ?st) (\<lambda>(regs, s). Done (term_next code (?ev regs) (cs_term cs), stack_of (?ev regs) G ?ls, s)))"
      by (rule refines_trans [OF evm]) (use True prepaid in \<open>auto simp: after_ops_def intro!: refines_bind_left\<close>)
    show ?thesis
    proof (cases "exec_code e ?ev (cb_code ?cb) ?st")
      case (Done x)
      obtain regs s1 where x: "x = (regs, s1)" by (cases x)
      have ans: "block_answers code table ?cb br (Done (term_next code (?ev regs) (cs_term cs), stack_of (?ev regs) G ?ls, s1))
          (run_block e table (?cb, br) (base, of_nat ?n) s)"
        unfolding block_answers_def run Done x
        using stack [of regs] by (auto simp: fields(6) intro!: exI [of _ "?ev regs"] exI [of _ "?stores regs"])
      have "evm_block e code (m_end bb) (m_begin bb) G s \<in>
          {Undefined, Done (term_next code (?ev regs) (cs_term cs), stack_of (?ev regs) G ?ls, s1)}"
        using ref by (auto simp: Done x refines_def)
      then show ?thesis
        using ans by (elim insertE emptyE) (simp_all only:, simp add: block_answers_def)
    qed (use ref in \<open>auto simp: run refines_def block_answers_def\<close>)
  qed
qed

end
