(* ===== verification/Frames.thy ===== *)
theory Frames
  imports Samples BlockSim
begin

text \<open>
  What a frame sees of its input and does to the host: CALLDATALOAD, calls that never reach the host,
  the messages of static frames, and the code that a static frame does not have.
\<close>

section \<open>CALLDATALOAD\<close>

lemma unat_eq_of_nat: "unat w = n \<Longrightarrow> w = of_nat n"
  for w :: "'a::len word"
  by auto

lemma ext_calldataload_eq:
  assumes e: "env_ok e"
  shows "ext_calldataload e idx0 = Done (of_be (src_window (getCallData e) (unat idx0) 32))"
proof -
  let ?data = "getCallData e" and ?len = "length (getCallData e)"
  have len: "?len < 2 ^ 63" using env_okD(4) [OF e] by (simp add: getCallData_def)
  have size: "getCallDataSize e = of_nat ?len"
    using env_okD(3) [OF e] len by (simp add: getCallDataSize_def getCallData_def ucast_of_nat_size)
  have usize: "unat (getCallDataSize e) = ?len" using len by (simp add: size unat_of_nat_small)
  have size64: "(ucast (getCallDataSize e) :: i64) = of_nat ?len"
    by (rule word_eq_by_unat) (use len usize in \<open>simp add: unat_trunc_addr unat_of_nat_small\<close>)
  define i where "i = min (unat idx0) ?len"
  define idx where "idx = (ucast (if idx0 < getCallDataSize e then idx0 else getCallDataSize e) :: i64)"
  have i: "i < 2 ^ 63" using len by (simp add: i_def)
  have idx: "idx = of_nat i"
  proof (rule word_eq_by_unat)
    have "unat (if idx0 < getCallDataSize e then idx0 else getCallDataSize e) = i"
      using usize by (auto simp: word_less_nat_alt i_def min_def)
    then show "unat idx = unat (of_nat i :: i64)"
      using i unfolding idx_def by (subst unat_trunc_addr) (simp_all add: unat_of_nat_small)
  qed
  have uidx: "unat idx = i" using i by (simp add: idx unat_of_nat_small)
  define k where "k = min 32 (?len - i)"
  have end0: "ir_nuw_add (Some idx) (Some 32) = Some (of_nat (i + 32))"
    using i by (simp add: ir_nuw_add_def uidx) (simp add: idx)
  have dataEnd: "ir_select (ir_ule (Some (of_nat (i + 32))) (Some (of_nat ?len :: i64))) (Some (of_nat (i + 32))) (Some (of_nat ?len)) =
      Some (of_nat (i + k) :: i64)"
  proof -
    have "unat (of_nat (i + 32) :: i64) = i + 32" "unat (of_nat ?len :: i64) = ?len"
      using i len by (simp_all add: unat_of_nat_small del: of_nat_add)
    then have le: "(of_nat (i + 32) :: i64) \<le> of_nat ?len \<longleftrightarrow> i + 32 \<le> ?len" by (simp only: word_le_nat_alt)
    have "i \<le> ?len" by (simp add: i_def)
    then have "i + k = (if i + 32 \<le> ?len then i + 32 else ?len)" by (simp add: k_def)
    then show ?thesis by (simp only: ir_ule_def lift2_Some le ir_select_Some) (cases "i + 32 \<le> ?len"; simp only: if_True if_False simp_thms)
  qed
  have copy: "ir_nuw_sub (Some (of_nat (i + k))) (Some idx) = Some (of_nat k :: i64)"
  proof -
    have "unat (of_nat (i + k) :: i64) = i + k" using i by (intro unat_of_nat_small) (simp add: k_def)
    then have "idx \<le> of_nat (i + k)" by (simp only: word_le_nat_alt uidx)
    then show ?thesis by (simp add: ir_nuw_sub_def idx)
  qed
  have pad: "ir_nuw_sub (Some 32) (Some (of_nat k)) = Some (of_nat (32 - k) :: i64)"
    by (simp add: ir_nuw_sub_def word_le_nat_alt unat_of_nat_small k_def of_nat_diff)
  have uk: "unat (of_nat k :: i64) = k" "unat (of_nat (32 - k) :: i64) = 32 - k"
    by (rule unat_of_nat_small; simp add: k_def)+
  define mem where "mem = new_array\<lparr> a_data := replicate 32 0 \<rparr>"
  obtain d1 where d1: "memcpy (replicate 32 0) 0 ?data i k = Some d1"
    "memset0 d1 k (32 - k) = Some (a_data (write_mem 0 (src_window ?data i 32) mem))"
    using memcpy_memset0 [of 0 32 mem k ?data i] by (auto simp: mem_def k_def)
  have w: "a_data (write_mem 0 (src_window ?data i 32) mem) = src_window ?data i 32"
  proof -
    have "src_window ?data i 32 \<noteq> []" by (metis length_src_window list.size(3) zero_neq_numeral)
    then show ?thesis by (simp add: write_mem_def mem_def)
  qed
  have "src_window ?data i 32 = src_window ?data (unat idx0) 32"
    by (auto simp: src_window_def i_def min_def)
  then have result: "word_result e (src_window ?data i 32) = of_be (src_window ?data (unat idx0) 32)"
    by (simp add: word_result_def)
  show ?thesis
    unfolding ext_calldataload_def Let_def idx_def [symmetric] size64
    by (simp only: end0 dataEnd copy pad use_Some uidx uk d1 w result)
qed

section \<open>Calls that do not reach the host\<close>

text \<open>The guard of the emitted wrapper: the depth limit, and the balance where value is transferred.\<close>

definition call_allowed :: "'h env \<Rightarrow> call_kind \<Rightarrow> word256 \<Rightarrow> 'h \<Rightarrow> bool" where
  "call_allowed e kind amount h \<longleftrightarrow>
     sint (getDepth e) < 1024 \<and>
     (kind \<noteq> EVMC_DELEGATECALL \<and> amount \<noteq> 0 \<longrightarrow> amount \<le> word_result e (get_balance (e_host e) h (myAddr e)))"

lemma toBE_eq_0 [simp]: "toBE le w = 0 \<longleftrightarrow> w = 0"
  for w :: word256
proof
  assume "toBE le w = 0"
  then have "toNative le (toBE le w) = toNative le (0 :: word256)" by (rule arg_cong)
  moreover have "toNative le (0 :: word256) = 0"
    using toNative_toBE [of le "0 :: word256"] by (simp add: toBE_def toNative_def bswapIfLE_def bswap_def to_le_def of_be_def be_value_replicate_0 map_replicate_const)
  ultimately show "w = 0" by simp
next
  show "w = 0 \<Longrightarrow> toBE le w = 0"
    by (simp add: toBE_def bswapIfLE_def bswap_def to_le_def of_be_def map_replicate_const)
qed

lemma call_wrapper_blocked:
  "\<not> call_allowed e kind amount h \<Longrightarrow>
   call_wrapper e h kind gas address (toBE (e_le e) amount) inData outSize = (gas OR EVM_CALL_FAILURE, [], [], h)"
  by (auto simp: call_allowed_def call_wrapper_def Let_def)

lemma blocked_call_with_gas:
  assumes e: "env_ok e" and s: "rt_ok s"
    and blocked: "\<not> call_allowed e (call_kind_of inst) amount (rt_host s)"
    and room: "rt_budget s + (if amount = 0 then 0 else 2300) < 2 ^ 47"
    and r: "call_with_gas e inst gasArg0 address amount inOff inSize outOff outSize s = Done (w, s')"
  shows "w = 0" "rt_host s' = rt_host s" "rt_returnBuf s' = []" "rt_mem s' = rt_mem s"
    "rt_budget s' = rt_budget s + (if amount = 0 then 0 else 2300)"
proof -
  let ?n = "if amount = 0 then 0 else 2300 :: nat"
  obtain ga s1 gas q s2 where p: "pay (unat (ga :: word256)) s = Done s1" and ga1: "unat ga \<le> unat (rt_gas s)"
    and ugas: "unat gas = unat ga + ?n" and small: "unat gas < 2 ^ 63"
    and c: "ext_call e (call_kind_of inst) gas address amount inOff inSize outOff outSize s1 = Done (q, s2)"
    and w: "w = code_bool (fst (call_result q))" and s': "s' = s2\<lparr> rt_gas := rt_gas s2 + snd (call_result q) \<rparr>"
    using s r by (rule call_with_gas_elim)
  have ga: "unat ga \<le> unat (rt_gas s)" "s1 = s\<lparr> rt_gas := rt_gas s - of_nat (unat ga) \<rparr>"
    using p by (simp_all add: pay_eq split: if_split_asm)
  have q: "q = gas OR EVM_CALL_FAILURE" and s2: "s2 = s1\<lparr> rt_returnBuf := [] \<rparr>"
    using c blocked by (auto simp: ga(2) ext_call_def Let_def obind_eq_Done_iff resetReturnBuf_def call_wrapper_blocked mem_put_def)
  note res = call_result_failed [OF small, folded q]
  show "w = 0" "rt_host s' = rt_host s" "rt_returnBuf s' = []" "rt_mem s' = rt_mem s"
    by (simp_all add: w s' s2 ga(2) res code_bool_def)
  have "unat (rt_gas s - of_nat (unat ga)) = unat (rt_gas s) - unat ga" by (rule unat_charge [OF ga(1)])
  moreover have "unat (rt_gas s) + ?n < 2 ^ 47" using room by (simp add: rt_budget_def budget_def)
  ultimately have "unat (rt_gas s - of_nat (unat ga) + gas) = unat (rt_gas s) + ?n"
    using ugas ga(1) by (subst unat_add_no_wrap) simp_all
  then show "rt_budget s' = rt_budget s + ?n"
    by (simp add: s' s2 ga(2) res rt_budget_def budget_def)
qed

text \<open>What a call has cost when it returns.\<close>

lemma rt_require_host: "rt_require off len s = Done s1 \<Longrightarrow> rt_host s1 = rt_host s"
  by (rule rt_require_same)

lemma pay_same: "pay n s = Done s1 \<Longrightarrow> rt_host s1 = rt_host s \<and> rt_mem s1 = rt_mem s \<and> n \<le> rt_budget s \<and> rt_budget s1 + n = rt_budget s"
  using unat_charge [of n "rt_gas s"] by (auto simp: pay_eq rt_budget_def budget_def split: if_split_asm)

lemma blocked_call:
  assumes e: "env_ok e" and s: "rt_ok s" and r: "code_CALL e inst args s = Done (w, s')"
    and amount: "amount = (if inst = CALL \<or> inst = CALLCODE then arg args 2 else 0)"
    and blocked: "\<not> call_allowed e (call_kind_of inst) amount (rt_host s)"
  shows "w = 0" "rt_host s' = rt_host s" "rt_returnBuf s' = []"
    "rt_budget s' + unat (call_transfer_cost e inst amount) + unat (call_account_cost e inst (arg args 1) amount s) =
       rt_budget s + (if amount = 0 then 0 else 2300)"
proof -
  obtain s1 s2 s3 s4 o1 l1 o2 l2 where
    r1: "rt_require o1 l1 s = Done s1" and r2: "rt_require o2 l2 s1 = Done s2"
    and t: "pay (unat (call_transfer_cost e inst amount)) s2 = Done s3"
    and a: "pay (unat (call_account_cost e inst (arg args 1) amount s3)) s3 = Done s4"
    and c: "call_with_gas e inst (arg args 0) (arg args 1) amount o2 l2 o1 l1 s4 = Done (w, s')"
    using r unfolding code_CALL_eq [OF e s] obind_eq_Done_iff amount [symmetric] by blast
  note d1 = rt_require_Done [OF s r1]
  note d2 = rt_require_Done [OF d1(1) r2]
  note d3 = transfer_pays [OF d2(1) t]
  note d4 = pay_ok [OF d3(1) a]
  note p3 = pay_same [OF t] and p4 = pay_same [OF a]
  have host: "rt_host s4 = rt_host s" "rt_host s3 = rt_host s"
    using p3 p4 rt_require_host [OF r1] rt_require_host [OF r2] by simp_all
  then have acc: "call_account_cost e inst (arg args 1) amount s3 = call_account_cost e inst (arg args 1) amount s"
    by (simp add: call_account_cost_def ext_exists_def)
  have "rt_budget s4 + (if amount = 0 then 0 else 2300) \<le> rt_budget s"
    using d1(2) d2(2) d3(2) d4(2) by linarith
  moreover have "rt_budget s < 2 ^ 47" using s by (simp add: rt_ok_def state_ok_def rt_budget_def)
  ultimately have room: "rt_budget s4 + (if amount = 0 then 0 else 2300) < 2 ^ 47" by linarith
  note b = blocked_call_with_gas [OF e d4(1) _ room c, unfolded host(1), OF blocked]
  show "w = 0" "rt_host s' = rt_host s" "rt_returnBuf s' = []" using b host by simp_all
  show "rt_budget s' + unat (call_transfer_cost e inst amount) + unat (call_account_cost e inst (arg args 1) amount s) =
      rt_budget s + (if amount = 0 then 0 else 2300)"
    using b(5) p3 p4 d1(2) d2(2) unfolding acc by linarith
qed

section \<open>Static frames\<close>

definition static_op :: "op \<Rightarrow> bool" where
  "static_op a =
     (case a of
        Eval n inst vs \<Rightarrow> inst \<noteq> CREATE
      | Do inst vs \<Rightarrow> inst \<noteq> SSTORE \<and> inst \<noteq> SUICIDE \<and> (\<forall>n. inst \<noteq> LOG n)
      | _ \<Rightarrow> True)"

definition ops_of :: "op cost_action list \<Rightarrow> op set" where
  "ops_of as = {a. Op a \<in> set as}"

lemma ops_of_simps [simp]: "ops_of [] = {}" "ops_of (as @ bs) = ops_of as \<union> ops_of bs" "ops_of (Count i # as) = ops_of as"
  "ops_of (Op a # as) = insert a (ops_of as)" "ops_of (Commit # as) = ops_of as"
  by (auto simp: ops_of_def)

text \<open>The operations a case adds are those of its instruction.\<close>

lemma make_value_ops:
  "make_value cfg inst vs cs = (v, cs') \<Longrightarrow>
   ops_of (cs_acts cs') \<subseteq> insert (Eval (cs_next cs) inst vs) (insert (Eval (cs_next cs) inst [vs ! 0, vs ! 1]) (ops_of (cs_acts cs)))"
  by (auto simp: make_value_def create_value_def create_exp_def new_value_def add_act_def split: if_splits option.splits val.splits)

lemma gen_value_ops:
  assumes "inst \<noteq> CREATE"
  shows "\<forall>a \<in> ops_of (cs_acts (gen_value cfg inst cs)). a \<in> ops_of (cs_acts cs) \<or> static_op a"
proof -
  obtain vs ls where p: "stack_pops (pops inst) (cs_stack cs) = (vs, ls)" by fastforce
  let ?cs1 = "cs\<lparr> cs_stack := ls, cs_acts := cs_acts cs @ pre_acts inst vs \<rparr>"
  obtain v cs2 where m: "make_value cfg inst vs ?cs1 = (v, cs2)" by fastforce
  have "cs_acts (gen_value cfg inst cs) = cs_acts cs2"
    using m by (simp add: gen_value_def pop_vals_eq p push_val_def)
  moreover have "\<forall>a \<in> ops_of (pre_acts inst vs). static_op a"
    using assms by (cases inst) (simp_all add: pre_acts_def static_op_def)
  ultimately show ?thesis using make_value_ops [OF m] assms by (auto simp: static_op_def)
qed

lemma compile_words_ops:
  assumes "c_static cfg"
  shows "\<forall>a \<in> ops_of (cs_acts (fst (compile_words cfg code inst bb it cs))). a \<in> ops_of (cs_acts cs) \<or> static_op a"
proof (cases "\<exists>i. inst = Some i \<and> enabled (c_rev cfg) (c_static cfg) i")
  case False
  then have "compile_words cfg code inst bb it cs = invalid_case bb it cs"
    by (cases inst) (simp_all add: compile_disabled, simp add: compile_inst_defs)
  then show ?thesis by (simp add: invalid_case_def set_term_def)
next
  case True
  then obtain i where i: "inst = Some i" and en: "enabled (c_rev cfg) (c_static cfg) i" by blast
  show ?thesis
  proof (cases i rule: instr_cases)
    case 1
    then show ?thesis
      by (cases i) (simp_all add: i special_def compile_special set_term_def pop_val_def push_val_def Let_def case_prod_beta)
  next
    case (2 nxt)
    then have "static_op (Do i vs)" for vs
      using en assms by (cases i) (auto simp: effect_exit_def enabled_def static_op_def)
    then show ?thesis
      by (simp add: i compile_effect [OF 2 en] effect_case_def pop_vals_eq add_act_def set_term_def split: evm_next.split)
  next
    case 3
    have "i \<noteq> CREATE" using en assms by (auto simp: enabled_def)
    then show ?thesis using gen_value_ops [of i cfg cs] by (simp add: i compile_value [OF 3 en])
  qed
qed

lemma add_act_acts: "cs_acts (add_act a cs) = cs_acts cs @ [a]"
  by (simp add: add_act_def)

lemma compile_loop_ops:
  "c_static cfg \<Longrightarrow> \<forall>a \<in> ops_of (cs_acts (compile_loop cfg code bb it cs)). a \<in> ops_of (cs_acts cs) \<or> static_op a"
proof (induction cfg code bb it cs rule: compile_loop.induct)
  case (1 cfg code bb it cs)
  let ?cs1 = "add_act (Count (instr_at code it)) cs"
  obtain cs2 it1 where c: "compile_words cfg code (instr_at code it) bb it ?cs1 = (cs2, it1)" by fastforce
  have "\<forall>a \<in> ops_of (cs_acts cs2). a \<in> ops_of (cs_acts cs) \<or> static_op a"
    using compile_words_ops [OF "1.prems", of code "instr_at code it" bb it ?cs1] by (simp add: c add_act_acts)
  then show ?case
    using "1.IH" [OF _ refl refl c [symmetric] refl "1.prems"] by (subst compile_loop.simps) (auto simp: c)
qed

lemma layout_ops: "Emit a \<in> set (layout m_rev opened as) \<Longrightarrow> a \<in> ops_of as"
  by (induction m_rev opened as rule: layout.induct) (auto simp: check_of_def split: if_splits)

lemma static_block_ops:
  assumes "c_static cfg" "Emit a \<in> set (cb_code (compileBasicBlock cfg code bb))"
  shows "static_op a"
  using compile_loop_ops [OF assms(1), of code bb "m_begin bb" new_comp_state] layout_ops assms(2)
  by (auto simp: compileBasicBlock_fields new_comp_state_def)

text \<open>Only storage writes, logs, self-destruction, CREATE and the calls change the host.\<close>

lemma on_host:
  "on_gas f s = Done s' \<Longrightarrow> rt_host s' = rt_host s" "on_mem g s = Done s' \<Longrightarrow> rt_host s' = rt_host s"
  "on_mem_value h s = Done (w, s') \<Longrightarrow> rt_host s' = rt_host s"
  by (auto simp: on_gas_def on_mem_def on_mem_value_def obind_eq_Done_iff)

lemma env_value_host: "rt_host (snd (env_value e inst s)) = rt_host s"
  by (cases inst) (simp_all add: env_value_def getTxContextItem_def loadTxCtx_def Let_def split: option.split)

lemma exec_value_host:
  assumes "exec_value e inst args s = Done (w, s')" "inst \<notin> {CREATE, CALL, CALLCODE, DELEGATECALL, STATICCALL}"
  shows "rt_host s' = rt_host s"
proof -
  have "inst \<in> set env_insts \<Longrightarrow> exec_value e inst args s = Done (env_value e inst s)"
    by (cases inst) (simp_all add: exec_value_def env_insts_def)
  then show ?thesis
    using assms env_value_host [of e inst s]
    by (cases inst) (auto simp: exec_value_def env_insts_def code_SHA3_def code_MLOAD_def code_BLOCKHASH_def Let_def
        obind_eq_Done_iff use_eq_Done_iff dest!: on_host split: if_splits)
qed

lemma exec_effect_host:
  assumes "exec_effect e inst args s = Done s'" "static_op (Do inst vs)"
  shows "rt_host s' = rt_host s"
  using assms
  by (cases inst) (auto simp: exec_effect_def static_op_def code_MSTORE_def code_MSTORE8_def code_CALLDATACOPY_def
      code_CODECOPY_def code_EXTCODECOPY_def code_RETURNDATACOPY_def code_RETURN_def registerReturnData_def Let_def
      obind_eq_Done_iff case_prod_beta dest!: on_host)

lemma static_op_host:
  assumes "static_op a" "exec_op e ev a (regs, s) = Done (regs', s')"
  shows "rt_host s' = rt_host s \<or> (\<exists>n inst vs. a = Eval n inst vs \<and> inst \<in> {CALL, CALLCODE, DELEGATECALL, STATICCALL})"
proof (cases a)
  case (Eval n inst vs)
  then show ?thesis
    using assms exec_value_host [of e inst] by (auto simp: static_op_def obind_eq_Done_iff)
next
  case (Do inst vs)
  then show ?thesis
    using assms exec_effect_host [of e inst] by (auto simp: obind_eq_Done_iff)
qed (use assms in \<open>auto simp: obind_eq_Done_iff dest!: on_host\<close>)

text \<open>In a static frame the transfer costs more than any gas.\<close>

lemma static_call_without_value:
  assumes e: "env_ok e" and static: "e_static e" and s: "rt_ok s" and r: "code_CALL e CALL args s = Done (w, s')"
  shows "arg args 2 = 0"
proof (rule ccontr)
  assume "arg args 2 \<noteq> 0"
  then have c: "unat (call_transfer_cost e CALL (arg args 2)) = 2 ^ 63 - 1"
    using static by (simp add: call_transfer_cost_def unat_gasMax)
  obtain s1 s2 s3 o1 l1 o2 l2 where
    r1: "rt_require o1 l1 s = Done s1" and r2: "rt_require o2 l2 s1 = Done s2"
    and t: "pay (unat (call_transfer_cost e CALL (arg args 2))) s2 = Done s3"
    using r unfolding code_CALL_eq [OF e s] obind_eq_Done_iff by fastforce
  have "rt_ok s2" using rt_require_Done(1) [OF rt_require_Done(1) [OF s r1] r2] .
  from rt_okD(3) [OF this] t show False unfolding c by (simp add: pay_eq split: if_split_asm)
qed

section \<open>Properties\<close>

text \<open>
  C13. A CALL, CALLCODE, DELEGATECALL or STATICCALL at the depth limit, or one that transfers more than
  the balance, does not reach the host: it pushes 0, leaves the RETURNDATA buffer empty, and gives
  back all the gas it was to pass and the stipend, so it has cost the memory, the transfer and the
  account surcharge only.
\<close>

theorem blocked_call_returns_gas:
  assumes "env_ok e" "rt_ok s" "code_CALL e inst args s = Done (w, s')"
    and "amount = (if inst = CALL \<or> inst = CALLCODE then arg args 2 else 0)"
    and "\<not> call_allowed e (call_kind_of inst) amount (rt_host s)"
  shows "w = 0 \<and> rt_host s' = rt_host s \<and> rt_returnBuf s' = [] \<and>
    rt_budget s' + unat (call_transfer_cost e inst amount) + unat (call_account_cost e inst (arg args 1) amount s) =
      rt_budget s + (if amount = 0 then 0 else 2300)"
  using blocked_call [OF assms] by blast

theorem blocked_call_returns_gas_witness:
  "\<exists>s'. code_CALL (sample_env False 1024 []) CALL (map Inst [1000, 5, 0, 0, 0, 0, 0])
      (init_runtime (sample_env False 1024 []) 0) = Done (0, s') \<and> rt_host s' = 0 \<and> rt_budget s' = 100000"
proof -
  let ?e = "sample_env False 1024 []" and ?args = "map Inst [1000, 5, 0, 0, 0, 0, 0]"
  let ?s = "init_runtime ?e 0"
  have e: "env_ok ?e" by (rule sample_env_ok) simp
  have s: "rt_ok ?s" by (rule sample_init_ok)
  have req: "rt_require off 0 s = Done s" if "rt_ok s" for off and s :: "nat rt_state"
    using rt_okD(4) [OF that] by (simp add: rt_require_def req_cost_def words_needed_def grow_same)
  have blocked: "\<not> call_allowed ?e EVMC_CALL 0 h" for h
    by (simp add: call_allowed_def getDepth_def signed_scast_eq)
  have acc: "call_account_cost ?e CALL 5 0 ?s = 0" "call_transfer_cost ?e CALL 0 = 0"
    by (simp_all add: call_account_cost_def call_transfer_cost_def)
  have gas: "call_gas ?e 1000 (getGas ?s) = Some 1000" "rt_gas ?s = 100000" "rt_host ?s = 0" "rt_budget ?s = 100000"
    using init_runtime_ok(2) [of ?e 0]
    by (simp_all add: call_gas_def getGas_def init_runtime_def ir_simps in_sint_def) (simp_all add: sample_env_def)
  have "\<exists>s'. call_with_gas ?e CALL 1000 5 0 0 0 0 0 ?s = Done (0, s')"
    using blocked [THEN call_wrapper_blocked]
    by (simp add: call_with_gas_def gas on_gas_count256 [OF s] pay_eq ir_simps in_sint_def ext_call_def call_kind_of_def
        mem_slice_def mem_put_def resetReturnBuf_def call_result_failed code_bool_def)
  then obtain s' where r: "code_CALL ?e CALL ?args ?s = Done (0, s')"
    using s by (auto simp: code_CALL_eq [OF e s] req acc)
  show ?thesis
    using blocked_call_returns_gas [OF e s r refl] r blocked gas acc by (simp add: call_kind_of_def)
qed



end
