(* ===== verification/Defined.thy ===== *)
theory Defined
  imports Frames
begin

text \<open>
  Where the emitted code has a meaning.  With the lowered division every instruction does, in every
  well-formed state, except for the modular arithmetic with modulus 0 and for a RETURNDATACOPY that
  reads past the end of the RETURNDATA buffer; so a program without those instructions never runs
  into undefined behaviour.
\<close>

section \<open>Accesses within the required memory\<close>

definition covered :: "word256 \<Rightarrow> word256 \<Rightarrow> 'h rt_state \<Rightarrow> bool" where
  "covered off len s \<longleftrightarrow>
     unat len < 2 ^ 33 \<and> (unat len \<noteq> 0 \<longrightarrow> unat off + unat len \<le> length (a_data (rt_mem s)) \<and> unat off + unat len < 2 ^ 33)"

lemma covered_require: "rt_ok s \<Longrightarrow> rt_require off len s = Done s1 \<Longrightarrow> covered off len s1"
  unfolding covered_def using rt_require_Done(3,4) by blast

lemma covered_mono: "covered off len s \<Longrightarrow> length (a_data (rt_mem s)) \<le> length (a_data (rt_mem s')) \<Longrightarrow> covered off len s'"
  by (auto simp: covered_def)

lemma covered_same [simp]: "covered off len (s\<lparr> rt_gas := g \<rparr>) = covered off len s"
  by (simp add: covered_def)

lemma covered_pay: "pay n s = Done s' \<Longrightarrow> covered off len s' = covered off len s"
  by (auto simp: pay_eq split: if_splits)

lemma rt_require_grows:
  assumes "rt_ok s" "rt_require off len s = Done s1"
  shows "length (a_data (rt_mem s)) \<le> length (a_data (rt_mem s1))"
  using assms by (auto simp: rt_require_def obind_eq_Done_iff pay_eq grow_def Let_def split: if_splits)

lemma slice_len [simp]: "unat len < 2 ^ 33 \<Longrightarrow> unat (ucast len :: i64) = unat len" for len :: word256
  by (intro unat_trunc_addr) simp

lemma covered_slice: "covered off len s \<Longrightarrow> mem_slice (rt_mem s) off len \<noteq> Undefined"
  by (auto simp: covered_def mem_slice_def mem_read_def unat_eq_zero [symmetric] unat_trunc_addr simp del: unat_eq_zero)

lemma covered_put:
  assumes "covered off len s" "length bs \<le> unat (ucast len :: i64)"
  shows "mem_put off bs (rt_mem s) \<noteq> Undefined"
  using assms by (auto simp: covered_def mem_put_def mem_write_def unat_trunc_addr)

section \<open>Defined operations\<close>

lemma obind_defined: "f \<noteq> Undefined \<Longrightarrow> (\<And>x. f = Done x \<Longrightarrow> g x \<noteq> Undefined) \<Longrightarrow> obind f g \<noteq> Undefined"
  by (cases f) simp_all

lemma pay_defined [simp]: "pay n s \<noteq> Undefined"
  by (simp add: pay_eq)

lemma rt_require_defined [simp]: "rt_require off len s \<noteq> Undefined"
  by (simp add: rt_require_def pay_eq)

lemma rt_copy_defined [simp]: "rt_copy dest len bs s \<noteq> Undefined"
  by (simp add: rt_copy_def rt_require_def pay_eq)

lemma ext_call_defined:
  assumes e: "env_ok e" and s: "rt_ok s" and gas: "unat gas < 2 ^ 63" and kind: "kind \<noteq> EVMC_CREATE"
    and cov: "covered inOff inSize s" "covered outOff outSize s"
  shows "ext_call e kind gas address value inOff inSize outOff outSize s \<noteq> Undefined"
  unfolding ext_call_def Let_def
proof (rule obind_defined, goal_cases)
  case 1
  then show ?case using covered_slice [OF cov(1)] by (simp add: resetReturnBuf_def)
next
  case (2 inData)
  obtain r out buf h where w: "call_wrapper e (rt_host (resetReturnBuf s)) kind gas (Some (addr_arg e address))
      (toBE (e_le e) value) inData (unat (ucast outSize :: i64)) = (r, out, buf, h)" by (metis prod_cases4)
  have "length out \<le> unat (ucast outSize :: i64)" using call_wrapper_bounds(3) [OF e gas w] kind by simp
  then have "mem_put outOff out (rt_mem s) \<noteq> Undefined" by (rule covered_put [OF cov(2)])
  then show ?case unfolding w by (cases "mem_put outOff out (rt_mem s)") (simp_all add: resetReturnBuf_def)
qed

lemma nuw_nsw_add_small:
  fixes a b :: i64
  assumes "unat a + unat b < 2 ^ 63"
  shows "ir_nuw_nsw_add (Some a) (Some b) = Some (a + b)" "unat (a + b) = unat a + unat b"
proof -
  have "sint a = int (unat a)" "sint b = int (unat b)" using assms by (simp_all add: sint64_eq)
  then have "sint a + sint b = int (unat a + unat b)" "- (2 ^ 63) \<le> sint a + sint b" by (simp, simp add: add_nonneg_nonneg order_trans [of _ 0])
  moreover have "int (unat a + unat b) < 2 ^ 63"
    using assms of_nat_less_iff [of "unat a + unat b" "2 ^ 63", where 'a = int] by simp
  ultimately have "in_sint TYPE(64) (sint a + sint b)" by (simp add: in_sint_def)
  then show "ir_nuw_nsw_add (Some a) (Some b) = Some (a + b)" using assms by (simp add: ir_nuw_nsw_add_def)
  show "unat (a + b) = unat a + unat b" using assms by (intro unat_add_no_wrap) simp
qed

lemma call_gas_defined: "rt_ok s \<Longrightarrow> call_gas e gasArg (getGas s) \<noteq> None"
  using nuw_nsw_sub_small(1) [of "rt_gas s" "drop_bit 6 (rt_gas s)"] rt_okD(3) [of s]
  by (simp add: call_gas_def Let_def getGas_def unat_drop_bit ir_simps ir_select_def split: if_split)

lemma call_with_gas_defined:
  assumes e: "env_ok e" and s: "rt_ok s" and kind: "call_kind_of inst \<noteq> EVMC_CREATE"
    and cov: "covered inOff inSize s" "covered outOff outSize s"
  shows "call_with_gas e inst gasArg0 address value inOff inSize outOff outSize s \<noteq> Undefined"
proof -
  obtain ga where ga: "call_gas e gasArg0 (getGas s) = Some ga" using call_gas_defined [OF s] by auto
  let ?st = "(if value = 0 then 0 else of_int callStipend) :: i64"
  show ?thesis
    unfolding call_with_gas_def ga use_Some on_gas_count256 [OF s]
  proof (rule obind_defined, goal_cases)
    case (2 s1)
    have "unat ga < 2 ^ 47" using 2 rt_okD(3) [OF s] by (simp add: pay_eq split: if_split_asm)
    moreover from this have "unat (ucast ga :: i64) = unat ga" by (intro unat_trunc_addr) simp
    moreover have "unat ?st \<le> 2300" by (simp add: schedule)
    ultimately have sum: "unat (ucast ga :: i64) + unat ?st < 2 ^ 63" by simp
    have ok: "rt_ok s1" by (rule pay_ok [OF s 2])
    have cov1: "covered inOff inSize s1" "covered outOff outSize s1" using cov covered_pay [OF 2] by simp_all
    have gas: "unat (ucast ga + ?st) < 2 ^ 63" using nuw_nsw_add_small(2) [OF sum] sum by simp
    show ?case
      unfolding nuw_nsw_add_small(1) [OF sum] use_Some
      by (rule obind_defined [OF ext_call_defined [OF e ok gas kind cov1]]) (auto simp: Let_def split: prod.split)
  qed simp
qed

section \<open>Which instructions have a meaning\<close>

text \<open>The operations that can go wrong, on the words they pop.\<close>

definition meaningless :: "instruction \<Rightarrow> word256 list \<Rightarrow> 'h rt_state \<Rightarrow> bool" where
  "meaningless inst args s =
     (case inst of
        ADDMOD \<Rightarrow> args ! 2 = 0
      | MULMOD \<Rightarrow> args ! 2 = 0
      | RETURNDATACOPY \<Rightarrow> \<not> in_returnBuf (args ! 1) (args ! 2) s
      | _ \<Rightarrow> False)"

lemma word_op_defined:
  assumes "e_division e = lowered_division" "inst \<in> set word_insts" "\<not> meaningless inst args s"
  shows "word_op e inst args \<noteq> None"
  using assms
  by (auto simp: word_insts_def arith_insts_def bit_insts_def word_op_def arith_op_def bit_op_def meaningless_def
      lowered.code_DIV_eq lowered.code_MOD_eq lowered.code_SDIV_total lowered.code_SMOD_total
      lowered.code_ADDMOD_eq lowered.code_MULMOD_eq)

lemma code_CALL_defined:
  assumes e: "env_ok e" and s: "rt_ok s" and inst: "inst \<in> {CALL, CALLCODE, DELEGATECALL, STATICCALL}"
  shows "code_CALL e inst args s \<noteq> Undefined"
  unfolding code_CALL_eq [OF e s]
proof (intro obind_defined, goal_cases)
  case (5 s1 s2 s3 s4)
  note d1 = rt_require_Done [OF s 5(1)]
  note d2 = rt_require_Done [OF d1(1) 5(2)]
  note d3 = pay_ok [OF d2(1) 5(3)] and d4 = pay_ok(1) [OF pay_ok(1) [OF d2(1) 5(3)] 5(4)]
  note paid = covered_pay [OF 5(3)] covered_pay [OF 5(4)]
  show ?case
    using covered_require [OF d1(1) 5(2)] covered_mono [OF covered_require [OF s 5(1)] rt_require_grows [OF d1(1) 5(2)]] inst
    by (intro call_with_gas_defined [OF e d4]) (auto simp: paid call_kind_of_def)
qed simp_all

lemma exec_value_defined:
  assumes e: "env_ok e" "e_division e = lowered_division" and s: "rt_ok s" and m: "\<not> meaningless inst args s"
    and inst: "inst \<in> set word_insts \<union> set env_insts \<union>
      {EXP, SHA3, MLOAD, SLOAD, BLOCKHASH, BALANCE, EXTCODESIZE, CALLDATALOAD, CALL, CALLCODE, DELEGATECALL, STATICCALL}"
  shows "exec_value e inst (map Inst args) s \<noteq> Undefined"
proof -
  have sha3: "code_SHA3 e xs s \<noteq> Undefined" for xs
    unfolding code_SHA3_eq [OF e(1) s]
  proof (intro obind_defined, goal_cases)
    case (3 s1 s2)
    have "covered (arg xs 0) (arg xs 1) s2" using covered_require [OF s 3(1)] covered_pay [OF 3(2)] by simp
    from covered_slice [OF this] show ?case
      by (cases "mem_slice (rt_mem s2) (arg xs 0) (arg xs 1)") (simp_all add: ext_sha3_def)
  qed simp_all
  have mload: "code_MLOAD e xs s \<noteq> Undefined" for xs
    unfolding code_MLOAD_eq [OF e(1) s] by (rule obind_defined) simp_all
  have word: "exec_value e inst (map Inst args) s \<noteq> Undefined" if "inst \<in> set word_insts"
    using word_op_defined [OF e(2) that m] by (auto simp: exec_value_word [OF that] comp_def)
  have env: "exec_value e inst (map Inst args) s \<noteq> Undefined" if "inst \<in> set env_insts"
    using that by (auto simp: exec_value_def env_insts_def)
  have rest: "exec_value e inst (map Inst args) s \<noteq> Undefined"
    if "inst \<in> {EXP, SHA3, MLOAD, SLOAD, BLOCKHASH, BALANCE, EXTCODESIZE, CALLDATALOAD, CALL, CALLCODE, DELEGATECALL, STATICCALL}"
    using that
    by (auto simp: exec_value_def sha3 mload code_BLOCKHASH_def Let_def ext_calldataload_eq [OF e(1)] code_CALL_defined [OF e(1) s])
  show ?thesis using inst word env rest by blast
qed

lemma exec_effect_defined:
  assumes e: "env_ok e" and s: "rt_ok s" and m: "\<not> meaningless inst args s"
    and len: "length args = pops inst" and inst: "inst \<in> {MSTORE, MSTORE8, SSTORE, CALLDATACOPY, RETURNDATACOPY, CODECOPY, EXTCODECOPY, RETURN, REVERT, SUICIDE} \<union> range LOG"
  shows "exec_effect e inst (map Inst args) s \<noteq> Undefined"
proof -
  have put: "obind (rt_require off len s) (\<lambda>s1. Done (f s1)) \<noteq> Undefined" for off len f
    by (rule obind_defined) simp_all
  have paid: "obind (pay n s) (\<lambda>s1. Done (f s1)) \<noteq> Undefined" for n f
    by (rule obind_defined) simp_all
  have log: "code_LOG e n xs s \<noteq> Undefined" for n xs
    unfolding code_LOG_eq [OF e s]
  proof (intro obind_defined, goal_cases)
    case (3 s1 s2)
    have "covered (arg xs 0) (arg xs 1) s2" using covered_require [OF s 3(1)] covered_pay [OF 3(2)] by simp
    from covered_slice [OF this] show ?case
      by (cases "mem_slice (rt_mem s2) (arg xs 0) (arg xs 1)") (simp_all add: ext_log_def)
  qed simp_all
  have rdc: "code_RETURNDATACOPY e (map Inst args) s \<noteq> Undefined" if "inst = RETURNDATACOPY"
    using m len that by (simp add: pops_def code_RETURNDATACOPY_eq [OF e s] meaningless_def)
  show ?thesis
    using inst rdc
    by (auto simp: exec_effect_def put paid log code_MSTORE_eq [OF e s] code_MSTORE8_eq [OF e s] code_SSTORE_eq [OF s]
        code_CALLDATACOPY_eq [OF e s] code_CODECOPY_eq [OF e s] code_EXTCODECOPY_eq [OF e s] code_RETURN_eq [OF e s]
        code_SUICIDE_eq [OF s])
qed

section \<open>Steps and runs\<close>

lemma code_CREATE_defined:
  assumes e: "env_ok e" and s: "rt_ok s" and cov: "covered (arg args 1) (arg args 2) s"
  shows "code_CREATE e args s \<noteq> Undefined"
  unfolding code_CREATE_eq [OF s]
  by (rule obind_defined [OF covered_slice [OF cov]]) (simp split: prod.split)

lemma evm_compute_defined:
  fixes s :: "'h rt_state"
  assumes e: "env_ok e" "e_division e = lowered_division" and s: "rt_ok s" and len: "length args = pops inst"
    and m: "\<And>s :: 'h rt_state. \<not> meaningless inst args s"
    and inst: "inst \<in> set word_insts \<union> set env_insts \<union>
      {EXP, SHA3, MLOAD, SLOAD, BLOCKHASH, BALANCE, EXTCODESIZE, CALLDATALOAD, CREATE, CALL, CALLCODE, DELEGATECALL, STATICCALL}"
  shows "evm_compute e inst args s \<noteq> Undefined"
proof (cases "inst = CREATE")
  case True
  have "exec_value e CREATE (map Inst args) s1 \<noteq> Undefined" if "rt_require (args ! 1) (args ! 2) s = Done s1" for s1
    using len True code_CREATE_defined [OF e(1) rt_require_Done(1) [OF s that]] covered_require [OF s that]
    by (simp add: exec_value_def pops_def)
  then show ?thesis
    by (simp add: True evm_compute_def evm_pay_dynamic_def on_mem_require [OF e(1) s] obind_defined)
next
  case False
  have "evm_pay_dynamic e inst args s \<noteq> Undefined"
    using False by (cases inst) (simp_all add: evm_pay_dynamic_def on_gas_countExp [OF s])
  then show ?thesis
    unfolding evm_compute_def
  proof (rule obind_defined)
    fix s1
    assume "evm_pay_dynamic e inst args s = Done s1"
    then have "rt_ok s1" using keepsD [OF evm_pay_dynamic_keeps [OF e(1)] s] by blast
    then show "exec_value e inst (map Inst args) s1 \<noteq> Undefined"
      by (rule exec_value_defined [OF e _ m]) (use inst False in blast)
  qed
qed

text \<open>Instructions that may be meaningless.\<close>

definition risky :: "instruction option \<Rightarrow> bool" where
  "risky i \<longleftrightarrow> i \<in> {Some ADDMOD, Some MULMOD, Some RETURNDATACOPY}"

lemma not_risky: "\<not> risky (Some inst) \<Longrightarrow> \<not> meaningless inst args s"
  by (cases inst) (simp_all add: risky_def meaningless_def)

lemma evm_exec_defined:
  assumes e: "env_ok e" "e_division e = lowered_division" and s: "rt_ok s" and inst: "\<not> risky (Some inst)"
  shows "evm_exec e code pc inst S s \<noteq> Undefined"
proof -
  note m = not_risky [OF inst]
  have val: "evm_value e inst S s \<noteq> Undefined"
    if "inst \<in> set word_insts \<union> set env_insts \<union>
      {EXP, SHA3, MLOAD, SLOAD, BLOCKHASH, BALANCE, EXTCODESIZE, CALLDATALOAD, CREATE, CALL, CALLCODE, DELEGATECALL, STATICCALL}"
  proof (cases "pops inst \<le> length S")
    case True
    then have "evm_compute e inst (take (pops inst) S) s \<noteq> Undefined"
      by (intro evm_compute_defined [OF e s _ m that]) simp
    then show ?thesis by (cases "evm_compute e inst (take (pops inst) S) s") (simp_all add: evm_value_def split: prod.split)
  qed (simp add: evm_value_def)
  have effect: "evm_effect e inst nxt S s \<noteq> Undefined"
    if "inst \<in> {MSTORE, MSTORE8, SSTORE, CALLDATACOPY, RETURNDATACOPY, CODECOPY, EXTCODECOPY, RETURN, REVERT, SUICIDE} \<union> range LOG" for nxt
  proof (cases "pops inst \<le> length S")
    case True
    then have "exec_effect e inst (map Inst (take (pops inst) S)) s \<noteq> Undefined"
      by (intro exec_effect_defined [OF e(1) s m _ that]) simp
    then show ?thesis by (cases "exec_effect e inst (map Inst (take (pops inst) S)) s") (simp_all add: evm_effect_def)
  qed (simp add: evm_effect_def)
  have stack: "on_stack T s \<noteq> Undefined" for T by (simp add: on_stack_def split: option.split)
  show ?thesis
    using val effect inst
    by (cases inst) (simp_all add: evm_exec_def stack word_insts_def arith_insts_def bit_insts_def env_insts_def split: list.split)
qed

lemma evm_step_defined:
  assumes "env_ok e" "e_division e = lowered_division" "rt_ok s" "\<not> risky (instr_at code pc)"
  shows "evm_step e code pc S s \<noteq> Undefined"
  unfolding evm_step_def
proof (rule obind_defined)
  fix s1
  assume "pay (nat (getStepCost (e_rev e) (instr_at code pc))) s = Done s1"
  note ok = pay_ok(1) [OF assms(3) this]
  show "evm_instr e code pc S s1 \<noteq> Undefined"
    using evm_exec_defined [OF assms(1,2) ok] assms(4) by (auto simp: evm_instr_def split: option.split)
qed simp

lemma evm_run_defined:
  assumes e: "env_ok e" "e_division e = lowered_division"
    and safe: "\<forall>p \<in> positions code. \<not> risky (instr_at code p)"
  shows "on_boundary code pc \<Longrightarrow> rt_ok s \<Longrightarrow> evm_run fuel e code pc S s \<noteq> Some Undefined"
proof (induction fuel arbitrary: pc S s)
  case (Suc fuel)
  show ?case
  proof (cases "pc < length code")
    case True
    then have pc: "pc \<in> positions code" using Suc.prems(1) by (auto simp: on_boundary_def)
    have nxt: "on_boundary code (next_pc code pc)" using positions_step [OF pc] by (simp add: next_pc_def)
    have jump: "on_boundary code d" if "valid_jumpdest code d" for d
      using that by (simp add: valid_jumpdest_def on_boundary_def)
    have "evm_step e code pc S s \<noteq> Undefined" by (rule evm_step_defined [OF e Suc.prems(2)]) (use safe pc in blast)
    then show ?thesis
      using True evm_step_Done(1) [OF e(1) Suc.prems(2), of code pc S] evm_step_Goto(1) [of e code pc S s] Suc.IH [OF nxt] Suc.IH [OF jump]
      by (auto split: outcome.split evm_next.split prod.split)
  qed simp
qed simp

end
