(* ===== verification/YellowSim.thy ===== *)
theory YellowSim
  imports Yellow Defined
begin

text \<open>
  The instructions that the JIT compiles are those of the machine of \<open>Yellow\<close>: whatever the emitted code of
  an instruction returns, unless LLVM gives it no meaning, is what the machine's instruction returns on
  the abstraction of the state.
\<close>

section \<open>Abstraction\<close>

definition mem_fun :: "array \<Rightarrow> nat \<Rightarrow> byte" where
  "mem_fun mem a = (if a < length (a_data mem) then a_data mem ! a else 0)"

definition yabs :: "'h rt_state \<Rightarrow> 'h machine_state" where
  "yabs s = \<lparr> y_host = rt_host s, y_mem = mem_fun (rt_mem s), y_words = mem_words (rt_mem s), y_gas = unat (rt_gas s),
     y_returned = rt_returnBuf s \<rparr>"

lemma yabs_simps [simp]:
  "y_host (yabs s) = rt_host s" "y_mem (yabs s) = mem_fun (rt_mem s)" "y_words (yabs s) = mem_words (rt_mem s)"
  "y_gas (yabs s) = unat (rt_gas s)" "y_returned (yabs s) = rt_returnBuf s"
  by (simp_all add: yabs_def)

text \<open>An outcome agrees with a result of the machine, through an abstraction of what it returns: leaving the
  frame is the exceptional halt, and undefined behaviour agrees with anything.\<close>

definition agrees :: "('a \<Rightarrow> 'b) \<Rightarrow> 'a outcome \<Rightarrow> 'b option \<Rightarrow> bool" where
  "agrees f r y \<longleftrightarrow> (case r of Done x \<Rightarrow> y = Some (f x) | LongJmp \<Rightarrow> y = None | Undefined \<Rightarrow> True)"

lemma agrees_simps [simp]:
  "agrees f (Done x) y \<longleftrightarrow> y = Some (f x)" "agrees f LongJmp y \<longleftrightarrow> y = None" "agrees f Undefined y"
  by (simp_all add: agrees_def)

lemma agrees_bind:
  assumes "agrees f r y" "\<And>x. r = Done x \<Longrightarrow> agrees g (k x) (l (f x))"
  shows "agrees g (obind r k) (Option.bind y l)"
  using assms by (cases r) simp_all

lemma agrees_map:
  assumes "agrees f r y" "\<And>x. r = Done x \<Longrightarrow> agrees g (k x) (Some (l (f x)))"
  shows "agrees g (obind r k) (map_option l y)"
  using assms by (cases r) simp_all

abbreviation on_value :: "'x \<times> 'h rt_state \<Rightarrow> 'x \<times> 'h machine_state" where
  "on_value \<equiv> \<lambda>(w, s). (w, yabs s)"

section \<open>Gas and memory\<close>

lemma agrees_pay [intro]: "agrees yabs (pay n s) (y_pay n (yabs s))"
  by (auto simp: pay_eq y_pay_def yabs_def unat_charge)

lemma mem_fun_grow: "mem_fun (grow n mem) = mem_fun mem"
  by (rule ext) (auto simp: mem_fun_def grow_def Let_def nth_append)

lemma mem_words_grow:
  assumes "n < 2 ^ 58" "mem_words mem < 2 ^ 58"
  shows "mem_words (grow n mem) = max (mem_words mem) n"
proof -
  have "unat (of_nat (32 * max (mem_words mem) n) :: i64) = 32 * max (mem_words mem) n"
    using assms by (intro unat_of_nat_small) simp
  then show ?thesis by (simp add: grow_def Let_def mem_words_def [of "\<lparr>a_data = _, a_size = _, a_cap = _\<rparr>"] del: of_nat_mult)
qed

lemma agrees_expand [intro]:
  assumes "rt_ok s"
  shows "agrees yabs (rt_require off len s) (y_expand off len (yabs s))"
proof -
  let ?n = "words_needed (unat off) (unat len)"
  have "agrees yabs (rt_require off len s) (map_option (\<lambda>y. y\<lparr> y_words := max (mem_words (rt_mem s)) ?n \<rparr>) (y_pay (req_cost off len s) (yabs s)))"
    unfolding rt_require_def
  proof (rule agrees_map [OF agrees_pay])
    fix s1
    assume p: "pay (req_cost off len s) s = Done s1"
    have "rt_require off len s = Done (s1\<lparr> rt_mem := grow ?n (rt_mem s1) \<rparr>)" by (simp add: rt_require_def p)
    then obtain m g where "evm_require (unat off) (unat len) (rt_mem s, rt_gas s) = Done (m, g)"
      unfolding on_mem_evm_require [symmetric] by (auto simp: on_mem_def obind_eq_Done_iff)
    then have "?n < 2 ^ 28" by (rule evm_require_Done(3) [OF rt_okD(1) [OF assms]])
    moreover have "mem_words (rt_mem s) < 2 ^ 28" by (rule state_ok_bounds(2) [OF rt_okD(1) [OF assms]])
    ultimately have w: "mem_words (grow ?n (rt_mem s)) = max (mem_words (rt_mem s)) ?n" by (intro mem_words_grow) simp_all
    have m: "rt_mem s1 = rt_mem s" using p by (auto simp: pay_eq split: if_split_asm)
    show "agrees yabs (Done (s1\<lparr>rt_mem := grow ?n (rt_mem s1)\<rparr>)) (Some (yabs s1\<lparr> y_words := max (mem_words (rt_mem s)) ?n \<rparr>))"
      by (simp add: yabs_def mem_fun_grow m w)
  qed
  then show ?thesis by (simp add: y_expand_def Let_def req_cost_def)
qed

lemma yabs_write:
  assumes "length bs \<noteq> 0 \<Longrightarrow> unat off + length bs \<le> length (a_data (rt_mem s))"
  shows "yabs (put_mem (unat off) bs s) = y_write off bs (yabs s)"
proof -
  have "mem_fun (write_mem (unat off) bs (rt_mem s)) =
    (\<lambda>a. if unat off \<le> a \<and> a < unat off + length bs then bs ! (a - unat off) else mem_fun (rt_mem s) a)"
    using assms by (intro ext) (cases "length bs = 0"; auto simp: mem_fun_def write_mem_def nth_append)
  then show ?thesis by (simp add: yabs_def put_mem_def y_write_def cong: if_cong)
qed

lemma length_y_read [simp]: "length (y_read off len y) = unat len"
  by (simp add: y_read_def)

lemma yabs_read:
  assumes "unat len \<noteq> 0 \<Longrightarrow> unat off + unat len \<le> length (a_data (rt_mem s))"
  shows "read_mem (unat off) (unat len) (rt_mem s) = y_read off len (yabs s)"
proof (cases "unat len = 0")
  case False
  then show ?thesis using assms by (intro nth_equalityI) (simp_all add: read_mem_def y_read_def mem_fun_def)
qed (simp add: read_mem_def y_read_def)

lemma covered_D: "covered off len s \<Longrightarrow> unat len \<noteq> 0 \<Longrightarrow> unat off + unat len \<le> length (a_data (rt_mem s))"
  by (simp add: covered_def)

lemma slice_read:
  assumes "covered off len s"
  shows "mem_slice (rt_mem s) off len = Done (y_read off len (yabs s))"
proof (cases "unat len = 0")
  case True
  then have "(ucast len :: i64) = 0" by (simp add: unat_eq_0)
  then show ?thesis using True by (simp add: mem_slice_def y_read_def)
next
  case False
  have c: "unat len < 2 ^ 33" "unat off + unat len \<le> length (a_data (rt_mem s))" "unat off + unat len < 2 ^ 33"
    using assms False by (simp_all add: covered_def)
  have "unat (ucast off :: i64) = unat off" using c(3) by (intro unat_trunc_addr) simp
  moreover have "(ucast len :: i64) \<noteq> 0" using False slice_len [OF c(1)] by (metis unsigned_0)
  ultimately show ?thesis
    using c(2) yabs_read [of len off s] by (simp add: mem_slice_def mem_read_def read_mem_def slice_len [OF c(1)])
qed

lemma put_write:
  assumes "covered off len s" "length bs \<le> unat len"
  shows "mem_put off bs (rt_mem s) = Done (write_mem (unat off) bs (rt_mem s))"
proof (cases "bs = []")
  case False
  then have "0 < unat len" using assms(2) by (metis le_zero_eq length_0_conv neq0_conv)
  then have "unat off + length bs \<le> length (a_data (rt_mem s))" "unat off < 2 ^ 64" using assms by (auto simp: covered_def)
  then show ?thesis
    using False by (simp add: mem_put_def unat_trunc_addr mem_write_write_mem write_mem_data)
qed (simp add: mem_put_def write_mem_def)

lemma window_eq: "src_window src idx n = y_window src idx n"
  by (rule nth_equalityI) (auto simp: src_window_def y_window_def nth_append)

lemma length_y_window [simp]: "length (y_window src idx n) = n"
  by (simp add: y_window_def)

lemma agrees_store:
  assumes "rt_ok s" "length bs = unat len"
  shows "agrees yabs (obind (rt_require off len s) (\<lambda>s1. Done (put_mem (unat off) bs s1)))
    (map_option (y_write off bs) (y_expand off len (yabs s)))"
proof (rule agrees_map [OF agrees_expand [OF assms(1)]])
  fix s1
  assume "rt_require off len s = Done s1"
  then have "length bs \<noteq> 0 \<Longrightarrow> unat off + length bs \<le> length (a_data (rt_mem s1))"
    unfolding assms(2) using rt_require_Done(4) [OF assms(1)] by blast
  then have "yabs (put_mem (unat off) bs s1) = y_write off bs (yabs s1)" by (rule yabs_write)
  then show "agrees yabs (Done (put_mem (unat off) bs s1)) (Some (y_write off bs (yabs s1)))" by simp
qed

lemma agrees_copy:
  assumes "rt_ok s" "\<And>s1. rt_host s1 = rt_host s \<Longrightarrow> rt_returnBuf s1 = rt_returnBuf s \<Longrightarrow> bs s1 = w" "length w = unat len"
  shows "agrees yabs (rt_copy dest len bs s) (y_copy dest len w (yabs s))"
proof -
  have "rt_copy dest len bs s = obind (rt_require dest len s) (\<lambda>s1.
      obind (pay (3 * word_count (unat len)) s1) (\<lambda>s2. Done (put_mem (unat dest) w s2)))"
    unfolding rt_copy_def obind_assoc
    by (rule obind_cong [OF refl]) (simp add: assms(2) rt_require_same pay_put_mem)
  also have "agrees yabs \<dots> (y_copy dest len w (yabs s))"
    unfolding y_copy_def
  proof (intro agrees_bind [OF agrees_expand [OF assms(1)]] agrees_bind [OF agrees_pay], goal_cases)
    case (1 s1 s2)
    have "rt_mem s2 = rt_mem s1" using pay_same [OF 1(2)] by simp
    then have "length w \<noteq> 0 \<Longrightarrow> unat dest + length w \<le> length (a_data (rt_mem s2))"
      unfolding assms(3) using rt_require_Done(4) [OF assms(1) 1(1)] by simp
    then have "yabs (put_mem (unat dest) w s2) = y_write dest w (yabs s2)" by (rule yabs_write)
    then show ?case by simp
  qed
  finally show ?thesis .
qed

section \<open>The frame\<close>

text \<open>The environment of the compiled code is that of a frame; the transaction does not change during it.\<close>

definition frame_of :: "'h env \<Rightarrow> 'h frame \<Rightarrow> bool" where
  "frame_of e fr \<longleftrightarrow>
     e_host e = fr_host fr \<and> e_sha3 e = fr_hash fr \<and> (\<forall>bs. length (fr_hash fr bs) = 32) \<and> e_rev e = fr_rev fr \<and>
     (\<forall>h. e_msg e h = fr_msg fr) \<and> e_static e = fr_static fr \<and> rd_code (e_data e) = fr_code fr \<and>
     getCallData e = input_data (fr_msg fr) \<and> destination (fr_msg fr) = Some (fr_self fr) \<and> length (fr_self fr) = 20 \<and>
     toNative (e_le e) (getAddress e) = of_be (fr_self fr) \<and> toNative (e_le e) (getSender e) = of_be (sender (fr_msg fr)) \<and>
     toNative (e_le e) (getValue e) = of_be (msg_value (fr_msg fr)) \<and> sint (getDepth e) = sint (msg_depth (fr_msg fr)) \<and>
     (\<forall>h. get_tx_context (fr_host fr) h = fr_tx fr) \<and> e_division e \<in> {llvm_division, lowered_division}"

lemma frame_ofD:
  assumes "frame_of e fr"
  shows "e_host e = fr_host fr" "e_sha3 e = fr_hash fr" "length (fr_hash fr bs) = 32" "e_rev e = fr_rev fr"
    "e_msg e h = fr_msg fr" "e_static e = fr_static fr" "rd_code (e_data e) = fr_code fr"
    "getCallData e = input_data (fr_msg fr)" "destination (fr_msg fr) = Some (fr_self fr)" "length (fr_self fr) = 20"
    "toNative (e_le e) (getAddress e) = of_be (fr_self fr)" "toNative (e_le e) (getSender e) = of_be (sender (fr_msg fr))"
    "toNative (e_le e) (getValue e) = of_be (msg_value (fr_msg fr))" "sint (getDepth e) = sint (msg_depth (fr_msg fr))"
    "get_tx_context (fr_host fr) h = fr_tx fr" "e_division e \<in> {llvm_division, lowered_division}"
  using assms unfolding frame_of_def by blast+

lemma addr_arg_y: "addr_arg e a = y_address a"
  by (simp add: addr_arg_def y_address_def)

lemma word_arg_y: "word_arg e w = to_be w"
  by (simp add: word_arg_def)

lemma word_result_y: "length bs = 32 \<Longrightarrow> word_result e bs = of_be bs"
  by (simp add: word_result_def)

lemma address_roundtrip: "length a = 20 \<Longrightarrow> y_address (of_be a) = a"
proof -
  assume a: "length a = 20"
  have "(ucast (of_be a :: word256) :: 160 word) = of_be a"
    by (rule word_eq_by_unat) (simp add: of_be_def unsigned_ucast_eq unat_of_nat take_bit_eq_mod mod_mod_cancel)
  then show "y_address (of_be a) = a" using a by (simp add: y_address_def to_be_of_be)
qed

lemma myAddr_y: "frame_of e fr \<Longrightarrow> myAddr e = fr_self fr"
  by (simp add: myAddr_def addr_arg_y frame_ofD address_roundtrip)

section \<open>Words\<close>

lemma some_or_none:
  assumes "B \<in> {llvm_division, lowered_division}"
  shows "code_SDIV B d n \<noteq> None \<Longrightarrow> code_SDIV B d n = Some (evm_sdiv d n)"
    "code_SMOD B d n \<noteq> None \<Longrightarrow> code_SMOD B d n = Some (evm_smod d n)"
    "code_DIV B d n = Some (evm_div d n)" "code_MOD B d n = Some (evm_mod d n)"
    "code_ADDMOD B d n m \<noteq> None \<Longrightarrow> code_ADDMOD B d n m = Some (evm_addmod d n m)"
    "code_MULMOD B d n m \<noteq> None \<Longrightarrow> code_MULMOD B d n m = Some (evm_mulmod d n m)"
proof -
  have "code_ADDMOD B d n 0 = None" "code_MULMOD B d n 0 = None" if "urem512 B = C" "\<And>w. C w 0 = None" for C
    using that by (simp_all add: code_ADDMOD_def code_MULMOD_def Let_def bind_eq_None_conv)
  moreover have "urem512 llvm_division w 0 = None" "urem512 lowered_division w 0 = None" for w
    by (simp_all add: llvm_division_def lowered_division_def getURem512Func_def createURemFunc_def createUDivRemFunc_by_zero)
  ultimately have z: "code_ADDMOD B d n 0 = None" "code_MULMOD B d n 0 = None" using assms by auto
  show "code_ADDMOD B d n m \<noteq> None \<Longrightarrow> code_ADDMOD B d n m = Some (evm_addmod d n m)"
    "code_MULMOD B d n m \<noteq> None \<Longrightarrow> code_MULMOD B d n m = Some (evm_mulmod d n m)"
    using assms z by (cases "m = 0"; auto simp: llvm.code_ADDMOD_eq lowered.code_ADDMOD_eq llvm.code_MULMOD_eq lowered.code_MULMOD_eq)+
  show "code_SDIV B d n \<noteq> None \<Longrightarrow> code_SDIV B d n = Some (evm_sdiv d n)"
    "code_SMOD B d n \<noteq> None \<Longrightarrow> code_SMOD B d n = Some (evm_smod d n)"
    using assms llvm_signed_overflow
    by (cases "d = min_word \<and> n = - 1"; auto simp: llvm.code_SDIV_eq llvm.code_SMOD_eq lowered.code_SDIV_total lowered.code_SMOD_total)+
  show "code_DIV B d n = Some (evm_div d n)" "code_MOD B d n = Some (evm_mod d n)"
    using assms by (auto simp: llvm.code_DIV_eq lowered.code_DIV_eq llvm.code_MOD_eq lowered.code_MOD_eq)
qed

lemma y_division:
  "evm_div a b = of_nat (unat a div unat b)" "evm_mod a b = (if b = 0 then 0 else of_nat (unat a mod unat b))"
  "evm_sdiv a b = (if b = 0 then 0 else of_int (sint a sdiv sint b))"
  "evm_smod a b = (if b = 0 then 0 else of_int (sint a smod sint b))"
  by (simp_all add: evm_div_def evm_mod_def evm_sdiv_def evm_smod_def sdiv_word_def smod_word_def uint_nat
      zdiv_int [symmetric] zmod_int [symmetric] del: of_nat_unat unsigned_of_nat)

lemma y_byte: "evm_byte i x = (if unat i < 32 then ucast (to_be x ! unat i) else 0)"
  using code_BYTE_eq [of True i x] ucast5_small [of i] by (auto simp: code_BYTE_def word_less_nat_alt)

lemma y_sum: "of_nat (unat a + unat b) = a + b" "of_nat (unat a * unat b) = a * b" "of_int (uint a - uint b) = a - b"
  for a b :: word256
  by simp_all

lemma arith_op_y:
  assumes "B \<in> {llvm_division, lowered_division}" "inst \<in> set arith_insts" "arith_op B inst a = Some w"
  shows "w = y_word inst (a ! 0) (a ! 1) (a ! 2)"
proof -
  note d = some_or_none [OF assms(1)]
  show ?thesis
    using assms(2,3) d(1) [of "a ! 0" "a ! 1"] d(2) [of "a ! 0" "a ! 1"] d(5) [of "a ! 0" "a ! 1" "a ! 2"] d(6) [of "a ! 0" "a ! 1" "a ! 2"]
    unfolding arith_insts_def list.set
    by (elim insertE emptyE; simp only: arith_op_def y_word_def instruction.case d(3,4) y_division evm_addmod_def evm_mulmod_def
        y_sum option.inject option.distinct simp_thms)
qed

lemma bit_op_y:
  assumes "inst \<in> set bit_insts" "bit_op le inst a = Some w"
  shows "w = y_word inst (a ! 0) (a ! 1) (a ! 2)"
proof -
  have "(a ! 0) < 31 \<longleftrightarrow> unat (a ! 0) < 31" by (simp add: word_less_nat_alt)
  then show ?thesis
  using assms unfolding bit_insts_def list.set
  by (elim insertE emptyE; simp add: bit_op_def y_word_def code_NOT_def code_LT_def code_GT_def code_SLT_def code_SGT_def
      code_EQ_def code_ISZERO_def code_bool_def y_bool_def word_less_nat_alt code_BYTE_eq code_SIGNEXTEND_eq y_byte evm_signextend_def)
qed

lemma word_op_y:
  assumes "frame_of e fr" "inst \<in> set word_insts" "word_op e inst a = Some w"
  shows "w = y_word inst (a ! 0) (a ! 1) (a ! 2)"
  using arith_op_y [OF frame_ofD(16) [OF assms(1)], of inst a w] bit_op_y [of inst "e_le e" a w] assms(2,3)
  by (auto simp: word_op_def word_insts_def split: if_split_asm)

section \<open>Instructions with a result\<close>

text \<open>The cache of the transaction context holds nothing but the frame's.\<close>

definition tx_known :: "'h frame \<Rightarrow> 'h rt_state \<Rightarrow> bool" where
  "tx_known fr s \<longleftrightarrow> rt_txCtx s = None \<or> rt_txCtx s = Some (fr_tx fr)"

lemma of_be_extend: "length a = 20 \<Longrightarrow> ucast (of_be a :: 160 word) = (of_be a :: word256)"
proof -
  assume a: "length a = 20"
  have "be_value a < 256 ^ 20" using be_value_less [of a] a by simp
  then show ?thesis
    by (intro word_eq_by_unat) (simp add: unat_ucast_up of_be_def unat_of_nat_small)
qed

lemma load_tx:
  assumes "frame_of e fr" "tx_known fr s"
  obtains s' where "loadTxCtx e s = (fr_tx fr, s')" "yabs s' = yabs s" "tx_known fr s'"
  using assms frame_ofD(15) [OF assms(1)]
  by (cases "rt_txCtx s") (auto simp: loadTxCtx_def tx_known_def Let_def yabs_def frame_ofD)

lemma env_value_y:
  assumes e: "env_ok e" "frame_of e fr" and s: "rt_ok s" "tx_known fr s" and inst: "inst \<in> set env_insts"
  shows "fst (env_value e inst s) = y_env fr inst (yabs s)" "yabs (snd (env_value e inst s)) = yabs s"
    "tx_known fr (snd (env_value e inst s))"
proof -
  note f = frame_ofD [OF e(2)]
  obtain s' where t: "loadTxCtx e s = (fr_tx fr, s')" "yabs s' = yabs s" "tx_known fr s'" using e(2) s(2) by (rule load_tx)
  have "fr_tx fr = get_tx_context (e_host e) (rt_host s)" by (simp only: f(1,15))
  then have len: "length (tx_gas_price (fr_tx fr)) = 32" "length (tx_origin (fr_tx fr)) = 20"
    "length (block_coinbase (fr_tx fr)) = 20" "length (block_difficulty (fr_tx fr)) = 32"
    using host_okD(6-9) [OF env_okD(2) [OF e(1)]] by simp_all
  have data: "getCallDataSize e = of_nat (length (input_data (fr_msg fr)))"
    using env_okD(3,4) [OF e(1)] f(8) by (simp add: getCallDataSize_def getCallData_def ucast_of_nat_size)
  have mem: "getSize (rt_mem s) = of_nat (32 * mem_words (rt_mem s))"
    using rt_okD(4) [OF s(1)] unfolding mem_ok_def getSize_def by (metis of_nat_unat)
  have ret: "(ucast (of_nat (length (rt_returnBuf s)) :: i64) :: word256) = of_nat (length (rt_returnBuf s))"
    using rt_okD(5) [OF s(1)] by (intro ucast_of_nat_size) simp
  have "env_value e inst s = (y_env fr inst (yabs s), s) \<or> env_value e inst s = (y_env fr inst (yabs s), s')"
    using inst unfolding env_insts_def list.set
    by (elim insertE emptyE; simp add: env_value_def y_env_def getTxContextItem_def t(1) Let_def f len data mem ret of_be_extend
        getGas_def del: of_nat_mult)
  then show "fst (env_value e inst s) = y_env fr inst (yabs s)" "yabs (snd (env_value e inst s)) = yabs s"
    "tx_known fr (snd (env_value e inst s))"
    using t s(2) by auto
qed

lemma agrees_SHA3:
  assumes "env_ok e" "frame_of e fr" "rt_ok s" and that: "length a = 2"
  shows "agrees on_value (code_SHA3 e (map Inst a) s) (y_value fr SHA3 a (yabs s))"
proof -
  note f = frame_ofD [OF assms(2)]
  have a: "arg (map Inst a) 0 = a ! 0" "arg (map Inst a) 1 = a ! 1" using that by simp_all
  show ?thesis
    unfolding code_SHA3_eq [OF assms(1,3)] a y_value_def instruction.case
  proof (intro agrees_bind [OF agrees_expand [OF assms(3)]] agrees_bind [OF agrees_pay], goal_cases)
    case (1 s1 s2)
    have "covered (a ! 0) (a ! 1) s2" using covered_require [OF assms(3) 1(1)] covered_pay [OF 1(2)] by simp
    then show ?case by (simp add: ext_sha3_def slice_read f word_result_y)
  qed
qed

lemma agrees_MLOAD:
  assumes "env_ok e" "rt_ok s" "length a = 1"
  shows "agrees on_value (code_MLOAD e (map Inst a) s) (y_value fr MLOAD a (yabs s))"
proof -
  have a: "arg (map Inst a) 0 = a ! 0" using assms(3) by simp
  show ?thesis
    unfolding code_MLOAD_eq [OF assms(1,2)] a y_value_def instruction.case
  proof (rule agrees_map [OF agrees_expand [OF assms(2)]], goal_cases)
    case (1 s1)
    have "read_mem (unat (a ! 0)) (unat (32 :: word256)) (rt_mem s1) = y_read (a ! 0) 32 (yabs s1)"
      by (rule yabs_read) (use rt_require_Done(4) [OF assms(2) 1] in blast)
    then show ?case by simp
  qed
qed

lemma ext_blockHash_y:
  assumes "env_ok e" "frame_of e fr" and that: "length a = 1"
  shows "code_BLOCKHASH e (map Inst a) s =
    Done (if unat (a ! 0) < 2 ^ 63 then of_be (get_block_hash (fr_host fr) (rt_host s) (of_nat (unat (a ! 0)))) else 0, s)"
proof -
  have "ucast gasMax < a ! 0 \<longleftrightarrow> \<not> unat (a ! 0) < 2 ^ 63"
    by (simp add: word_less_nat_alt unat_ucast_up unat_gasMax) linarith
  then show ?thesis
    using that host_okD(3) [OF env_okD(2) [OF assms(1)]]
    by (simp add: code_BLOCKHASH_def Let_def ext_blockHash_def frame_ofD [OF assms(2)] word_result_y)
qed

section \<open>Calls\<close>

definition kind_of :: "instruction \<Rightarrow> call_kind" where
  "kind_of inst = (if inst = CREATE then EVMC_CREATE else call_kind_of inst)"

lemma message_y:
  assumes "frame_of e fr" "inst \<in> {CREATE, CALL, CALLCODE, DELEGATECALL, STATICCALL}"
    and "address = (if inst = CREATE then None else Some (addr_arg e addr))"
  shows "call_message (e_msg e h) (kind_of inst) gas address (to_be amount) input = y_message fr inst (unat gas) addr amount input"
  using assms(2,3) frame_ofD [OF assms(1)]
  by (auto simp: call_message_def y_message_def kind_of_def call_kind_of_def addr_arg_y Let_def)

lemma send_y:
  assumes e: "env_ok e" "frame_of e fr" and inst: "inst \<in> {CREATE, CALL, CALLCODE, DELEGATECALL, STATICCALL}"
    and address: "address = (if inst = CREATE then None else Some (addr_arg e addr))"
    and amount: "inst = DELEGATECALL \<Longrightarrow> amount = 0" and gas: "unat gas < 2 ^ 63"
    and w: "call_wrapper e (rt_host s) (kind_of inst) gas address (toBE (e_le e) amount) input n = (r, out, buf, h')"
    and size: "inst = CREATE \<Longrightarrow> n = 20"
  obtains ok left ca where "y_send fr inst (unat gas) addr amount input (yabs s) = (ok, unat left, buf, ca, h')"
    "call_result r = (ok, left)" "unat left \<le> unat gas" "inst \<noteq> CREATE \<Longrightarrow> out = take n buf"
    "inst = CREATE \<Longrightarrow> ok \<Longrightarrow> out = ca \<and> length ca = 20"
proof -
  note f = frame_ofD [OF e(2)]
  have host: "rt_host s = y_host (yabs s)" by simp
  have delegate: "kind_of inst = EVMC_DELEGATECALL \<longleftrightarrow> inst = DELEGATECALL"
    using inst by (auto simp: kind_of_def call_kind_of_def)
  have bal: "word_result e (get_balance (e_host e) (rt_host s) (myAddr e)) = y_balance fr (fr_self fr) (yabs s)"
    by (simp add: myAddr_y [OF e(2)] word_result_y host_okD(2) [OF env_okD(2) [OF e(1)]] f(1) y_balance_def flip: f(1))
  have cond: "(sint (getDepth e) < 1024 \<and>
      (kind_of inst \<noteq> EVMC_DELEGATECALL \<and> toBE (e_le e) amount \<noteq> 0 \<longrightarrow> toNative (e_le e) (toBE (e_le e) amount) \<le> y_balance fr (fr_self fr) (yabs s)))
    \<longleftrightarrow> sint (msg_depth (fr_msg fr)) < 1024 \<and> amount \<le> y_balance fr (fr_self fr) (yabs s)" (is "?c \<longleftrightarrow> ?d")
    using amount by (auto simp: f(14) delegate)
  show thesis
  proof (cases ?d)
    case False
    then have "r = gas OR EVM_CALL_FAILURE" "out = []" "buf = []" "h' = rt_host s"
      using w cond unfolding call_wrapper_def Let_def bal by (auto split: if_split_asm)
    then show ?thesis
      using False call_result_failed [OF gas] by (intro that [of False gas "[]"]) (auto simp: y_send_def)
  next
    case True
    have c: "call (e_host e) (e_msg e (rt_host s)) (rt_host s) (kind_of inst) gas address (to_be amount) input n = (r, out, buf, h')"
      using w True cond unfolding call_wrapper_def Let_def bal by simp
    obtain res h2 where h: "host_call (fr_host fr) (rt_host s) (y_message fr inst (unat gas) addr amount input) = (res, h2)"
      by fastforce
    note ok = host_ok_call [OF env_okD(2) [OF e(1), unfolded f(1)] h]
    have le: "unat (gas_left res) \<le> unat gas" using ok(1) by (simp add: y_message_def Let_def)
    then have small: "unat (gas_left res) < 2 ^ 63" using gas by simp
    have parts: "r = (if status_code res \<noteq> EVMC_SUCCESS then gas_left res OR EVM_CALL_FAILURE else gas_left res)"
      "buf = output_data res" "h' = h2"
      "out = (if kind_of inst = EVMC_CREATE \<and> status_code res = EVMC_SUCCESS
              then create_address res @ drop (length (create_address res)) (take (min n (length (output_data res))) (output_data res))
              else take (min n (length (output_data res))) (output_data res))"
      using c unfolding call_def Let_def message_y [OF e(2) inst address] f(1) h by simp_all
    have kind: "kind_of inst = EVMC_CREATE \<longleftrightarrow> inst = CREATE" using inst by (auto simp: kind_of_def call_kind_of_def)
    show ?thesis
    proof (rule that [of "status_code res = EVMC_SUCCESS" "gas_left res" "create_address res"])
      show "y_send fr inst (unat gas) addr amount input (yabs s) = (status_code res = EVMC_SUCCESS, unat (gas_left res), buf, create_address res, h')"
        using True h parts(2,3) by (simp add: y_send_def)
      show "call_result r = (status_code res = EVMC_SUCCESS, gas_left res)"
        using parts(1) call_result_plain [OF small] call_result_failed [OF small] by simp
      show "inst \<noteq> CREATE \<Longrightarrow> out = take n buf" using parts(2,4) kind by (simp add: min_def)
      show "inst = CREATE \<Longrightarrow> status_code res = EVMC_SUCCESS \<Longrightarrow> out = create_address res \<and> length (create_address res) = 20"
        using parts(4) kind ok(2) size by simp
    qed (rule le)
  qed
qed

lemma agrees_create:
  assumes e: "env_ok e" "frame_of e fr" and s: "rt_ok s" and a: "length a = 3"
  shows "agrees on_value (obind (rt_require (a ! 1) (a ! 2) s) (code_CREATE e (map Inst a))) (y_create fr (a ! 0) (a ! 1) (a ! 2) (yabs s))"
  unfolding y_create_def
proof (rule agrees_bind [OF agrees_expand [OF s]])
  fix s1
  assume r: "rt_require (a ! 1) (a ! 2) s = Done s1"
  note ok = rt_require_Done(1) [OF s r] and cov = covered_require [OF s r]
  let ?kept = "if fr_rev fr \<ge> EVMC_TANGERINE_WHISTLE then unat (rt_gas s1) div 64 else 0"
  have kept: "unat (create_kept e s1) = ?kept" by (simp add: create_kept_def frame_ofD [OF e(2)] unat_drop_bit)
  have small: "unat (rt_gas s1) < 2 ^ 63" using rt_okD(3) [OF ok] by simp
  have gas: "unat (rt_gas s1 - create_kept e s1) = unat (rt_gas s1) - ?kept"
    using nuw_nsw_sub_small(2) [OF small create_kept_le] kept by simp
  have arg: "arg (map Inst a) 0 = a ! 0" "arg (map Inst a) 1 = a ! 1" "arg (map Inst a) 2 = a ! 2" using a by simp_all
  have kind: "kind_of CREATE = EVMC_CREATE" by (simp add: kind_of_def)
  obtain r out buf h' where w: "call_wrapper e (rt_host s1) (kind_of CREATE) (rt_gas s1 - create_kept e s1) None (toBE (e_le e) (a ! 0))
      (y_read (a ! 1) (a ! 2) (yabs s1)) 20 = (r, out, buf, h')" by (metis prod_cases4)
  have small2: "unat (rt_gas s1 - create_kept e s1) < 2 ^ 63" unfolding gas using small by (rule le_less_trans [OF diff_le_self])
  obtain ok' left ca where y: "y_send fr CREATE (unat (rt_gas s1) - ?kept) 0 (a ! 0) (y_read (a ! 1) (a ! 2) (yabs s1)) (yabs s1) = (ok', unat left, buf, ca, h')"
    and res: "call_result r = (ok', left)" "unat left \<le> unat (rt_gas s1) - ?kept" "ok' \<Longrightarrow> out = ca \<and> length ca = 20"
    unfolding gas [symmetric] by (rule send_y [OF e _ _ _ small2 w, where addr = 0]) auto
  have "unat (left + create_kept e s1) = unat left + ?kept"
  proof -
    have "unat left + unat (create_kept e s1) < 2 ^ LENGTH(64)"
      using res(2) small create_kept_le [of e s1] unfolding kept [symmetric] by simp
    then show ?thesis unfolding kept [symmetric] by (rule unat_add_no_wrap)
  qed
  moreover have "ok' \<Longrightarrow> ucast (toNative (e_le e) (host_load (e_le e) out :: 160 word)) = (of_be ca :: word256)"
    using res(3) by (simp add: of_be_extend)
  ultimately show "agrees on_value (code_CREATE e (map Inst a) s1)
    (let kept = if fr_rev fr \<ge> EVMC_TANGERINE_WHISTLE then y_gas (yabs s1) div 64 else 0;
         (ok, left, out, addr, h) = y_send fr CREATE (y_gas (yabs s1) - kept) 0 (a ! 0) (y_read (a ! 1) (a ! 2) (yabs s1)) (yabs s1)
     in Some (if ok then of_be addr else 0, (yabs s1)\<lparr>y_gas := left + kept, y_returned := out, y_host := h\<rparr>))"
    unfolding Let_def yabs_simps y prod.case code_CREATE_eq [OF ok] arg slice_read [OF cov] obind.simps w [unfolded kind] res(1)
    by (simp add: yabs_def)
qed

lemma agrees_transfer:
  assumes "frame_of e fr" "rt_ok s" "amount \<noteq> 0 \<Longrightarrow> inst \<in> {CALL, CALLCODE}"
  shows "agrees yabs (pay (unat (call_transfer_cost e inst amount)) s)
    (if inst = CALL \<and> fr_static fr \<and> amount \<noteq> 0 then None else y_pay (y_transfer_cost amount) (yabs s))"
proof (cases "inst = CALL \<and> fr_static fr \<and> amount \<noteq> 0")
  case True
  then have "unat (call_transfer_cost e inst amount) = 2 ^ 63 - 1"
    by (simp add: call_transfer_cost_def unat_gasMax frame_ofD [OF assms(1)])
  then show ?thesis using True rt_okD(3) [OF assms(2)] by (simp add: pay_eq)
next
  case False
  have "unat (call_transfer_cost e inst amount) = y_transfer_cost amount"
    using False by (auto simp: call_transfer_cost_def y_transfer_cost_def frame_ofD [OF assms(1)] schedule)
  then show ?thesis using False agrees_pay by auto
qed

lemma account_cost_y: "frame_of e fr \<Longrightarrow> unat (call_account_cost e inst addr amount s) = y_account_cost fr inst addr amount (yabs s)"
  by (auto simp: call_account_cost_def y_account_cost_def ext_exists_def y_exists_def addr_arg_y frame_ofD schedule Let_def)

lemma call_gas_y:
  assumes "frame_of e fr" "rt_ok s"
  obtains ga where "call_gas e wanted (getGas s) = Some ga" "unat ga = y_call_gas fr (unat wanted) (unat (rt_gas s))"
proof (cases "fr_rev fr \<ge> EVMC_TANGERINE_WHISTLE")
  case True
  let ?d = "rt_gas s - drop_bit 6 (rt_gas s)"
  have small: "unat (rt_gas s) < 2 ^ 63" using rt_okD(3) [OF assms(2)] by simp
  have le: "unat (drop_bit 6 (rt_gas s)) \<le> unat (rt_gas s)" by (simp add: unat_drop_bit)
  note d = nuw_nsw_sub_small [OF small le]
  have u: "unat (ucast ?d :: word256) = unat (rt_gas s) - unat (rt_gas s) div 64"
    by (subst unat_ucast_up) (simp_all add: d(2) unat_drop_bit)
  show ?thesis
    by (rule that [of "if ucast ?d < wanted then ucast ?d else wanted"])
      (use True u in \<open>simp_all add: call_gas_def frame_ofD [OF assms(1)] getGas_def d(1) ir_zext_def ir_ugt_def y_call_gas_def word_less_nat_alt\<close>)
next
  case False
  then show ?thesis by (intro that [of wanted]) (simp_all add: call_gas_def frame_ofD [OF assms(1)] y_call_gas_def)
qed

lemma call_result_y: "code_bool b = y_bool b"
  by (simp add: code_bool_def y_bool_def)

lemma agrees_pass:
  assumes e: "env_ok e" "frame_of e fr" and s: "rt_ok s" and inst: "inst \<in> {CALL, CALLCODE, DELEGATECALL, STATICCALL}"
    and amount: "inst = DELEGATECALL \<Longrightarrow> amount = 0"
    and cov: "covered inOff inLen s" "covered outOff outLen s"
    and room: "rt_budget s + (if amount = 0 then 0 else 2300) < 2 ^ 47"
  shows "agrees on_value (call_with_gas e inst wanted addr amount inOff inLen outOff outLen s)
    (do {
       let gas = y_call_gas fr (unat wanted) (unat (rt_gas s));
       y5 \<leftarrow> y_pay gas (yabs s);
       let (ok, left, out, _, h) =
         y_send fr inst (gas + (if amount = 0 then 0 else 2300)) addr amount (y_read inOff inLen y5) y5;
       let y6 = y_write outOff (take (unat outLen) out) y5;
       Some (y_bool ok, y6\<lparr> y_gas := y_gas y6 + left, y_returned := out, y_host := h \<rparr>)
     })"
proof -
  obtain ga where ga: "call_gas e wanted (getGas s) = Some ga" "y_call_gas fr (unat wanted) (unat (rt_gas s)) = unat ga"
    using call_gas_y [OF e(2) s, of wanted] by metis
  let ?st = "if amount = 0 then 0 else of_int callStipend :: i64" and ?n = "if amount = 0 then 0 else 2300 :: nat"
  have st: "unat ?st = ?n" by (simp add: schedule)
  show ?thesis
    unfolding call_with_gas_def ga use_Some on_gas_count256 [OF s] Let_def
  proof (rule agrees_bind [OF agrees_pay])
    fix s1
    assume p: "pay (unat ga) s = Done s1"
    have le: "unat ga \<le> unat (rt_gas s)" and s1: "s1 = s\<lparr> rt_gas := rt_gas s - of_nat (unat ga) \<rparr>"
      using p by (simp_all add: pay_eq split: if_split_asm)
    note ok = pay_ok [OF s p]
    have b: "unat (rt_gas s) + ?n < 2 ^ 47" using room by (simp add: rt_budget_def budget_def)
    have u: "unat (ucast ga :: i64) = unat ga" using le b by (intro unat_trunc_addr) simp
    have sum: "unat (ucast ga :: i64) + unat ?st < 2 ^ 63" using le b unfolding u st by simp
    let ?gas = "ucast ga + ?st :: i64"
    have gas: "unat ?gas = unat ga + ?n" unfolding nuw_nsw_add_small(2) [OF sum] u st ..
    have small: "unat ?gas < 2 ^ 63" using nuw_nsw_add_small(2) [OF sum] sum by simp
    have cov1: "covered inOff inLen s1" "covered outOff outLen s1" using cov covered_pay [OF p] by simp_all
    let ?in = "y_read inOff inLen (yabs s1)"
    have kind: "kind_of inst = call_kind_of inst" using inst by (auto simp: kind_of_def)
    obtain r out buf h' where w: "call_wrapper e (rt_host s1) (kind_of inst) ?gas (Some (addr_arg e addr)) (toBE (e_le e) amount) ?in
        (unat (ucast outLen :: i64)) = (r, out, buf, h')" by (metis prod_cases4)
    obtain k left ca where y: "y_send fr inst (unat ga + ?n) addr amount ?in (yabs s1) = (k, unat left, buf, ca, h')"
      and res: "call_result r = (k, left)" "unat left \<le> unat ga + ?n" "out = take (unat outLen) buf"
      unfolding gas [symmetric]
      by (rule send_y [OF e _ _ amount small w]) (use inst cov1(2) in \<open>auto simp: covered_def\<close>)
    have put: "mem_put outOff out (rt_mem s1) = Done (write_mem (unat outOff) out (rt_mem s1))"
      by (rule put_write [OF cov1(2)]) (simp add: res(3))
    have c: "ext_call e (call_kind_of inst) ?gas addr amount inOff inLen outOff outLen s1 =
        Done (r, s1\<lparr> rt_mem := write_mem (unat outOff) out (rt_mem s1), rt_returnBuf := buf, rt_host := h' \<rparr>)"
      using w unfolding kind by (simp add: ext_call_def Let_def resetReturnBuf_def slice_read [OF cov1(1)] put)
    have mem: "y_write outOff out (yabs s1) = yabs (s1\<lparr> rt_mem := write_mem (unat outOff) out (rt_mem s1) \<rparr>)"
    proof -
      have "length out \<noteq> 0 \<Longrightarrow> unat outOff + length out \<le> length (a_data (rt_mem s1))"
        using covered_D [OF cov1(2)] by (simp add: res(3))
      from yabs_write [OF this] show ?thesis by (simp add: put_mem_def)
    qed
    have total: "unat (rt_gas s1 + left) = unat (rt_gas s1) + unat left"
    proof (rule unat_add_no_wrap)
      have "unat (rt_gas s1) = unat (rt_gas s) - unat ga" using unat_charge [OF le] by (simp add: s1)
      then show "unat (rt_gas s1) + unat left < 2 ^ LENGTH(64)" using res(2) b le by simp
    qed
    show "agrees on_value
      (use (ir_nuw_nsw_add (Some (ucast ga)) (Some ?st)) (\<lambda>gas.
         obind (ext_call e (call_kind_of inst) gas addr amount inOff inLen outOff outLen s1) (\<lambda>(r, s).
           case call_result r of (ret, finalGas) \<Rightarrow> Done (code_bool ret, s\<lparr> rt_gas := giveBack (rt_gas s) finalGas \<rparr>))))
      (case y_send fr inst (unat ga + ?n) addr amount ?in (yabs s1) of (ok, left, out, _, h) \<Rightarrow>
         Some (y_bool ok, (y_write outOff (take (unat outLen) out) (yabs s1))
           \<lparr> y_gas := y_gas (y_write outOff (take (unat outLen) out) (yabs s1)) + left, y_returned := out, y_host := h \<rparr>))"
      unfolding nuw_nsw_add_small(1) [OF sum] use_Some c y prod.case obind.simps res(1) giveBack_def agrees_simps
        res(3) [symmetric] mem call_result_y
      by (simp add: yabs_def total)
  qed
qed

lemma agrees_call:
  assumes e: "env_ok e" "frame_of e fr" and s: "rt_ok s" and inst: "inst \<in> {CALL, CALLCODE, DELEGATECALL, STATICCALL}"
    and amount: "amount \<noteq> 0 \<Longrightarrow> inst \<in> {CALL, CALLCODE}"
  shows "agrees on_value
    (obind (rt_require outOff outLen s) (\<lambda>s. obind (rt_require inOff inLen s) (\<lambda>s.
     obind (pay (unat (call_transfer_cost e inst amount)) s) (\<lambda>s.
     obind (pay (unat (call_account_cost e inst addr amount s)) s)
       (call_with_gas e inst wanted addr amount inOff inLen outOff outLen)))))
    (y_call fr inst wanted addr amount inOff inLen outOff outLen (yabs s))"
  unfolding y_call_def account_cost_y [OF e(2)]
proof (rule agrees_bind [OF agrees_expand [OF s]], rule agrees_bind [OF agrees_expand], goal_cases)
  case (1 s1)
  then show ?case by (rule rt_require_Done(1) [OF s])
next
  case (2 s1 s2)
  note d1 = rt_require_Done [OF s 2(1)]
  note d2 = rt_require_Done [OF d1(1) 2(2)]
  show ?case
  proof (rule agrees_bind [OF agrees_transfer [OF e(2) d2(1) amount]], assumption, rule agrees_bind [OF agrees_pay], goal_cases)
    case (1 s3 s4)
    note d3 = transfer_pays [OF d2(1) 1(1)]
    note d4 = pay_ok [OF d3(1) 1(2)]
    note paid = covered_pay [OF 1(1)] covered_pay [OF 1(2)]
    have "covered inOff inLen s4" using covered_require [OF d1(1) 2(2)] by (simp add: paid)
    moreover have "covered outOff outLen s4"
      using covered_mono [OF covered_require [OF s 2(1)] rt_require_grows [OF d1(1) 2(2)]] by (simp add: paid)
    moreover have "rt_budget s4 + (if amount = 0 then 0 else 2300) < 2 ^ 47"
    proof -
      have "rt_budget s < 2 ^ 47" using s by (simp add: rt_ok_def state_ok_def rt_budget_def)
      then show ?thesis using d1(2) d2(2) d3(2) d4(2) by linarith
    qed
    moreover have "inst = DELEGATECALL \<Longrightarrow> amount = 0" using amount by auto
    ultimately show ?case
      using agrees_pass [OF e d4(1) inst, of amount inOff inLen outOff outLen wanted addr] by simp
  qed
qed

section \<open>Every instruction\<close>

definition value_insts :: "instruction set" where
  "value_insts = set word_insts \<union> set env_insts \<union> {EXP, SHA3, MLOAD, SLOAD, BLOCKHASH, BALANCE, EXTCODESIZE, CALLDATALOAD,
     CREATE, CALL, CALLCODE, DELEGATECALL, STATICCALL}"

lemma evm_compute_plain: "inst \<notin> {EXP, CREATE} \<Longrightarrow> evm_compute e inst args s = exec_value e inst (map Inst args) s"
  by (cases inst) (simp_all add: evm_compute_def evm_pay_dynamic_def)

lemma value_y:
  assumes e: "env_ok e" "frame_of e fr" and s: "rt_ok s" "tx_known fr s"
    and inst: "inst \<in> value_insts" and len: "length a = pops inst"
  shows "agrees on_value (evm_compute e inst a s) (y_value fr inst a (yabs s))"
proof -
  note f = frame_ofD [OF e(2)]
  have word: ?thesis if w: "inst \<in> set word_insts"
  proof -
    have "inst \<notin> {EXP, CREATE}" "y_value fr inst a (yabs s) = Some (y_word inst (a ! 0) (a ! 1) (a ! 2), yabs s)"
      using w by (auto simp: word_insts_def arith_insts_def bit_insts_def y_value_def env_insts_def)
    then show ?thesis
      using word_op_y [OF e(2) w, of a] by (cases "word_op e inst a") (simp_all add: evm_compute_plain exec_value_word [OF w] comp_def)
  qed
  have env: ?thesis if w: "inst \<in> set env_insts"
  proof -
    have "inst \<notin> {EXP, CREATE}" "y_value fr inst a (yabs s) = Some (y_env fr inst (yabs s), yabs s)"
      "exec_value e inst (map Inst a) s = Done (env_value e inst s)"
      using w by (auto simp: env_insts_def y_value_def exec_value_def)
    then show ?thesis using env_value_y [OF e s w] by (simp add: evm_compute_plain case_prod_beta)
  qed
  have len2: "inst = SHA3 \<Longrightarrow> length a = 2" "inst = MLOAD \<Longrightarrow> length a = 1" "inst = BLOCKHASH \<Longrightarrow> length a = 1" "inst = CREATE \<Longrightarrow> length a = 3"
    using len by (auto simp: pops_def)
  consider "inst \<in> set word_insts" | "inst \<in> set env_insts" | "inst = EXP" | "inst \<in> {SHA3, MLOAD}" | "inst \<in> {SLOAD, BALANCE, EXTCODESIZE}"
    | "inst = BLOCKHASH" | "inst = CALLDATALOAD" | "inst = CREATE" | "inst \<in> {CALL, CALLCODE}" | "inst \<in> {DELEGATECALL, STATICCALL}"
    using inst unfolding value_insts_def by blast
  then show ?thesis
  proof cases
    case 3
    have "getExpFunc (a ! 0) (a ! 1) = of_nat (unat (a ! 0) ^ unat (a ! 1))" by (simp add: getExpFunc_def exp_loop_power)
    moreover have "arg (map Inst a) 0 = a ! 0" "arg (map Inst a) 1 = a ! 1" using len 3 by (simp_all add: pops_def)
    ultimately show ?thesis
      using agrees_pay [of "nat (exponentByteCost (e_rev e)) * exp_bytes (a ! 1)" s]
      by (cases "pay (nat (exponentByteCost (e_rev e)) * exp_bytes (a ! 1)) s")
        (simp_all add: 3 evm_compute_def evm_pay_dynamic_def on_gas_countExp [OF s(1)] exec_value_def y_value_def f)
  next
    case 4
    then show ?thesis
      using agrees_SHA3 [OF e s(1) len2(1)] agrees_MLOAD [OF e(1) s(1) len2(2)]
      by (auto simp: evm_compute_plain exec_value_def)
  next
    case 5
    have "arg (map Inst a) 0 = a ! 0" using len 5 by (auto simp: pops_def)
    with 5 show ?thesis
      using host_okD(1,2) [OF env_okD(2) [OF e(1)]]
      by (auto simp: evm_compute_plain exec_value_def y_value_def ext_sload_def y_storage_def ext_balance_def y_balance_def
          ext_extcodesize_def word_result_y word_arg_y addr_arg_y myAddr_y [OF e(2)] f)
  next
    case 6
    then show ?thesis
      by (simp add: evm_compute_plain exec_value_def y_value_def ext_blockHash_y [OF e len2(3)])
  next
    case 7
    have "arg (map Inst a) 0 = a ! 0" using len 7 by (simp add: pops_def)
    with 7 show ?thesis
      by (simp add: evm_compute_plain exec_value_def y_value_def ext_calldataload_eq [OF e(1)] f window_eq)
  next
    case 8
    have "ssa_value (Inst (a ! 2)) = a ! 2" by simp
    then show ?thesis
      using agrees_create [OF e s(1) len2(4)] 8
      by (simp add: evm_compute_def evm_pay_dynamic_def on_mem_require [OF e(1) s(1)] exec_value_def [abs_def] y_value_def)
  next
    case 9
    have "length a = 7" using len 9 by (auto simp: pops_def)
    then have arg: "arg (map Inst a) i = a ! i" if "i < 7" for i using that by simp
    show ?thesis
      using agrees_call [OF e s(1), of inst "a ! 2" "a ! 5" "a ! 6" "a ! 3" "a ! 4" "a ! 1" "a ! 0"] 9
      by (auto simp: evm_compute_plain exec_value_def y_value_def code_CALL_eq [OF e(1) s(1)] arg)
  next
    case 10
    have "length a = 6" using len 10 by (auto simp: pops_def)
    then have arg: "arg (map Inst a) i = a ! i" if "i < 6" for i using that by simp
    show ?thesis
      using agrees_call [OF e s(1), of inst 0 "a ! 4" "a ! 5" "a ! 2" "a ! 3" "a ! 1" "a ! 0"] 10
      by (auto simp: evm_compute_plain exec_value_def y_value_def code_CALL_eq [OF e(1) s(1)] arg)
  qed (use word env in blast)+
qed

lemma agrees_log:
  assumes e: "env_ok e" "frame_of e fr" and s: "rt_ok s" and len: "length a = 2 + n"
  shows "agrees yabs (code_LOG e n (map Inst a) s) (y_effect fr (LOG n) a (yabs s))"
proof -
  have arg: "arg (map Inst a) 0 = a ! 0" "arg (map Inst a) 1 = a ! 1" using len by (simp_all del: One_nat_def)
  have topics: "map (\<lambda>i. arg (map Inst a) (2 + i)) [0..<n] = take n (drop 2 a)"
    using len by (intro nth_equalityI) simp_all
  show ?thesis
    unfolding code_LOG_eq [OF e(1) s] arg topics y_effect_def instruction.case
  proof (rule agrees_bind [OF agrees_expand [OF s]], rule agrees_bind [OF agrees_pay], goal_cases)
    case (1 s1 s2)
    have "covered (a ! 0) (a ! 1) s2" using covered_require [OF s 1(1)] covered_pay [OF 1(2)] by simp
    then show ?case
      by (simp add: ext_log_def slice_read myAddr_y [OF e(2)] frame_ofD [OF e(2)] word_arg_y [abs_def] yabs_def)
  qed
qed

lemma suicide_cost_y:
  assumes "env_ok e" "frame_of e fr"
  shows "(if e_rev e \<ge> EVMC_TANGERINE_WHISTLE then unat (suicide_penalty e d s) else 0) = y_suicide_cost fr d (yabs s)"
proof -
  note f = frame_ofD [OF assms(2)]
  have "ext_balance e (toNative (e_le e) (getAddress e)) s = y_balance fr (fr_self fr) (yabs s)"
    using host_okD(2) [OF env_okD(2) [OF assms(1)]]
    by (simp add: ext_balance_def y_balance_def word_result_y addr_arg_y f address_roundtrip)
  then show ?thesis
    by (auto simp: suicide_penalty_def y_suicide_cost_def ext_exists_def y_exists_def addr_arg_y f schedule Let_def)
qed

lemma effect_y:
  assumes e: "env_ok e" "frame_of e fr" and s: "rt_ok s"
    and inst: "effect_insts inst" and len: "length a = pops inst"
  shows "agrees yabs (exec_effect e inst (map Inst a) s) (y_effect fr inst a (yabs s))"
proof -
  note f = frame_ofD [OF e(2)]
  consider "inst \<in> {MSTORE, MSTORE8}" | "inst = SSTORE" | "inst \<in> {CALLDATACOPY, CODECOPY}" | "inst = EXTCODECOPY" | "inst = RETURNDATACOPY"
    | "inst = SUICIDE" | n where "inst = LOG n" | "inst \<in> {RETURN, REVERT}"
    using inst by (cases inst) (auto simp: effect_insts_def)
  then show ?thesis
  proof cases
    case 1
    then have "arg (map Inst a) 0 = a ! 0" "arg (map Inst a) 1 = a ! 1" using len by (auto simp: pops_def)
    moreover have "(of_nat (unat (a ! 1) mod 256) :: byte) = ucast (a ! 1)"
      by (rule word_eq_by_unat) (simp add: unat_of_nat unsigned_ucast_eq take_bit_eq_mod)
    ultimately show ?thesis
      using 1 agrees_store [OF s, of "to_be (a ! 1)" 32 "a ! 0"] agrees_store [OF s, of "[ucast (a ! 1)]" 1 "a ! 0"]
      by (auto simp: exec_effect_def y_effect_def code_MSTORE_eq [OF e(1) s] code_MSTORE8_eq [OF e(1) s])
  next
    case 2
    then have arg: "arg (map Inst a) 0 = a ! 0" "arg (map Inst a) 1 = a ! 1" using len by (auto simp: pops_def)
    have "ext_sload e (a ! 0) s = y_storage fr (a ! 0) (yabs s)"
      using host_okD(1) [OF env_okD(2) [OF e(1)]]
      by (simp add: ext_sload_def y_storage_def word_result_y word_arg_y myAddr_y [OF e(2)] f)
    then have sstore: "exec_effect e SSTORE (map Inst a) s = obind (pay (if y_storage fr (a ! 0) (yabs s) = 0 \<and> a ! 1 \<noteq> 0 then 20000 else 5000) s)
        (\<lambda>s1. Done (ext_sstore e (a ! 0) (a ! 1) s1))"
      by (simp only: exec_effect_def instruction.case code_SSTORE_eq [OF s] arg sstore_cost_def)
    show ?thesis
      unfolding 2 sstore y_effect_def instruction.case
      by (rule agrees_map [OF agrees_pay]) (simp add: ext_sstore_def word_arg_y myAddr_y [OF e(2)] f yabs_def)
  next
    case 3
    then have "arg (map Inst a) 0 = a ! 0" "arg (map Inst a) 1 = a ! 1" "arg (map Inst a) 2 = a ! 2" using len by (auto simp: pops_def)
    then show ?thesis
      using 3 by (auto simp: exec_effect_def y_effect_def code_CALLDATACOPY_eq [OF e(1) s] code_CODECOPY_eq [OF e(1) s] window_eq f
          intro!: agrees_copy [OF s])
  next
    case 4
    then have "arg (map Inst a) 0 = a ! 0" "arg (map Inst a) 1 = a ! 1" "arg (map Inst a) 2 = a ! 2" "arg (map Inst a) 3 = a ! 3"
      using len by (auto simp: pops_def)
    then show ?thesis
      using 4 by (auto simp: exec_effect_def y_effect_def code_EXTCODECOPY_eq [OF e(1) s] window_eq f getCode_def y_code_def addr_arg_y Let_def
          intro!: agrees_copy [OF s])
  next
    case 5
    then have arg: "arg (map Inst a) 0 = a ! 0" "arg (map Inst a) 1 = a ! 1" "arg (map Inst a) 2 = a ! 2" using len by (auto simp: pops_def)
    show ?thesis
    proof (cases "unat (a ! 1) + unat (a ! 2) \<le> length (rt_returnBuf s)")
      case True
      then have "returnBuf_window (a ! 1) (a ! 2) s1 = y_window (rt_returnBuf s) (unat (a ! 1)) (unat (a ! 2))"
        if "rt_returnBuf s1 = rt_returnBuf s" for s1 :: "'a rt_state"
        using that by (simp add: returnBuf_window_def in_returnBuf_def window_eq [symmetric] src_window_def)
      then show ?thesis
        using True unfolding 5 exec_effect_def y_effect_def instruction.case code_RETURNDATACOPY_eq [OF e(1) s] arg in_returnBuf_def
        by (auto intro!: agrees_copy [OF s])
    next
      case False
      then show ?thesis
        unfolding 5 exec_effect_def y_effect_def instruction.case code_RETURNDATACOPY_eq [OF e(1) s] arg in_returnBuf_def
        by (cases "rt_require (a ! 0) (a ! 2) s") simp_all
    qed
  next
    case 6
    then have arg: "arg (map Inst a) 0 = a ! 0" using len by (auto simp: pops_def)
    show ?thesis
      unfolding 6 exec_effect_def y_effect_def instruction.case code_SUICIDE_eq [OF s] arg suicide_cost_y [OF e]
      by (rule agrees_map [OF agrees_pay])
        (simp add: ext_selfdestruct_def addr_arg_y myAddr_y [OF e(2)] f yabs_def)
  next
    case 7
    then show ?thesis using agrees_log [OF e s] len by (simp add: exec_effect_def pops_def)
  next
    case 8
    then have arg: "arg (map Inst a) 0 = a ! 0" "arg (map Inst a) 1 = a ! 1" using len by (auto simp: pops_def)
    have "agrees yabs (code_RETURN e (map Inst a) s) (Option.bind (y_expand (a ! 0) (a ! 1) (yabs s)) Some)"
      unfolding code_RETURN_eq [OF e(1) s] arg
      by (rule agrees_bind [OF agrees_expand [OF s]]) (simp add: registerReturnData_def yabs_def)
    then show ?thesis using 8 by (auto simp: exec_effect_def y_effect_def)
  qed
qed

section \<open>The transaction context\<close>

lemma on_tx:
  "on_gas f s = Done s' \<Longrightarrow> rt_txCtx s' = rt_txCtx s" "on_mem g s = Done s' \<Longrightarrow> rt_txCtx s' = rt_txCtx s"
  "on_mem_value h s = Done (w, s') \<Longrightarrow> rt_txCtx s' = rt_txCtx s"
  by (auto simp: on_gas_def on_mem_def on_mem_value_def obind_eq_Done_iff)

lemma ext_call_tx: "ext_call e kind gas address amount inOff inLen outOff outLen s = Done (r, s') \<Longrightarrow> rt_txCtx s' = rt_txCtx s"
  by (auto simp: ext_call_def Let_def obind_eq_Done_iff resetReturnBuf_def case_prod_beta)

lemma ext_create_tx: "ext_create e gas amount off len s = Done (r, a, s') \<Longrightarrow> rt_txCtx s' = rt_txCtx s"
  by (auto simp: ext_create_def Let_def obind_eq_Done_iff resetReturnBuf_def case_prod_beta)

lemma code_CALL_tx: "code_CALL e inst args s = Done (w, s') \<Longrightarrow> rt_txCtx s' = rt_txCtx s"
  unfolding code_CALL_def Let_def
  by (auto simp: obind_eq_Done_iff use_eq_Done_iff case_prod_beta dest!: on_tx ext_call_tx split: if_split_asm)

lemma code_CREATE_tx: "code_CREATE e args s = Done (w, s') \<Longrightarrow> rt_txCtx s' = rt_txCtx s"
  unfolding code_CREATE_def Let_def
  by (auto simp: obind_eq_Done_iff use_eq_Done_iff setGas_def case_prod_beta dest!: ext_create_tx)

lemma exec_value_tx:
  assumes "exec_value e inst args s = Done (w, s')" "inst \<notin> set env_insts"
  shows "rt_txCtx s' = rt_txCtx s"
  using assms
  by (cases inst) (auto simp: exec_value_def env_insts_def code_SHA3_def code_MLOAD_def code_BLOCKHASH_def Let_def
      obind_eq_Done_iff use_eq_Done_iff dest!: on_tx code_CALL_tx code_CREATE_tx split: if_splits)

lemma exec_effect_tx: "exec_effect e inst args s = Done s' \<Longrightarrow> rt_txCtx s' = rt_txCtx s"
  by (cases inst) (auto simp: exec_effect_def code_MSTORE_def code_MSTORE8_def code_CALLDATACOPY_def
      code_CODECOPY_def code_EXTCODECOPY_def code_RETURNDATACOPY_def code_RETURN_def registerReturnData_def Let_def
      code_SSTORE_def code_SUICIDE_def code_LOG_def ext_sstore_def ext_selfdestruct_def ext_log_def
      obind_eq_Done_iff case_prod_beta dest!: on_tx split: if_split_asm)

end
