(* ===== verification/Correctness.thy ===== *)
theory Correctness
  imports Defined
begin

text \<open>
  The whole program: the blocks wired together by \<^verbatim>\<open>resolveJumps\<close> run the bytecode as the interpreter
  of \<open>Evm\<close> does, from its first instruction to the same return code and state, and both return.
\<close>

section \<open>Block indices and program counters\<close>

text \<open>Block \<open>i\<close> starts at \<open>pc\<close>; the index behind the last block is the "Stop" block, at the code's end.\<close>

definition at_block :: "byte list \<Rightarrow> nat \<Rightarrow> nat \<Rightarrow> bool" where
  "at_block code i pc \<longleftrightarrow>
     i \<le> length (createBasicBlocks code) \<and> pc = next_begin code (drop i (createBasicBlocks code))"

lemma at_block_0: "at_block code 0 0"
  using blocks_facts(3) [of code] by (simp add: at_block_def)

lemma at_block_cases:
  assumes "at_block code i pc"
  obtains (stop) "i = length (createBasicBlocks code)" "pc = length code"
  | (block) bb where "i < length (createBasicBlocks code)" "bb = createBasicBlocks code ! i" "pc = m_begin bb" "block_ok code bb"
proof (cases "i < length (createBasicBlocks code)")
  case True
  let ?bb = "createBasicBlocks code ! i"
  have "pc = m_begin ?bb" using assms True by (simp add: at_block_def Cons_nth_drop_Suc [symmetric])
  moreover have "block_ok code ?bb" using blocks_facts(1) [of code] True by simp
  ultimately show ?thesis using block True by blast
next
  case False
  then show ?thesis using assms stop by (simp add: at_block_def)
qed

lemma at_block_nth: "j < length (createBasicBlocks code) \<Longrightarrow> at_block code j (m_begin (createBasicBlocks code ! j))"
  by (simp add: at_block_def Cons_nth_drop_Suc [symmetric])

text \<open>Falling off the end of a block.\<close>

lemma at_block_next:
  assumes "i < length (createBasicBlocks code)" "bb = createBasicBlocks code ! i"
    and "p \<in> positions code" "m_begin bb \<le> p" "next_pc code p = m_end bb" "\<not> makes_dead (instr_at code p)"
  shows "at_block code (i + 1) (m_end bb)"
proof -
  let ?bs = "createBasicBlocks code"
  have "?bs = take i ?bs @ bb # drop (i + 1) ?bs" using assms(1,2) by (simp add: id_take_nth_drop)
  then have "falls_through_ok code (bb # drop (i + 1) ?bs)"
    using blocks_facts(4) [of code] falls_through_ok_append by metis
  then have "next_begin code (drop (i + 1) ?bs) = m_end bb"
    using assms(3-6) by (simp add: next_pc_def)
  then show ?thesis using assms(1) by (simp add: at_block_def)
qed

section \<open>Jump destinations\<close>

text \<open>A block is a case of the jump table exactly if it begins with JUMPDEST.\<close>

lemma compile_words_isDest:
  "cs_isDest (fst (compile_words cfg code inst bb it cs)) \<longleftrightarrow> inst = Some JUMPDEST \<or> cs_isDest cs"
proof (cases inst)
  case None
  then show ?thesis by (simp add: compile_inst_defs invalid_case_def set_term_def)
next
  case (Some i)
  show ?thesis
  proof (cases "enabled (c_rev cfg) (c_static cfg) i")
    case False
    moreover have "i \<noteq> JUMPDEST" using False by (auto simp: enabled_def)
    ultimately show ?thesis by (simp add: Some compile_disabled invalid_case_def set_term_def)
  next
    case True
    show ?thesis
    proof (cases i rule: instr_cases)
      case 1
      then show ?thesis
        by (cases i) (simp_all add: Some special_def compile_special set_term_def pop_val_def push_val_def Let_def case_prod_beta)
    next
      case (2 nxt)
      then have "i \<noteq> JUMPDEST" by (auto simp: effect_exit_def)
      then show ?thesis
        by (simp add: Some compile_effect [OF 2 True] effect_case_def pop_vals_eq add_act_def set_term_def split: evm_next.split)
    next
      case 3
      then have "i \<noteq> JUMPDEST" by (auto simp: special_def)
      then show ?thesis by (simp add: Some compile_value [OF 3 True] gen_value_same)
    qed
  qed
qed

lemma add_act_isDest [simp]: "cs_isDest (add_act a cs) = cs_isDest cs"
  by (simp add: add_act_def)

lemma compile_loop_isDest_rest:
  assumes bb: "block_ok code bb"
  shows "m_begin bb < it \<Longrightarrow> it \<le> m_end bb \<Longrightarrow> on_boundary code it \<Longrightarrow> cs_term cs = None \<Longrightarrow>
    cs_isDest (compile_loop cfg code bb it cs) = cs_isDest cs"
proof (induction "m_end bb - it" arbitrary: it cs rule: less_induct)
  case less
  show ?case
  proof (cases "it < m_end bb")
    case False
    then show ?thesis by (subst compile_loop.simps) simp
  next
    case True
    let ?cs1 = "add_act (Count (instr_at code it)) cs"
    obtain cs2 it1 where c: "compile_words cfg code (instr_at code it) bb it ?cs1 = (cs2, it1)" by fastforce
    have loop: "compile_loop cfg code bb it cs = compile_loop cfg code bb (it1 + 1) cs2"
      using True by (subst compile_loop.simps) (simp add: c)
    have pos: "it \<in> positions code"
      using less.prems(3) True bb by (auto simp: on_boundary_def block_ok_def)
    have "m_begin bb \<le> it" using less.prems(1) by simp
    note b = bb pos this True
    have "instr_at code it \<noteq> Some JUMPDEST" using bb pos less.prems(1) True by (auto simp: block_ok_def)
    then have same: "cs_isDest cs2 = cs_isDest cs"
      using compile_words_isDest [of cfg code "instr_at code it" bb it ?cs1] by (simp add: c)
    have "cs_term ?cs1 = None" using less.prems(4) by (simp add: add_act_def)
    note nx = compile_words_next [OF b this c] and bn = block_next [OF b] and lt = next_pc_bounds(1) [of it code]
    show ?thesis
    proof (cases "cs_term cs2 = None")
      case fall: True
      have "cs_isDest (compile_loop cfg code bb (next_pc code it) cs2) = cs_isDest cs2"
        using less.hyps [of "next_pc code it" cs2] bn(1,2) fall less.prems(1) lt True by simp
      then show ?thesis unfolding loop nx(1) [OF fall] same .
    next
      case False
      then have "it1 + 1 = m_end bb" using nx(2) by blast
      then show ?thesis unfolding loop by (subst compile_loop.simps) (simp add: same)
    qed
  qed
qed

lemma cb_isDest_iff:
  assumes bb: "block_ok code bb"
  shows "cb_isDest (compileBasicBlock cfg code bb) \<longleftrightarrow> instr_at code (m_begin bb) = Some JUMPDEST"
proof -
  let ?it = "m_begin bb" and ?cs1 = "add_act (Count (instr_at code (m_begin bb))) new_comp_state"
  have lt: "?it < m_end bb" and pos: "?it \<in> positions code"
    using bb by (auto simp: block_ok_def on_boundary_def)
  obtain cs2 it1 where c: "compile_words cfg code (instr_at code ?it) bb ?it ?cs1 = (cs2, it1)" by fastforce
  have loop: "compile_loop cfg code bb ?it new_comp_state = compile_loop cfg code bb (it1 + 1) cs2"
    using lt by (subst compile_loop.simps) (simp add: c)
  have dest: "cs_isDest cs2 \<longleftrightarrow> instr_at code ?it = Some JUMPDEST"
    using compile_words_isDest [of cfg code "instr_at code ?it" bb ?it ?cs1] by (simp add: c) (simp add: new_comp_state_def)
  note b = bb pos order_refl lt
  have "cs_term ?cs1 = None" by (simp add: add_act_def new_comp_state_def)
  note nx = compile_words_next [OF b this c] and bn = block_next [OF b]
  have "cs_isDest (compile_loop cfg code bb (it1 + 1) cs2) = cs_isDest cs2"
  proof (cases "cs_term cs2 = None")
    case True
    then show ?thesis
      using compile_loop_isDest_rest [OF bb _ bn(1,2) True] nx(1) next_pc_bounds(1) [of ?it code] by simp
  next
    case False
    then have "it1 + 1 = m_end bb" using nx(2) by blast
    then show ?thesis by (subst compile_loop.simps) simp
  qed
  then show ?thesis by (simp add: compileBasicBlock_fields loop dest)
qed

text \<open>The jump table finds the block of every valid destination, and nothing else.\<close>

definition code_blocks :: "config \<Rightarrow> byte list \<Rightarrow> compiled_block list" where
  "code_blocks cfg code = map (compileBasicBlock cfg code) (createBasicBlocks code)"

lemma jump_table_mem:
  "(w, j) \<in> set (jump_table cbs) \<longleftrightarrow> j < length cbs \<and> cb_isDest (cbs ! j) \<and> w = of_nat (cb_first (cbs ! j))"
  by (auto simp: jump_table_def in_set_enumerate_eq image_iff)

lemma code_blocks_nth:
  assumes "j < length (createBasicBlocks code)"
  shows "cb_isDest (code_blocks cfg code ! j) \<longleftrightarrow> instr_at code (m_begin (createBasicBlocks code ! j)) = Some JUMPDEST"
    "cb_first (code_blocks cfg code ! j) = m_begin (createBasicBlocks code ! j)"
    "m_begin (createBasicBlocks code ! j) < length code"
    "m_begin (createBasicBlocks code ! j) \<in> positions code"
proof -
  have ok: "block_ok code (createBasicBlocks code ! j)" using blocks_facts(1) [of code] assms by simp
  then show "cb_isDest (code_blocks cfg code ! j) \<longleftrightarrow> instr_at code (m_begin (createBasicBlocks code ! j)) = Some JUMPDEST"
    using assms by (simp add: code_blocks_def cb_isDest_iff)
  show "cb_first (code_blocks cfg code ! j) = m_begin (createBasicBlocks code ! j)"
    "m_begin (createBasicBlocks code ! j) < length code" "m_begin (createBasicBlocks code ! j) \<in> positions code"
    using assms ok by (auto simp: code_blocks_def compileBasicBlock_fields block_ok_def on_boundary_def)
qed

lemma find_case_jump_to:
  assumes len: "length code < 2 ^ 48"
  shows "case jump_to code w of
      Goto d \<Rightarrow> \<exists>j. find_case (jump_table (code_blocks cfg code)) w = Block j \<and> at_block code j d
    | _ \<Rightarrow> find_case (jump_table (code_blocks cfg code)) w = AbortBB \<and> jump_to code w = Halt OutOfGas"
proof -
  let ?bs = "createBasicBlocks code" and ?t = "jump_table (code_blocks cfg code)"
  have len_bs: "length (code_blocks cfg code) = length ?bs" by (simp add: code_blocks_def)
  have small: "m_begin (?bs ! j) < 2 ^ 256" if "j < length ?bs" for j
    using code_blocks_nth(3) [OF that] len by simp
  have found: "valid_jumpdest code (unat w) \<and> m_begin (?bs ! j) = unat w \<and> j < length ?bs" if "map_of ?t w = Some j" for j
  proof -
    have j: "j < length ?bs" "cb_isDest (code_blocks cfg code ! j)" "w = of_nat (cb_first (code_blocks cfg code ! j))"
      using map_of_SomeD [OF that] by (simp_all add: jump_table_mem len_bs)
    then have "unat w = m_begin (?bs ! j)"
      using small [OF j(1)] by (simp add: code_blocks_nth(2) unat_of_nat_small)
    then show ?thesis using j code_blocks_nth(1) [OF j(1), of cfg] code_blocks_nth(4) [OF j(1)] by (simp add: valid_jumpdest_def)
  qed
  show ?thesis
  proof (cases "valid_jumpdest code (unat w)")
    case True
    then obtain b where b: "b \<in> set ?bs" "m_begin b = unat w"
      using blocks_facts(3) [of code] by (auto simp: valid_jumpdest_def)
    then obtain j where j: "j < length ?bs" "?bs ! j = b" by (auto simp: in_set_conv_nth)
    then have "cb_isDest (code_blocks cfg code ! j)" "w = of_nat (cb_first (code_blocks cfg code ! j))"
      using True b by (simp_all add: code_blocks_nth valid_jumpdest_def)
    then have "(w, j) \<in> set ?t" using j by (simp add: jump_table_mem len_bs)
    then obtain k where k: "map_of ?t w = Some k" using weak_map_of_SomeI by fastforce
    show ?thesis
      using True found [OF k] at_block_nth [of k code] by (auto simp: jump_to_def find_case_def k)
  next
    case False
    then have "map_of ?t w = None" using found by (cases "map_of ?t w") auto
    then show ?thesis using False by (simp add: jump_to_def find_case_def)
  qed
qed

section \<open>Branches\<close>

lemma branch_next:
  assumes len: "length code < 2 ^ 48" and ev: "\<And>w. ev (Const w) = w"
  shows "case term_next code ev trm of
      Fall \<Rightarrow> run_branch (jump_table (code_blocks cfg code)) ev (resolveJumps (jump_table (code_blocks cfg code)) i trm) = Inl (i + 1)
    | Goto d \<Rightarrow> \<exists>j. run_branch (jump_table (code_blocks cfg code)) ev (resolveJumps (jump_table (code_blocks cfg code)) i trm) = Inl j \<and>
        at_block code j d
    | Halt rc \<Rightarrow> run_branch (jump_table (code_blocks cfg code)) ev (resolveJumps (jump_table (code_blocks cfg code)) i trm) = Inr rc"
proof -
  let ?t = "jump_table (code_blocks cfg code)"
  have target: "case jump_to code (ev v) of
      Goto d \<Rightarrow> \<exists>j. run_target ?t ev (resolve_dest ?t v) = Inl j \<and> at_block code j d
    | _ \<Rightarrow> run_target ?t ev (resolve_dest ?t v) = Inr OutOfGas \<and> jump_to code (ev v) = Halt OutOfGas" for v
  proof -
    have "run_target ?t ev (resolve_dest ?t v) = (case find_case ?t (ev v) of Block b \<Rightarrow> Inl b | _ \<Rightarrow> Inr OutOfGas)"
      by (cases v) (auto simp: resolve_dest_def run_target_def find_case_def ev split: option.split)
    then show ?thesis
      using find_case_jump_to [OF len, of cfg "ev v"] by (auto split: evm_next.splits)
  qed
  show ?thesis
  proof (cases trm)
    case (Some t)
    show ?thesis
    proof (cases t)
      case (TJump v)
      then show ?thesis
        using target [of v] by (auto simp: Some term_next_def resolveJumps_def run_branch_def split: evm_next.splits)
    next
      case (TJumpI v c)
      then show ?thesis
        using target [of v] by (auto simp: Some term_next_def resolveJumps_def run_branch_def split: evm_next.splits)
    qed (simp add: Some term_next_def resolveJumps_def run_branch_def)
  qed (simp add: term_next_def resolveJumps_def run_branch_def run_target_def)
qed

section \<open>Runs of the interpreter, block by block\<close>

lemma evm_step_Fall: "evm_step e code pc S s = Done (Fall, S', s') \<Longrightarrow> \<not> makes_dead (instr_at code pc)"
  by (auto simp: evm_step_def evm_instr_def makes_dead_def obind_eq_Done_iff evm_exec_def evm_effect_def jump_to_def
      split: option.splits if_splits list.splits)

text \<open>A run that gets to the end of a block leaves it through an instruction that lets control go on.\<close>

lemma evm_block_Fall:
  assumes bb: "block_ok code bb"
  shows "evm_block e code (m_end bb) pc S s = Done (Fall, S', s') \<Longrightarrow> m_begin bb \<le> pc \<Longrightarrow> pc < m_end bb \<Longrightarrow>
    pc \<in> positions code \<Longrightarrow>
    \<exists>p \<in> positions code. m_begin bb \<le> p \<and> next_pc code p = m_end bb \<and> \<not> makes_dead (instr_at code p)"
proof (induction "m_end bb - pc" arbitrary: pc S s rule: less_induct)
  case less
  note lt = next_pc_bounds(1) [of pc code] and bn = block_next [OF bb less.prems(4,2,3)]
  obtain S1 s1 where step: "evm_step e code pc S s = Done (Fall, S1, s1)"
    and rest: "evm_block e code (m_end bb) (next_pc code pc) S1 s1 = Done (Fall, S', s')"
    using less.prems(1,3) by (subst (asm) evm_block.simps) (auto simp: obind_eq_Done_iff split: if_splits)
  show ?case
  proof (cases "next_pc code pc < m_end bb")
    case True
    have "next_pc code pc \<in> positions code" using bn(2) True bb by (auto simp: on_boundary_def block_ok_def)
    then show ?thesis using less.hyps [OF _ rest _ True] less.prems(2,3) lt by auto
  next
    case False
    then have "next_pc code pc = m_end bb" using bn(1) by simp
    then show ?thesis using less.prems evm_step_Fall [OF step] by blast
  qed
qed

lemma evm_block_keeps:
  assumes e: "env_ok e"
  shows "evm_block e code stop pc S s = Done (nxt, S', s') \<Longrightarrow> rt_ok s \<Longrightarrow> rt_ok s'"
proof (induction "stop - pc" arbitrary: pc S s rule: less_induct)
  case less
  show ?case
  proof (cases "pc < stop")
    case True
    then obtain nxt1 S1 s1 where step: "evm_step e code pc S s = Done (nxt1, S1, s1)"
      and rest: "(if nxt1 = Fall then evm_block e code stop (next_pc code pc) S1 s1 else Done (nxt1, S1, s1)) = Done (nxt, S', s')"
      using less.prems(1) by (subst (asm) evm_block.simps) (auto simp: obind_eq_Done_iff)
    note s1 = evm_step_Done(1) [OF e less.prems(2) step]
    show ?thesis
      using rest less.hyps [of "next_pc code pc" S1 s1] s1 True next_pc_bounds(1) [of pc code] by (auto split: if_splits)
  qed (use less.prems in simp)
qed

definition block_then ::
    "nat \<Rightarrow> 'h env \<Rightarrow> byte list \<Rightarrow> nat \<Rightarrow> 'h evm_result \<Rightarrow> (return_code \<times> 'h rt_state) outcome \<Rightarrow> bool" where
  "block_then fuel e code stop b r \<longleftrightarrow>
     (case b of
        Done (Fall, S, s) \<Rightarrow> \<exists>f < fuel. evm_run f e code stop S s = Some r
      | Done (Goto d, S, s) \<Rightarrow> \<exists>f < fuel. evm_run f e code d S s = Some r
      | Done (Halt rc, S, s) \<Rightarrow> r = Done (rc, s)
      | LongJmp \<Rightarrow> r = LongJmp
      | Undefined \<Rightarrow> r = Undefined)"

lemma ex_less_Suc: "(\<exists>k < n. P k) \<Longrightarrow> (\<exists>k < Suc n. P k)"
  by (blast intro: less_SucI)

lemma block_then_Suc:
  assumes "block_then fuel e code stop b r"
  shows "block_then (Suc fuel) e code stop b r"
proof (cases b)
  case (Done x)
  obtain nxt S s where "x = (nxt, S, s)" by (cases x)
  then show ?thesis using assms by (cases nxt) (simp_all add: Done block_then_def ex_less_Suc)
qed (use assms in \<open>simp_all add: block_then_def\<close>)

lemma evm_run_block:
  assumes bb: "block_ok code bb"
  shows "evm_run fuel e code pc S s = Some r \<Longrightarrow> m_begin bb \<le> pc \<Longrightarrow> pc < m_end bb \<Longrightarrow> pc \<in> positions code \<Longrightarrow>
    block_then fuel e code (m_end bb) (evm_block e code (m_end bb) pc S s) r"
proof (induction fuel arbitrary: pc S s)
  case (Suc fuel)
  note lt = next_pc_bounds(1) [of pc code] and bn = block_next [OF bb Suc.prems(4,2,3)]
  have block: "evm_block e code (m_end bb) pc S s =
      obind (evm_step e code pc S s) (\<lambda>(nxt, S1, s1).
        if nxt = Fall then evm_block e code (m_end bb) (next_pc code pc) S1 s1 else Done (nxt, S1, s1))"
    using Suc.prems(3) by (subst evm_block.simps) simp
  show ?case
  proof (cases "evm_step e code pc S s")
    case (Done x)
    obtain nxt S1 s1 where x: "x = (nxt, S1, s1)" by (cases x)
    note step = Done [unfolded x]
    show ?thesis
    proof (cases nxt)
      case Fall
      have run: "evm_run fuel e code (next_pc code pc) S1 s1 = Some r"
        using Suc.prems(1) bn(3) step Fall by simp
      show ?thesis
      proof (cases "next_pc code pc < m_end bb")
        case True
        have "next_pc code pc \<in> positions code" using bn(2) True bb by (auto simp: on_boundary_def block_ok_def)
        then have "block_then fuel e code (m_end bb) (evm_block e code (m_end bb) (next_pc code pc) S1 s1) r"
          using Suc.IH [OF run _ True] Suc.prems(2) lt by simp
        then show ?thesis by (simp add: block step Fall block_then_Suc)
      next
        case False
        then have "next_pc code pc = m_end bb" using bn(1) by simp
        then show ?thesis using run by (auto simp: block step Fall block_then_def)
      qed
    qed (use Suc.prems(1) bn(3) step in \<open>auto simp: block block_then_def\<close>)
  qed (use Suc.prems(1) bn(3) in \<open>auto simp: block block_then_def\<close>)
qed simp

section \<open>The main function\<close>

lemma compile_fields:
  "mf_jumpTable (compile cfg code) = jump_table (code_blocks cfg code)"
  "length (mf_blocks (compile cfg code)) = length (createBasicBlocks code)"
  "i < length (createBasicBlocks code) \<Longrightarrow> mf_blocks (compile cfg code) ! i =
     (compileBasicBlock cfg code (createBasicBlocks code ! i),
      resolveJumps (jump_table (code_blocks cfg code)) i (cb_term (compileBasicBlock cfg code (createBasicBlocks code ! i))))"
  by (simp_all add: compile_def code_blocks_def Let_def case_prod_beta nth_enumerate_eq)

lemma run_main_more_fuel:
  "run_main fuel e mf i st s = Some r \<Longrightarrow> fuel \<le> fuel' \<Longrightarrow> run_main fuel' e mf i st s = Some r"
proof (induction fuel arbitrary: fuel' i st s)
  case (Suc fuel)
  then obtain f where f: "fuel' = Suc f" "fuel \<le> f" by (cases fuel') auto
  with Suc show ?case by (auto split: if_splits outcome.splits sum.splits prod.splits)
qed simp

text \<open>The compiled code answers every run of the interpreter that has a meaning, with no more fuel.\<close>

lemma run_main_sim:
  assumes e: "env_ok e" and cfg: "config_ok e code cfg" and len: "length code < 2 ^ 48"
  shows "evm_run fuel e code pc S s = Some r \<Longrightarrow> r \<noteq> Undefined \<Longrightarrow> at_block code i pc \<Longrightarrow> holds_stack base S \<Longrightarrow>
    rt_ok s \<Longrightarrow> run_main fuel e (compile cfg code) i (base, of_nat (length S)) s = Some r"
proof (induction fuel arbitrary: pc S s i base rule: less_induct)
  case (less fuel)
  let ?mf = "compile cfg code" and ?t = "jump_table (code_blocks cfg code)"
  obtain f where fuel: "fuel = Suc f" using less.prems(1) by (cases fuel) auto
  from less.prems(3) show ?case
  proof (cases rule: at_block_cases)
    case stop
    then show ?thesis using less.prems(1) by (simp add: fuel compile_fields(2))
  next
    case (block bb)
    have pos: "pc \<in> positions code" and lt: "pc < m_end bb"
      using block(3,4) by (auto simp: block_ok_def on_boundary_def)
    have le: "m_begin bb \<le> pc" by (simp add: block(3))
    let ?cb = "compileBasicBlock cfg code bb"
    let ?br = "resolveJumps ?t i (cb_term ?cb)"
    note then_run = evm_run_block [OF block(4) less.prems(1) le lt pos]
    have ans: "block_answers code ?t ?cb ?br (evm_block e code (m_end bb) pc S s) (run_block e ?t (?cb, ?br) (base, of_nat (length S)) s)"
      using compiled_block_sim [OF e cfg block(4) len less.prems(4,5)] block(3) by simp
    have main: "run_main fuel e ?mf i (base, of_nat (length S)) s =
        (case run_block e ?t (?cb, ?br) (base, of_nat (length S)) s of
           Done (Inl j, st1, s1) \<Rightarrow> run_main f e ?mf j st1 s1
         | Done (Inr rc, st1, s1) \<Rightarrow> Some (Done (rc, s1))
         | LongJmp \<Rightarrow> Some LongJmp
         | Undefined \<Rightarrow> Some Undefined)"
      using block(1,2) by (simp add: fuel compile_fields)
    show ?thesis
    proof (cases "evm_block e code (m_end bb) pc S s")
      case (Done x)
      obtain nxt S1 s1 where x: "x = (nxt, S1, s1)" by (cases x) auto
      note b = Done [unfolded x]
      obtain ev base1 where ev: "\<And>w. ev (Const w) = w" "term_next code ev (cb_term ?cb) = nxt" and h1: "holds_stack base1 S1"
        and rb: "run_block e ?t (?cb, ?br) (base, of_nat (length S)) s = Done (run_branch ?t ev ?br, (base1, of_nat (length S1)), s1)"
        using ans by (auto simp: b block_answers_def)
      note br = branch_next [OF len ev(1), where trm = "cb_term ?cb" and cfg = cfg and i = i, unfolded ev(2)]
      have ok1: "rt_ok s1" by (rule evm_block_keeps [OF e b less.prems(5)])
      have rest: ?thesis if br': "run_branch ?t ev ?br = Inl j" and at: "at_block code j pc'"
        and f': "f' < fuel" "evm_run f' e code pc' S1 s1 = Some r" for j pc' f'
      proof -
        have "run_main f' e ?mf j (base1, of_nat (length S1)) s1 = Some r"
          by (rule less.IH [OF f' less.prems(2) at h1 ok1])
        then have "run_main f e ?mf j (base1, of_nat (length S1)) s1 = Some r"
          by (rule run_main_more_fuel) (use f'(1) in \<open>simp add: fuel\<close>)
        then show ?thesis by (simp add: main rb br')
      qed
      show ?thesis
      proof (cases nxt)
        case Fall
        obtain p where p: "p \<in> positions code" "m_begin bb \<le> p" "next_pc code p = m_end bb" "\<not> makes_dead (instr_at code p)"
          using evm_block_Fall [OF block(4) b [unfolded Fall] le lt pos] by blast
        have at: "at_block code (i + 1) (m_end bb)" by (rule at_block_next [OF block(1,2) p])
        obtain f' where f': "f' < fuel" "evm_run f' e code (m_end bb) S1 s1 = Some r"
          using then_run by (auto simp: b Fall block_then_def)
        show ?thesis by (rule rest [OF _ at f']) (use br in \<open>simp add: Fall\<close>)
      next
        case (Goto d)
        obtain j where j: "run_branch ?t ev ?br = Inl j" "at_block code j d" using br by (auto simp: Goto)
        obtain f' where f': "f' < fuel" "evm_run f' e code d S1 s1 = Some r"
          using then_run by (auto simp: b Goto block_then_def)
        show ?thesis by (rule rest [OF j f'])
      next
        case (Halt rc)
        then show ?thesis using br then_run by (simp add: main rb b block_then_def)
      qed
    next
      case LongJmp
      then show ?thesis using ans then_run by (simp add: main block_answers_def block_then_def)
    next
      case Undefined
      then show ?thesis using then_run less.prems(2) by (simp add: block_then_def)
    qed
  qed
qed

theorem compiled_code_sim:
  assumes "env_ok e" "config_ok e code cfg" "length code < 2 ^ 48" "length base = stackSizeLimit" "rt_ok s"
    and "evm_run fuel e code 0 [] s = Some r" "r \<noteq> Undefined"
  shows "run_main fuel e (compile cfg code) 0 (base, 0) s = Some r"
proof -
  have "holds_stack base []" using assms(4) by (simp add: holds_stack_def)
  then show ?thesis
    using run_main_sim [OF assms(1-3,6,7) at_block_0 _ assms(5)] by simp
qed

section \<open>The registers of a block\<close>

fun ssa_code :: "nat \<Rightarrow> op emitted list \<Rightarrow> nat option" where
  "ssa_code k [] = Some k"
| "ssa_code k (GasCheck cost # xs) = (if cost = None then None else ssa_code k xs)"
| "ssa_code k (Emit a # xs) =
     (if (\<forall>v \<in> set (reads a). below k v) \<and> (writes a = None \<or> writes a = Some k)
      then ssa_code (if writes a = None then k else k + 1) xs else None)"

lemma ssa_layout: "ssa_code k (layout m_rev opened as) = ssa_acts k as"
  by (induction m_rev opened as arbitrary: k rule: layout.induct) (simp_all add: check_of_def)

lemma finalize_loop_vals:
  "(i, v) \<in> set (finalize_loop g sz m its loc) \<Longrightarrow> Some v \<in> set its \<or> v \<in> set loc"
proof (induction g sz m its loc rule: finalize_loop.induct)
  case (1 g sz m its loc)
  have lt: "g < sz" using "1.prems" by (subst (asm) finalize_loop.simps) (simp split: if_split_asm)
  show ?case
  proof (cases "g < - m")
    case True
    show ?thesis
    proof (cases its)
      case Nil
      then show ?thesis using "1.prems" lt True by (subst (asm) finalize_loop.simps) simp
    next
      case (Cons it its')
      show ?thesis
      proof (cases it)
        case None
        then have "(i, v) \<in> set (finalize_loop (g + 1) sz m its' loc)"
          using "1.prems" lt True Cons by (subst (asm) finalize_loop.simps) simp
        then show ?thesis using "1.IH"(1) [OF lt True Cons None] Cons by auto
      next
        case (Some w)
        then have "v = w \<or> (i, v) \<in> set (finalize_loop (g + 1) sz m its' loc)"
          using "1.prems" lt True Cons by (subst (asm) finalize_loop.simps) auto
        then show ?thesis using "1.IH"(2) [OF lt True Cons Some] Cons Some by auto
      qed
    qed
  next
    case False
    show ?thesis
    proof (cases loc)
      case Nil
      then show ?thesis using "1.prems" lt False by (subst (asm) finalize_loop.simps) simp
    next
      case (Cons w loc')
      then have "v = w \<or> (i, v) \<in> set (finalize_loop (g + 1) sz m its loc')"
        using "1.prems" lt False by (subst (asm) finalize_loop.simps) auto
      then show ?thesis using "1.IH"(3) [OF lt False Cons] Cons by auto
    qed
  qed
qed

lemma finalize_vals: "vals_all P ls \<Longrightarrow> (i, v) \<in> set (finalize ls) \<Longrightarrow> P v"
  unfolding finalize_def vals_all_def by (drule finalize_loop_vals) auto

lemma compiled_block_ssa:
  assumes e: "env_ok e" and cfg: "config_ok e code cfg" and bb: "block_ok code bb"
  shows "\<exists>n. ssa_code 0 (cb_code (compileBasicBlock cfg code bb)) = Some n \<and>
    (\<forall>(i, v) \<in> set (cb_stores (compileBasicBlock cfg code bb)). below n v) \<and>
    (\<forall>v \<in> term_vals (cb_term (compileBasicBlock cfg code bb)). below n v)"
proof -
  define cs where "cs = compile_loop cfg code bb (m_begin bb) new_comp_state"
  note fields = compileBasicBlock_fields [of cfg code bb, folded cs_def]
  have b: "m_begin bb \<le> m_end bb" "on_boundary code (m_begin bb)" using bb by (auto simp: block_ok_def)
  obtain as where comp: "loop_comp (e_rev e) (m_end bb - m_begin bb) new_comp_state cs as"
    using compile_loop_sim [OF e cfg bb order_refl b cs_ok_new] by (auto simp: cs_def new_comp_state_def)
  have "ssa_acts 0 (cs_acts cs) = Some (cs_next cs)" "vals_all (below (cs_next cs)) (cs_stack cs)"
    "\<forall>v \<in> term_vals (cs_term cs). below (cs_next cs) v"
    using comp by (simp_all add: loop_comp_def new_comp_state_def cs_ok_def)
  then show ?thesis unfolding fields by (auto simp: ssa_layout dest: finalize_vals)
qed

section \<open>What a run keeps\<close>

lemma evm_run_keeps:
  assumes e: "env_ok e"
  shows "rt_ok s \<Longrightarrow> evm_run fuel e code pc S s = Some (Done (rc, s')) \<Longrightarrow> rt_ok s' \<and> rt_budget s' \<le> rt_budget s"
proof (induction fuel arbitrary: pc S s)
  case (Suc fuel)
  show ?case
  proof (cases "pc < length code")
    case True
    then obtain nxt S1 s1 where step: "evm_step e code pc S s = Done (nxt, S1, s1)"
      using Suc.prems(2) by (cases "evm_step e code pc S s") auto
    have s1: "rt_ok s1" "rt_budget s1 \<le> rt_budget s"
      using evm_step_Done [OF e Suc.prems(1) step] by simp_all
    show ?thesis
    proof (cases nxt)
      case Fall
      then show ?thesis using Suc.IH [OF s1(1)] Suc.prems(2) True s1(2) by (simp add: step) (meson order_trans)
    next
      case (Goto d)
      then show ?thesis using Suc.IH [OF s1(1)] Suc.prems(2) True s1(2) by (simp add: step) (meson order_trans)
    next
      case (Halt r)
      then show ?thesis using Suc.prems(2) True s1 by (simp add: step)
    qed
  qed (use Suc.prems in simp)
qed simp

section \<open>A program for the witnesses\<close>

text \<open>\<^verbatim>\<open>PUSH1 4; JUMP; STOP; JUMPDEST; PUSH1 7\<close>: two live blocks.\<close>

definition sample_code :: "byte list" where
  "sample_code = [0x60, 4, 0x56, 0x00, 0x5b, 0x60, 7]"

definition sample_config :: config where
  "sample_config = \<lparr> c_rev = EVMC_BYZANTIUM, c_static = False, c_codeSize = 7, c_fold = (\<lambda>_ _. None) \<rparr>"

abbreviation sample_frame :: "nat env" where
  "sample_frame \<equiv> sample_env False 0 sample_code"

lemma sample_instr:
  "instr_at sample_code 0 = Some (PUSH 1)" "instr_at sample_code 2 = Some JUMP" "instr_at sample_code 3 = Some STOP"
  "instr_at sample_code 4 = Some JUMPDEST" "instr_at sample_code 5 = Some (PUSH 1)"
  by (simp_all add: sample_code_def instr_at_def Instruction_of_eq_Some_iff valid_instruction_def)

lemma length_sample_code [simp]: "length sample_code = 7"
  by (simp add: sample_code_def)

lemma sample_skip:
  "skipPushDataAndGetNext sample_code 0 e = 1 + min 1 (e - 1)" "skipPushDataAndGetNext sample_code 2 e = 3"
  "skipPushDataAndGetNext sample_code 3 e = 4" "skipPushDataAndGetNext sample_code 4 e = 5"
  "skipPushDataAndGetNext sample_code 5 e = 6 + min 1 (e - 6)"
  by (simp_all add: sample_code_def skipPushDataAndGetNext_def is_push_def push_size_def)

lemma sample_next:
  "skipPushDataAndGetNext sample_code 0 7 = 2" "skipPushDataAndGetNext sample_code 2 7 = 3"
  "skipPushDataAndGetNext sample_code 3 7 = 4" "skipPushDataAndGetNext sample_code 4 7 = 5"
  "skipPushDataAndGetNext sample_code 5 7 = 7"
  by (simp_all add: sample_skip)

lemma sample_blocks:
  "createBasicBlocks sample_code =
     [\<lparr> m_firstInstrIdx = 0, m_begin = 0, m_end = 3 \<rparr>, \<lparr> m_firstInstrIdx = 4, m_begin = 4, m_end = 7 \<rparr>]"
  "positions sample_code = {0, 2, 3, 4, 5}"
  by (simp_all add: createBasicBlocks_def createBasicBlocks_loop.simps Let_def sample_next sample_instr makes_dead_def ends_block_def
      positions_def instr_positions.simps)

lemma sample_config_ok: "config_ok sample_frame sample_code sample_config"
  by (simp add: config_ok_def sample_config_def folder_ok_def)

lemma sample_frame_ok: "env_ok sample_frame"
  by (rule sample_env_ok) simp

lemma sample_block_ok: "block_ok sample_code \<lparr> m_firstInstrIdx = 4, m_begin = 4, m_end = 7 \<rparr>"
  using blocks_facts(1) [of sample_code] by (simp add: sample_blocks)

lemma sample_pushes:
  "push_bytes sample_code 7 (Suc 0) (Suc 0) = [4]" "push_bytes sample_code 7 (Suc 0) 6 = [7]"
  by (simp_all add: push_bytes_def sample_code_def)

lemma sample_jump: "jump_to sample_code 4 = Goto 4"
  by (simp add: jump_to_def valid_jumpdest_def sample_blocks sample_instr)

lemma sample_step_push:
  assumes "3 \<le> unat (rt_gas s)" "length S < stackSizeLimit"
  shows "evm_step e sample_code 0 S s = Done (Fall, 4 # S, s\<lparr> rt_gas := rt_gas s - 3 \<rparr>)"
    "evm_step e sample_code 5 S s = Done (Fall, 7 # S, s\<lparr> rt_gas := rt_gas s - 3 \<rparr>)"
  using assms
  by (simp_all add: evm_step_def evm_instr_def sample_instr pay_eq schedule enabled_def evm_exec_def on_stack_def
      evm_push_def sample_pushes)

lemma sample_step_jump:
  shows "1 \<le> unat (rt_gas s) \<Longrightarrow> evm_step e sample_code 4 S s = Done (Fall, S, s\<lparr> rt_gas := rt_gas s - 1 \<rparr>)"
    "8 \<le> unat (rt_gas s) \<Longrightarrow> evm_step e sample_code 2 (4 # S) s = Done (Goto 4, S, s\<lparr> rt_gas := rt_gas s - 8 \<rparr>)"
  by (simp_all add: evm_step_def evm_instr_def sample_instr pay_eq schedule enabled_def evm_exec_def sample_jump)

lemmas sample_steps = sample_step_push sample_step_jump

text \<open>The run, and a fresh frame for it.\<close>

abbreviation sample_state :: "nat rt_state" where
  "sample_state \<equiv> init_runtime sample_frame 0"

lemma sample_gas: "rt_gas sample_state = 100000"
  by (simp add: init_runtime_def sample_env_def)

lemma sample_run_any:
  assumes "rt_gas s = 100000"
  shows "evm_run (Suc (Suc (Suc (Suc (Suc 0))))) e sample_code 0 [] s = Some (Done (Stop, s\<lparr> rt_gas := 99985 \<rparr>))"
  by (simp add: assms sample_steps next_pc_def sample_next stackSizeLimit_def)

lemma sample_run:
  "evm_run (enough_fuel sample_code 0 sample_state) sample_frame sample_code 0 [] sample_state =
     Some (Done (Stop, sample_state\<lparr> rt_gas := 99985 \<rparr>))"
  by (rule evm_run_more_fuel [OF sample_run_any [OF sample_gas]]) (simp add: enough_fuel_def)

lemma sample_not_risky: "\<forall>p \<in> positions sample_code. \<not> risky (instr_at sample_code p)"
  by (simp add: sample_blocks sample_instr risky_def)

lemma sample_base: "length (replicate 1024 (0 :: word256)) = stackSizeLimit"
  by (simp add: stackSizeLimit_def)

lemma sample_short: "length sample_code < 2 ^ 48"
  by simp

lemma sample_lowered: "e_division sample_frame = lowered_division"
  by (simp add: sample_env_def)

lemmas sample_facts = sample_frame_ok sample_config_ok sample_short sample_base sample_init_ok [of False 0 sample_code 0]

section \<open>Properties\<close>

text \<open>
  C7. A compiled block is the interpreter on the same range of bytecode.  On a run-time stack that
  holds the words \<open>G\<close>, and whatever the state, entering the block's code has the outcome of executing
  its instructions one at a time, each paying for itself and checking its own stack use: the same
  state, the stack of the interpreter in the memory of the run-time stack with its length, and a
  branch on the values the interpreter branches on; or it leaves through the jump buffer when the
  interpreter runs out of gas or breaks a stack limit anywhere in the block.
\<close>

theorem block_is_interpreted_code:
  assumes "env_ok e" "config_ok e code cfg" "block_ok code bb" "length code < 2 ^ 48"
    and "holds_stack base G" "rt_ok s"
  shows "block_answers code table (compileBasicBlock cfg code bb) br
    (evm_block e code (m_end bb) (m_begin bb) G s)
    (run_block e table (compileBasicBlock cfg code bb, br) (base, of_nat (length G)) s)"
  using assms by (rule compiled_block_sim)

theorem block_is_interpreted_code_witness:
  "\<exists>base. run_block sample_frame []
       (compileBasicBlock sample_config sample_code \<lparr> m_firstInstrIdx = 4, m_begin = 4, m_end = 7 \<rparr>, ExitBB Stop)
       (replicate 1024 0, 0) (init_runtime sample_frame 0) =
     Done (Inr Stop, (base, 1), (init_runtime sample_frame 0)\<lparr> rt_gas := 99996 \<rparr>) \<and> take 1 base = [7]"
proof -
  let ?s = "init_runtime sample_frame 0"
  have gas: "rt_gas ?s = 100000" by (simp add: init_runtime_def sample_env_def)
  have "evm_block sample_frame sample_code 7 4 [] ?s = Done (Fall, [7], ?s\<lparr> rt_gas := 99996 \<rparr>)"
    by (simp add: evm_block.simps sample_steps gas next_pc_def sample_skip stackSizeLimit_def)
  moreover have "holds_stack (replicate 1024 0) []" by (simp add: holds_stack_def stackSizeLimit_def)
  ultimately show ?thesis
    using block_is_interpreted_code [OF sample_frame_ok sample_config_ok sample_block_ok _ _ sample_init_ok [of False 0 sample_code 0],
        where base = "replicate 1024 0" and G = "[]" and table = "[]" and br = "ExitBB Stop"]
    by (auto simp: block_answers_def holds_stack_def run_branch_def)
qed

text \<open>
  C4. The compiled program runs the bytecode.  With fuel for the gas it has, the interpreter returns;
  and whatever it returns (a state and a return code, or the jump out of the frame), unless LLVM gives
  the run no meaning, the main function that the compiler builds from the blocks and the jump table
  returns the same with the same fuel, started on an empty run-time stack.
\<close>

theorem compiled_code_is_interpreted_code:
  assumes "env_ok e" "config_ok e code cfg" "length code < 2 ^ 48" "length base = stackSizeLimit" "rt_ok s"
    and "enough_fuel code 0 s \<le> fuel"
  shows "\<exists>r. evm_run fuel e code 0 [] s = Some r \<and>
    (r \<noteq> Undefined \<longrightarrow> run_main fuel e (compile cfg code) 0 (base, 0) s = Some r)"
  using evm_run_returns [OF assms(1,5,6), of "[]"] compiled_code_sim [OF assms(1-5)] by auto

theorem compiled_code_is_interpreted_code_witness:
  "run_main (enough_fuel sample_code 0 sample_state) sample_frame (compile sample_config sample_code) 0 (replicate 1024 0, 0)
     sample_state = Some (Done (Stop, sample_state\<lparr> rt_gas := 99985 \<rparr>))"
  using compiled_code_is_interpreted_code [OF sample_facts order_refl] sample_run by simp





text \<open>
  C10. The code of a block is in SSA form: every operation, stack store and branch reads constants,
  slots of the run-time stack and registers that an earlier operation has written, registers are
  written once, in order, and every gas check has its cost filled in.
\<close>

theorem block_code_is_ssa:
  assumes "env_ok e" "config_ok e code cfg" "block_ok code bb"
  shows "\<exists>n. ssa_code 0 (cb_code (compileBasicBlock cfg code bb)) = Some n \<and>
    (\<forall>(i, v) \<in> set (cb_stores (compileBasicBlock cfg code bb)). below n v) \<and>
    (\<forall>v \<in> term_vals (cb_term (compileBasicBlock cfg code bb)). below n v)"
  using assms by (rule compiled_block_ssa)

theorem block_code_is_ssa_witness:
  "\<exists>n. ssa_code 0 (cb_code (compileBasicBlock sample_config sample_code \<lparr> m_firstInstrIdx = 4, m_begin = 4, m_end = 7 \<rparr>)) = Some n"
  using block_code_is_ssa [OF sample_frame_ok sample_config_ok sample_block_ok] by blast

end
