(* ===== verification/Passes.thy ===== *)
theory Passes
  imports Correctness
begin

text \<open>
  The two passes of \<^verbatim>\<open>libevmjit/Optimizer.cpp\<close>, on the part of the IR they look at, and the effect of
  the second one on a whole program: \<^verbatim>\<open>LongJmpEliminationPass\<close> turns the blocks of the main function
  that leave it through the jump buffer into branches to its exit, and \<^verbatim>\<open>LowerEVMPass\<close> replaces the
  divisions that no target has by calls of the functions of \<open>Arith256\<close>.
\<close>

section \<open>LowerEVMPass\<close>

datatype ir_opcode = UDiv | URem | SDiv | SRem | OtherBinary

datatype arith_func = UDiv256Func | URem256Func | SDiv256Func | SRem256Func | URem512Func

text \<open>Instructions: a binary operation at an integer type of \<open>n\<close> bits, a call of one of the functions,
  and whatever else there is; operands are values of type \<open>'v\<close>.\<close>

datatype ('v, 'x) ir_inst = Binary ir_opcode nat 'v 'v | CallArith arith_func 'v 'v | OtherInst 'x

definition lower_func :: "ir_opcode \<Rightarrow> nat \<Rightarrow> arith_func option" where
  "lower_func opc bits =
     (if bits = 256 then
        (case opc of UDiv \<Rightarrow> Some UDiv256Func | URem \<Rightarrow> Some URem256Func | SDiv \<Rightarrow> Some SDiv256Func
         | SRem \<Rightarrow> Some SRem256Func | _ \<Rightarrow> None)
      else if bits = 512 then (case opc of URem \<Rightarrow> Some URem512Func | _ \<Rightarrow> None)
      else None)"

definition lower_inst :: "('v, 'x) ir_inst \<Rightarrow> ('v, 'x) ir_inst option" where
  "lower_inst inst =
     (case inst of Binary opc bits x y \<Rightarrow> map_option (\<lambda>f. CallArith f x y) (lower_func opc bits) | _ \<Rightarrow> None)"

text \<open>\<^verbatim>\<open>runOnBasicBlock\<close>: whether it modified the block, and the block.\<close>

fun lower_runOnBasicBlock :: "('v, 'x) ir_inst list \<Rightarrow> bool \<times> ('v, 'x) ir_inst list" where
  "lower_runOnBasicBlock [] = (False, [])"
| "lower_runOnBasicBlock (inst # bb) =
     (let (modified, bb') = lower_runOnBasicBlock bb
      in case lower_inst inst of
           Some inst' \<Rightarrow> (True, inst' # bb')
         | None \<Rightarrow> (modified, inst # bb'))"

text \<open>What the instructions compute, on values of up to 512 bits; \<open>rest\<close> is the meaning of the others.\<close>

definition llvm_binary :: "ir_opcode \<Rightarrow> nat \<Rightarrow> word512 \<Rightarrow> word512 \<Rightarrow> word512 option" where
  "llvm_binary opc bits x y =
     (if bits = 256 then map_option ucast
        ((case opc of UDiv \<Rightarrow> udiv256 llvm_division | URem \<Rightarrow> urem256 llvm_division | SDiv \<Rightarrow> sdiv256 llvm_division
          | SRem \<Rightarrow> srem256 llvm_division | OtherBinary \<Rightarrow> (\<lambda>_ _. None)) (ucast x) (ucast y))
      else if bits = 512 \<and> opc = URem then urem512 llvm_division x y
      else None)"

definition call_arith :: "arith_func \<Rightarrow> word512 \<Rightarrow> word512 \<Rightarrow> word512 option" where
  "call_arith f x y =
     (case f of
        UDiv256Func \<Rightarrow> map_option ucast (getUDiv256Func (ucast x) (ucast y))
      | URem256Func \<Rightarrow> map_option ucast (getURem256Func (ucast x) (ucast y))
      | SDiv256Func \<Rightarrow> map_option ucast (getSDiv256Func (ucast x) (ucast y))
      | SRem256Func \<Rightarrow> map_option ucast (getSRem256Func (ucast x) (ucast y))
      | URem512Func \<Rightarrow> getURem512Func x y)"

lemma lower_func_sound:
  assumes "lower_func opc bits = Some f" "llvm_binary opc bits x y = Some w"
  shows "call_arith f x y = Some w"
  using assms
  by (auto simp: lower_func_def llvm_binary_def call_arith_def llvm_division_def getUDiv256Func_correct getURem256Func_def
      getURem512Func_def createURemFunc_correct getSDiv256Func_def getSRem256Func_def getSDivRem256Func_correct
      split: if_splits ir_opcode.splits)

text \<open>A block is a straight line of instructions, each defining the next value.\<close>

definition ir_step ::
    "('x \<Rightarrow> word512 list \<Rightarrow> word512 option) \<Rightarrow> (nat, 'x) ir_inst \<Rightarrow> word512 list \<Rightarrow> word512 option" where
  "ir_step rest inst vs =
     (case inst of
        Binary opc bits x y \<Rightarrow> llvm_binary opc bits (vs ! x) (vs ! y)
      | CallArith f x y \<Rightarrow> call_arith f (vs ! x) (vs ! y)
      | OtherInst i \<Rightarrow> rest i vs)"

fun ir_exec ::
    "('x \<Rightarrow> word512 list \<Rightarrow> word512 option) \<Rightarrow> (nat, 'x) ir_inst list \<Rightarrow> word512 list \<Rightarrow> word512 list option" where
  "ir_exec rest [] vs = Some vs"
| "ir_exec rest (inst # bb) vs = Option.bind (ir_step rest inst vs) (\<lambda>w. ir_exec rest bb (vs @ [w]))"

lemma lower_inst_sound: "lower_inst inst = Some inst' \<Longrightarrow> ir_step rest inst vs = Some w \<Longrightarrow> ir_step rest inst' vs = Some w"
  by (cases inst) (auto simp: lower_inst_def ir_step_def lower_func_sound)

lemma lower_block_sound:
  "ir_exec rest bb vs = Some ws \<Longrightarrow> ir_exec rest (snd (lower_runOnBasicBlock bb)) vs = Some ws"
proof (induction bb arbitrary: vs)
  case (Cons inst bb)
  obtain w where w: "ir_step rest inst vs = Some w" "ir_exec rest bb (vs @ [w]) = Some ws"
    using Cons.prems by (auto simp: bind_eq_Some_conv)
  show ?case
    using w(1) Cons.IH [OF w(2)] lower_inst_sound [of inst _ rest vs w]
    by (cases "lower_inst inst") (auto simp: split_def Let_def)
qed simp

definition needs_lowering :: "('v, 'x) ir_inst \<Rightarrow> bool" where
  "needs_lowering inst \<longleftrightarrow> (\<exists>opc bits x y. inst = Binary opc bits x y \<and> lower_func opc bits \<noteq> None)"

lemma needs_lowering_iff: "needs_lowering inst \<longleftrightarrow> lower_inst inst \<noteq> None"
  by (cases inst) (auto simp: needs_lowering_def lower_inst_def)

lemma lower_inst_done: "lower_inst inst = Some inst' \<Longrightarrow> \<not> needs_lowering inst'"
  by (cases inst) (auto simp: lower_inst_def needs_lowering_def)

lemma lower_block_complete:
  "\<forall>inst \<in> set (snd (lower_runOnBasicBlock bb)). \<not> needs_lowering inst"
  "fst (lower_runOnBasicBlock bb) \<longleftrightarrow> (\<exists>inst \<in> set bb. needs_lowering inst)"
  by (induction bb) (auto simp: needs_lowering_iff split: option.splits prod.splits dest: lower_inst_done [unfolded needs_lowering_iff])

section \<open>A program after lowering\<close>

text \<open>The division is only used by the word operations.\<close>

abbreviation with_division :: "division \<Rightarrow> 'h env \<Rightarrow> 'h env" where
  "with_division B e \<equiv> e\<lparr> e_division := B \<rparr>"

lemma llvm_to_lowered:
  "code_DIV llvm_division a b = Some w \<Longrightarrow> code_DIV lowered_division a b = Some w"
  "code_MOD llvm_division a b = Some w \<Longrightarrow> code_MOD lowered_division a b = Some w"
  "code_SDIV llvm_division a b = Some w \<Longrightarrow> code_SDIV lowered_division a b = Some w"
  "code_SMOD llvm_division a b = Some w \<Longrightarrow> code_SMOD lowered_division a b = Some w"
  "code_ADDMOD llvm_division a b c = Some w \<Longrightarrow> code_ADDMOD lowered_division a b c = Some w"
  "code_MULMOD llvm_division a b c = Some w \<Longrightarrow> code_MULMOD lowered_division a b c = Some w"
proof -
  show "code_DIV llvm_division a b = Some w \<Longrightarrow> code_DIV lowered_division a b = Some w"
    "code_MOD llvm_division a b = Some w \<Longrightarrow> code_MOD lowered_division a b = Some w"
    by (simp_all add: llvm.code_DIV_eq llvm.code_MOD_eq lowered.code_DIV_eq lowered.code_MOD_eq)
  show "code_SDIV llvm_division a b = Some w \<Longrightarrow> code_SDIV lowered_division a b = Some w"
    "code_SMOD llvm_division a b = Some w \<Longrightarrow> code_SMOD lowered_division a b = Some w"
    using llvm.code_SDIV_eq [of a b] llvm.code_SMOD_eq [of a b] llvm_signed_overflow
    by (cases "a = min_word \<and> b = - 1"; simp add: lowered.code_SDIV_total lowered.code_SMOD_total)+
  have zero: "code_ADDMOD llvm_division a b 0 = None" "code_MULMOD llvm_division a b 0 = None"
    by (simp_all add: code_ADDMOD_def code_MULMOD_def Let_def llvm_division_def Option.bind_eq_None_conv)
  show "code_ADDMOD llvm_division a b c = Some w \<Longrightarrow> code_ADDMOD lowered_division a b c = Some w"
    "code_MULMOD llvm_division a b c = Some w \<Longrightarrow> code_MULMOD lowered_division a b c = Some w"
    using zero by (cases "c = 0"; simp add: llvm.code_ADDMOD_eq lowered.code_ADDMOD_eq llvm.code_MULMOD_eq lowered.code_MULMOD_eq)+
qed

lemma word_op_lowered:
  "word_op (with_division llvm_division e) inst a = Some w \<Longrightarrow> word_op (with_division lowered_division e) inst a = Some w"
  by (auto simp: word_op_def arith_op_def llvm_to_lowered split: if_splits instruction.splits)

lemma env_division:
  "e_machine (with_division B e) = e_machine e" "e_host (with_division B e) = e_host e" "e_sha3 (with_division B e) = e_sha3 e"
  "e_msg (with_division B e) = e_msg e" "e_data (with_division B e) = e_data e" "e_rev (with_division B e) = e_rev e"
  "e_static (with_division B e) = e_static e"
  by simp_all

lemma access_division:
  "addr_arg (with_division B e) = addr_arg e" "word_arg (with_division B e) = word_arg e"
  "word_result (with_division B e) = word_result e" "myAddr (with_division B e) = myAddr e"
  "getAddress (with_division B e) = getAddress e" "getSender (with_division B e) = getSender e"
  "getValue (with_division B e) = getValue e" "getDepth (with_division B e) = getDepth e"
  "getCallData (with_division B e) = getCallData e" "getCallDataSize (with_division B e) = getCallDataSize e"
  "getCodeSize (with_division B e) = getCodeSize e" "getTxContextItem (with_division B e) = getTxContextItem e"
  unfolding fun_eq_iff addr_arg_def word_arg_def word_result_def myAddr_def getAddress_def getSender_def getValue_def
      getDepth_def getCallData_def getCallDataSize_def getCodeSize_def getTxContextItem_def loadTxCtx_def env_division by simp_all

lemma ext_division:
  "ext_sload (with_division B e) = ext_sload e" "ext_sstore (with_division B e) = ext_sstore e"
  "ext_selfdestruct (with_division B e) = ext_selfdestruct e" "ext_balance (with_division B e) = ext_balance e"
  "ext_exists (with_division B e) = ext_exists e" "ext_blockHash (with_division B e) = ext_blockHash e"
  "ext_sha3 (with_division B e) = ext_sha3 e" "ext_extcode (with_division B e) = ext_extcode e"
  "ext_extcodesize (with_division B e) = ext_extcodesize e" "ext_calldataload (with_division B e) = ext_calldataload e"
  "ext_log (with_division B e) = ext_log e" "call_wrapper (with_division B e) = call_wrapper e"
  unfolding fun_eq_iff ext_sload_def ext_sstore_def ext_selfdestruct_def ext_balance_def ext_exists_def ext_blockHash_def
      ext_sha3_def ext_extcode_def ext_extcodesize_def ext_calldataload_def ext_log_def call_wrapper_def access_division env_division
  by simp_all

lemma ext_call_division:
  "ext_call (with_division B e) = ext_call e" "ext_create (with_division B e) = ext_create e"
  unfolding fun_eq_iff ext_call_def ext_create_def access_division ext_division env_division by simp_all

lemma opcode_division:
  "code_SHA3 (with_division B e) = code_SHA3 e" "code_MLOAD (with_division B e) = code_MLOAD e"
  "code_BLOCKHASH (with_division B e) = code_BLOCKHASH e" "env_value (with_division B e) = env_value e"
  "code_CREATE (with_division B e) = code_CREATE e" "code_CALL (with_division B e) = code_CALL e"
  "code_MSTORE (with_division B e) = code_MSTORE e" "code_MSTORE8 (with_division B e) = code_MSTORE8 e"
  "code_SSTORE (with_division B e) = code_SSTORE e" "code_CALLDATACOPY (with_division B e) = code_CALLDATACOPY e"
  "code_RETURNDATACOPY (with_division B e) = code_RETURNDATACOPY e" "code_CODECOPY (with_division B e) = code_CODECOPY e"
  "code_EXTCODECOPY (with_division B e) = code_EXTCODECOPY e" "code_RETURN (with_division B e) = code_RETURN e"
  "code_SUICIDE (with_division B e) = code_SUICIDE e" "code_LOG (with_division B e) = code_LOG e"
  unfolding fun_eq_iff code_SHA3_def code_MLOAD_def code_BLOCKHASH_def env_value_def code_CREATE_def code_CALL_def
      code_MSTORE_def code_MSTORE8_def code_SSTORE_def code_CALLDATACOPY_def code_RETURNDATACOPY_def code_CODECOPY_def
      code_EXTCODECOPY_def code_RETURN_def code_SUICIDE_def code_LOG_def suicide_penalty_def call_transfer_cost_def
      call_account_cost_def call_gas_def access_division ext_division ext_call_division
      env_division
  by simp_all

lemma exec_effect_division: "exec_effect (with_division B e) = exec_effect e"
  unfolding fun_eq_iff exec_effect_def opcode_division by simp

lemma exec_value_lowered:
  "refines (exec_value (with_division llvm_division e) inst args s) (exec_value (with_division lowered_division e) inst args s)"
proof (cases "inst \<in> set word_insts")
  case True
  then show ?thesis
    using word_op_lowered [of e inst "map ssa_value args"]
    by (cases "word_op (with_division llvm_division e) inst (map ssa_value args)") (simp_all add: exec_value_word refines_def)
next
  case False
  have "exec_value (with_division B e) inst args s = exec_value e inst args s" for B
    using False
    unfolding exec_value_def opcode_division ext_division
    by (cases inst) (simp_all add: word_insts_def arith_insts_def bit_insts_def word_op_def bit_op_def)
  then show ?thesis by (simp add: refines_def)
qed

lemma exec_op_lowered:
  "refines (exec_op (with_division llvm_division e) ev a st) (exec_op (with_division lowered_division e) ev a st)"
  by (cases st; cases a) (auto simp: exec_effect_division intro!: refines_bind_left exec_value_lowered)

lemma exec_code_lowered:
  "refines (exec_code (with_division llvm_division e) ev xs st) (exec_code (with_division lowered_division e) ev xs st)"
proof (induction xs arbitrary: st)
  case (Cons x xs)
  have "refines (exec_emitted (with_division llvm_division e) ev x st) (exec_emitted (with_division lowered_division e) ev x st)"
    by (cases st; cases x) (simp_all add: exec_op_lowered)
  then show ?case using Cons.IH by (simp add: refines_obind)
qed simp

lemma run_block_lowered:
  "refines (run_block (with_division llvm_division e) table b st s) (run_block (with_division lowered_division e) table b st s)"
  by (cases b; cases st) (auto simp: run_block_def Let_def intro!: refines_bind_right refines_bind_left exec_code_lowered split: prod.split)

lemma run_main_lowered:
  "run_main fuel (with_division llvm_division e) mf i st s = Some r \<Longrightarrow> r \<noteq> Undefined \<Longrightarrow>
   run_main fuel (with_division lowered_division e) mf i st s = Some r"
proof (induction fuel arbitrary: i st s)
  case (Suc fuel)
  let ?run = "\<lambda>B. run_block (with_division B e) (mf_jumpTable mf) (mf_blocks mf ! i) st s"
  show ?case
  proof (cases "i < length (mf_blocks mf)")
    case True
    then have "?run llvm_division \<noteq> Undefined" using Suc.prems by auto
    then have "?run lowered_division = ?run llvm_division"
      using run_block_lowered [of e "mf_jumpTable mf" "mf_blocks mf ! i" st s] by (auto simp: refines_def)
    then show ?thesis
      using Suc True by (auto split: outcome.splits prod.splits sum.splits)
  qed (use Suc.prems in simp)
qed simp

section \<open>LongJmpEliminationPass\<close>

text \<open>The main function at the end of its compilation: blocks by number, the last one being "Exit" with
  the phi node of the return code; \<open>fn_phi\<close> are its incoming values by block.\<close>

datatype main_inst = LongJmpCall | OtherMain nat

datatype block_end = Unreachable | BranchTo nat | OtherEnd nat

record ir_block =
  blk_insts :: "main_inst list"
  blk_end :: block_end

record ir_function =
  fn_blocks :: "ir_block list"
  fn_phi :: "(nat \<times> int) list"

definition abortCode :: int where
  "abortCode = - 1"

text \<open>The loop over the blocks: whether one was modified, the blocks and what is added to the phi node.\<close>

fun longjmp_loop :: "nat \<Rightarrow> nat \<Rightarrow> ir_block list \<Rightarrow> bool \<times> ir_block list \<times> (nat \<times> int) list" where
  "longjmp_loop exitBB bb [] = (False, [], [])"
| "longjmp_loop exitBB bb (b # bs) =
     (let (modified, bs', incoming) = longjmp_loop exitBB (bb + 1) bs
      in if blk_end b = Unreachable
         then (True, \<lparr> blk_insts = butlast (blk_insts b), blk_end = BranchTo exitBB \<rparr> # bs', (bb, abortCode) # incoming)
         else (modified, b # bs', incoming))"

definition longjmp_runOnFunction :: "bool \<Rightarrow> ir_function \<Rightarrow> bool \<times> ir_function" where
  "longjmp_runOnFunction isMainFunc f =
     (if \<not> isMainFunc then (False, f)
      else (let (modified, bs, incoming) = longjmp_loop (length (fn_blocks f) - 1) 0 (fn_blocks f)
            in (modified, \<lparr> fn_blocks = bs, fn_phi = fn_phi f @ incoming \<rparr>)))"

text \<open>The code the function returns when control leaves it from block \<open>bb\<close>: by the call of longjmp, which
  comes back at "Abort" and returns the code of an exception, or by the branch to "Exit".\<close>

definition return_of :: "ir_function \<Rightarrow> nat \<Rightarrow> int option" where
  "return_of f bb =
     (let b = fn_blocks f ! bb
      in case blk_end b of
           Unreachable \<Rightarrow> if blk_insts b \<noteq> [] \<and> last (blk_insts b) = LongJmpCall then Some (- 1) else None
         | BranchTo t \<Rightarrow> if t = length (fn_blocks f) - 1 then map_of (fn_phi f) bb else None
         | OtherEnd n \<Rightarrow> None)"

definition phi_ok :: "ir_function \<Rightarrow> bool" where
  "phi_ok f \<longleftrightarrow> (\<forall>bb < length (fn_blocks f). blk_end (fn_blocks f ! bb) = Unreachable \<longrightarrow> map_of (fn_phi f) bb = None)"

definition unreachable_end :: "ir_block \<Rightarrow> bool" where
  "unreachable_end b \<longleftrightarrow> blk_end b = Unreachable"

definition to_exit :: "nat \<Rightarrow> ir_block \<Rightarrow> ir_block" where
  "to_exit exitBB b = (if unreachable_end b then \<lparr> blk_insts = butlast (blk_insts b), blk_end = BranchTo exitBB \<rparr> else b)"

lemma longjmp_loop_eq:
  "longjmp_loop x k bs = ((\<exists>b \<in> set bs. unreachable_end b), map (to_exit x) bs,
     map (\<lambda>(i, b). (i, abortCode)) (filter (\<lambda>(i, b). unreachable_end b) (enumerate k bs)))"
  by (induction bs arbitrary: k) (auto simp: unreachable_end_def to_exit_def)

lemma map_of_incoming:
  "map_of (map (\<lambda>(i, b). (i, a)) (filter (\<lambda>(i, b). P b) (enumerate k bs))) j =
     (if k \<le> j \<and> j < k + length bs \<and> P (bs ! (j - k)) then Some a else None)"
proof (induction bs arbitrary: k)
  case (Cons b bs)
  have "bs ! (j - Suc k) = (b # bs) ! (j - k)" if "Suc k \<le> j" using that by (simp add: nth_Cons' )
  then show ?case using Cons.IH [of "Suc k"] by (cases "j = k") auto
qed simp

lemma longjmp_return_of:
  assumes ok: "phi_ok f" and bb: "bb < length (fn_blocks f)" and r: "return_of f bb = Some c"
  shows "return_of (snd (longjmp_runOnFunction True f)) bb = Some c"
proof -
  let ?inc = "map (\<lambda>(i, b). (i, abortCode)) (filter (\<lambda>(i, b). unreachable_end b) (enumerate 0 (fn_blocks f)))"
  have inc: "map_of ?inc bb = (if unreachable_end (fn_blocks f ! bb) then Some abortCode else None)"
    using bb by (simp add: map_of_incoming)
  have f': "snd (longjmp_runOnFunction True f) =
      \<lparr> fn_blocks = map (to_exit (length (fn_blocks f) - 1)) (fn_blocks f), fn_phi = fn_phi f @ ?inc \<rparr>"
    by (simp add: longjmp_runOnFunction_def longjmp_loop_eq)
  have phi: "map_of (fn_phi f @ ?inc) bb = (case map_of ?inc bb of None \<Rightarrow> map_of (fn_phi f) bb | Some c \<Rightarrow> Some c)"
    using ok bb inc by (auto simp: phi_ok_def unreachable_end_def map_add_def split: option.split)
  show ?thesis
  proof (cases "unreachable_end (fn_blocks f ! bb)")
    case True
    then have "c = - 1" using r by (auto simp: return_of_def Let_def unreachable_end_def split: if_splits)
    then show ?thesis using True bb phi inc by (simp add: f' return_of_def to_exit_def abortCode_def del: map_of_append)
  next
    case False
    then show ?thesis
      using r bb phi inc
      by (cases "blk_end (fn_blocks f ! bb)") (simp_all add: f' return_of_def to_exit_def unreachable_end_def Let_def split: if_splits del: map_of_append)
  qed
qed

lemma longjmp_no_unreachable:
  "\<forall>b \<in> set (fn_blocks (snd (longjmp_runOnFunction True f))). blk_end b \<noteq> Unreachable"
  by (auto simp: longjmp_runOnFunction_def longjmp_loop_eq to_exit_def unreachable_end_def)

section \<open>Properties\<close>

text \<open>
  C11. Lowering keeps what a program does: every run of the compiled main function that the IR gives a
  meaning to, with LLVM's own division instructions, has the same outcome after each division is a
  call of the emitted long division.
\<close>

theorem lowered_program_refines:
  assumes "run_main fuel (with_division llvm_division e) mf i st s = Some r" "r \<noteq> Undefined"
  shows "run_main fuel (with_division lowered_division e) mf i st s = Some r"
  using assms by (rule run_main_lowered)

theorem lowered_program_refines_witness:
  "run_main (Suc 0) (with_division lowered_division sample_frame) (compile sample_config []) 0 (replicate 1024 0, 0) sample_state =
     Some (Done (Stop, sample_state))"
  by (rule lowered_program_refines)
    (simp_all add: compile_def createBasicBlocks_def createBasicBlocks_loop.simps Let_def)





end
