(* ===== verification/Cache.thy ===== *)
theory Cache
  imports Passes
begin

text \<open>
  The object cache of \<^verbatim>\<open>libevmjit/Cache.cpp\<close>: compiled objects are files named by the code identifier;
  a global mutex guards the mode and the object found last, which travels from \<^verbatim>\<open>Cache::getObject\<close> to
  \<^verbatim>\<open>ObjectCache::getObject\<close> behind the back of the execution engine.  Objects are of a type \<open>'o\<close>; the
  file system is a parameter.
\<close>

section \<open>Parameters and state\<close>

datatype cache_mode = Mode_off | Mode_on | Mode_read | Mode_write | Mode_clear | Mode_preload

text \<open>
  The file system under the cache directory, as LLVM's support library gives it: the object in a file
  if it can be read, the attempt to create the directory, writing and removing a file, the entries of
  a directory.
\<close>

record ('fs, 'o) file_system =
  fs_read :: "'fs \<Rightarrow> string \<Rightarrow> 'o option"
  fs_mkdir :: "'fs \<Rightarrow> bool \<times> 'fs"
  fs_write :: "'fs \<Rightarrow> string \<Rightarrow> 'o \<Rightarrow> 'fs"
  fs_remove :: "'fs \<Rightarrow> string \<Rightarrow> 'fs"
  fs_entries :: "'fs \<Rightarrow> string list"

text \<open>What the cache relies on: a file that can be read holds what was written to it last, and creating
  the directory or removing a file adds none.\<close>

definition fs_ok :: "('fs, 'o) file_system \<Rightarrow> bool" where
  "fs_ok F \<longleftrightarrow>
     (\<forall>d name ob name' ob'. fs_read F (fs_write F d name ob) name' = Some ob' \<longrightarrow>
        (if name' = name then ob' = ob else fs_read F d name' = Some ob')) \<and>
     (\<forall>d b d' name ob. fs_mkdir F d = (b, d') \<longrightarrow> fs_read F d' name = Some ob \<longrightarrow> fs_read F d name = Some ob) \<and>
     (\<forall>d name name' ob. fs_read F (fs_remove F d name) name' = Some ob \<longrightarrow> fs_read F d name' = Some ob)"

record ('fs, 'o) cache =
  x_cacheMutex :: bool
  g_mode :: cache_mode
  g_lastObject :: "'o option"
  g_listener :: "nat option"
  cache_dir :: 'fs

text \<open>A module for the engine: a compiled one, or the fake one whose main function is unreachable and for
  which the engine is meant to load the object instead.\<close>

datatype 'm engine_module = CompiledModule 'm | FakeModule

section \<open>The mutex\<close>

text \<open>A function under \<^verbatim>\<open>std::lock_guard\<close>; a thread that locks a mutex it owns has undefined behaviour.\<close>

definition guarded ::
    "(('fs, 'o) cache \<Rightarrow> ('x \<times> ('fs, 'o) cache) outcome) \<Rightarrow> ('fs, 'o) cache \<Rightarrow> ('x \<times> ('fs, 'o) cache) outcome" where
  "guarded body c =
     (if x_cacheMutex c then Undefined
      else obind (body (c\<lparr> x_cacheMutex := True \<rparr>)) (\<lambda>(x, c1). Done (x, c1\<lparr> x_cacheMutex := False \<rparr>)))"

section \<open>The functions\<close>

definition cache_clear :: "('fs, 'o) file_system \<Rightarrow> ('fs, 'o) cache \<Rightarrow> (unit \<times> ('fs, 'o) cache) outcome" where
  "cache_clear F =
     guarded (\<lambda>c. Done ((), c\<lparr> cache_dir := fold (\<lambda>name d. fs_remove F d name) (fs_entries F (cache_dir c)) (cache_dir c) \<rparr>))"

text \<open>\<^verbatim>\<open>init\<close>: whether there is an object cache.\<close>

definition cache_init ::
    "('fs, 'o) file_system \<Rightarrow> cache_mode \<Rightarrow> nat option \<Rightarrow> ('fs, 'o) cache \<Rightarrow> (bool \<times> ('fs, 'o) cache) outcome" where
  "cache_init F mode listener =
     guarded (\<lambda>c0.
       (let c = c0\<lparr> g_mode := mode, g_listener := listener \<rparr>
        in obind (if g_mode c = Mode_clear
                  then obind (cache_clear F c) (\<lambda>(_, c1). Done (c1\<lparr> g_mode := Mode_off \<rparr>))
                  else Done c) (\<lambda>c2.
           Done (g_mode c2 \<noteq> Mode_off, c2))))"

definition cache_getObject ::
    "('fs, 'o) file_system \<Rightarrow> string \<Rightarrow> ('fs, 'o) cache \<Rightarrow> ('m engine_module option \<times> ('fs, 'o) cache) outcome" where
  "cache_getObject F ident =
     guarded (\<lambda>c.
       if g_mode c \<noteq> Mode_on \<and> g_mode c \<noteq> Mode_read then Done (None, c)
       else
         (let c1 = (if g_lastObject c \<noteq> None then c\<lparr> g_lastObject := None \<rparr> else c);
              c2 = (case fs_read F (cache_dir c1) ident of Some ob \<Rightarrow> c1\<lparr> g_lastObject := Some ob \<rparr> | None \<Rightarrow> c1)
          in if g_lastObject c2 \<noteq> None then Done (Some FakeModule, c2) else Done (None, c2)))"

definition notifyObjectCompiled ::
    "('fs, 'o) file_system \<Rightarrow> string \<Rightarrow> 'o \<Rightarrow> ('fs, 'o) cache \<Rightarrow> (unit \<times> ('fs, 'o) cache) outcome" where
  "notifyObjectCompiled F ident ob =
     guarded (\<lambda>c.
       if g_mode c \<noteq> Mode_on \<and> g_mode c \<noteq> Mode_write then Done ((), c)
       else
         (let (ok, d) = fs_mkdir F (cache_dir c);
              c1 = c\<lparr> cache_dir := d \<rparr>
          in if \<not> ok then Done ((), c1)
             else Done ((), c1\<lparr> cache_dir := fs_write F d ident ob \<rparr>)))"

text \<open>\<^verbatim>\<open>ObjectCache::getObject\<close>, which moves the object out.\<close>

definition objectCache_getObject :: "('fs, 'o) cache \<Rightarrow> ('o option \<times> ('fs, 'o) cache) outcome" where
  "objectCache_getObject = guarded (\<lambda>c. Done (g_lastObject c, c\<lparr> g_lastObject := None \<rparr>))"

text \<open>\<^verbatim>\<open>preload\<close>: its loop over the directory; \<open>addr\<close> is the address the engine gives a function.\<close>

fun preload_loop ::
    "('fs, 'o) file_system \<Rightarrow> (string \<Rightarrow> 'a) \<Rightarrow> string list \<Rightarrow> (string \<rightharpoonup> 'a) \<Rightarrow> ('fs, 'o) cache \<Rightarrow>
     ((string \<rightharpoonup> 'a) \<times> ('fs, 'o) cache) outcome" where
  "preload_loop F addr [] funcCache c = Done (funcCache, c)"
| "preload_loop F addr (name # names) funcCache c =
     obind (cache_getObject F name c) (\<lambda>(found :: unit engine_module option, c1).
       preload_loop F addr names (if found \<noteq> None then funcCache(name \<mapsto> addr name) else funcCache) c1)"

definition preload ::
    "('fs, 'o) file_system \<Rightarrow> (string \<Rightarrow> 'a) \<Rightarrow> (string \<rightharpoonup> 'a) \<Rightarrow> ('fs, 'o) cache \<Rightarrow> ((string \<rightharpoonup> 'a) \<times> ('fs, 'o) cache) outcome" where
  "preload F addr funcCache =
     guarded (\<lambda>c.
       (let listener = g_listener c;
            c1 = c\<lparr> g_listener := None \<rparr>
        in obind (preload_loop F addr (fs_entries F (cache_dir c1)) funcCache c1) (\<lambda>(fc, c2).
           Done (fc, c2\<lparr> g_listener := listener \<rparr>))))"

section \<open>What the functions do when no one holds the mutex\<close>

text \<open>Between calls the mutex is free, and no object is left behind between compilations.\<close>

definition cache_idle :: "('fs, 'o) cache \<Rightarrow> bool" where
  "cache_idle c \<longleftrightarrow> \<not> x_cacheMutex c \<and> g_lastObject c = None"

definition cache_sound :: "(string \<Rightarrow> 'o \<Rightarrow> bool) \<Rightarrow> ('fs, 'o) file_system \<Rightarrow> ('fs, 'o) cache \<Rightarrow> bool" where
  "cache_sound P F c \<longleftrightarrow> (\<forall>name ob. fs_read F (cache_dir c) name = Some ob \<longrightarrow> P name ob)"

lemma cache_sound_same: "cache_dir c' = cache_dir c \<Longrightarrow> cache_sound P F c' = cache_sound P F c"
  by (simp add: cache_sound_def)

lemma cache_free:
  "\<not> x_cacheMutex c \<Longrightarrow> guarded body c = obind (body (c\<lparr> x_cacheMutex := True \<rparr>)) (\<lambda>(x, c1). Done (x, c1\<lparr> x_cacheMutex := False \<rparr>))"
  by (simp add: guarded_def)

lemma cache_init_eq:
  assumes "\<not> x_cacheMutex c"
  shows "cache_init F mode listener c =
    (if mode = Mode_clear then Undefined
     else Done (mode \<noteq> Mode_off, c\<lparr> g_mode := mode, g_listener := listener, x_cacheMutex := False \<rparr>))"
  using assms by (simp add: cache_init_def cache_free cache_clear_def guarded_def Let_def)

lemma cache_getObject_eq:
  assumes "cache_idle c"
  shows "cache_getObject F ident c =
    (case (if g_mode c = Mode_on \<or> g_mode c = Mode_read then fs_read F (cache_dir c) ident else None) of
       Some ob \<Rightarrow> Done (Some FakeModule, c\<lparr> g_lastObject := Some ob \<rparr>)
     | None \<Rightarrow> Done (None, c))"
  using assms by (auto simp: cache_getObject_def cache_idle_def cache_free Let_def split: option.split)

lemma objectCache_getObject_eq:
  "\<not> x_cacheMutex c \<Longrightarrow> objectCache_getObject c = Done (g_lastObject c, c\<lparr> g_lastObject := None \<rparr>)"
  by (simp add: objectCache_getObject_def cache_free)

lemma notifyObjectCompiled_eq:
  assumes "\<not> x_cacheMutex c" "fs_mkdir F (cache_dir c) = (ok, d)"
  shows "notifyObjectCompiled F ident ob c =
    Done ((), if g_mode c = Mode_on \<or> g_mode c = Mode_write
              then c\<lparr> cache_dir := (if ok then fs_write F d ident ob else d) \<rparr> else c)"
  using assms by (auto simp: notifyObjectCompiled_def cache_free Let_def)

lemma notifyObjectCompiled_Done:
  assumes "cache_idle c" "fs_ok F" "cache_sound P F c" "P ident ob"
  obtains c' where "notifyObjectCompiled F ident ob c = Done ((), c')" "cache_idle c'" "cache_sound P F c'"
    "g_mode c' = g_mode c"
proof -
  obtain ok d where mk: "fs_mkdir F (cache_dir c) = (ok, d)" by fastforce
  have read: "fs_read F d name = Some x \<Longrightarrow> fs_read F (cache_dir c) name = Some x" for name x
    using assms(2) mk unfolding fs_ok_def by blast
  have wr: "name = ident \<and> x = ob \<or> fs_read F d name = Some x" if "fs_read F (fs_write F d ident ob) name = Some x" for name x
    using assms(2) that unfolding fs_ok_def by metis
  have "cache_sound P F (c\<lparr> cache_dir := d \<rparr>)" "cache_sound P F (c\<lparr> cache_dir := fs_write F d ident ob \<rparr>)"
    using assms(3,4) read wr by (fastforce simp: cache_sound_def)+
  then show ?thesis
    using assms(1,3) by (intro that [OF notifyObjectCompiled_eq [OF _ mk]]) (auto simp: cache_idle_def)
qed

lemma objectCache_getObject_idle: "cache_idle c \<Longrightarrow> objectCache_getObject c = Done (None, c)"
  by (simp add: cache_idle_def objectCache_getObject_eq)

lemma relock: "x_cacheMutex c \<Longrightarrow> guarded body c = Undefined"
  by (simp add: guarded_def)

lemma preload_eq:
  assumes "\<not> x_cacheMutex c"
  shows "preload F addr funcCache c = (if fs_entries F (cache_dir c) = [] then Done (funcCache, c) else Undefined)"
proof (cases "fs_entries F (cache_dir c)")
  case (Cons name names)
  then show ?thesis using assms by (simp add: preload_def cache_free Let_def cache_getObject_def relock)
qed (use assms in \<open>simp add: preload_def cache_free Let_def\<close>)

section \<open>A file system for the witnesses\<close>

definition map_fs :: "((string \<times> 'o) list, 'o) file_system" where
  "map_fs = \<lparr> fs_read = map_of, fs_mkdir = (\<lambda>d. (True, d)), fs_write = (\<lambda>d name ob. (name, ob) # d),
     fs_remove = (\<lambda>d name. filter (\<lambda>(n, _). n \<noteq> name) d), fs_entries = map fst \<rparr>"

definition empty_cache :: "cache_mode \<Rightarrow> 'fs \<Rightarrow> ('fs, 'o) cache" where
  "empty_cache mode d = \<lparr> x_cacheMutex = False, g_mode = mode, g_lastObject = None, g_listener = None, cache_dir = d \<rparr>"

lemma map_fs_ok: "fs_ok (map_fs :: ((string \<times> 'o) list, 'o) file_system)"
proof -
  have keep: "map_of (filter (\<lambda>(n, _). n \<noteq> name) d) name' = (if name' = name then None else map_of d name')"
    for d :: "(string \<times> 'o) list" and name name'
    by (induction d) auto
  show ?thesis by (auto simp: fs_ok_def map_fs_def keep split: if_splits)
qed

section \<open>Properties\<close>

text \<open>
  C38. The object that the engine takes out of the cache is the one of the module it was given.  When
  \<^verbatim>\<open>Cache::getObject\<close> has looked for an identifier, the engine's \<^verbatim>\<open>ObjectCache::getObject\<close> finds an
  object exactly if it was given the fake module, so the fake module is never compiled; the object is
  one that was stored under that identifier; and the cache is left idle for the next compilation.
\<close>

theorem cache_hands_over_the_object:
  assumes "cache_idle c" "cache_sound P F c" "cache_getObject F ident c = Done (m, c1)"
  shows "\<exists>ob c2. objectCache_getObject c1 = Done (ob, c2) \<and> (m = Some FakeModule \<longleftrightarrow> ob \<noteq> None) \<and> (m = None \<longleftrightarrow> ob = None) \<and>
    (\<forall>x. ob = Some x \<longrightarrow> P ident x) \<and> cache_idle c2 \<and> cache_sound P F c2"
  using assms
  by (auto simp: cache_getObject_eq objectCache_getObject_eq cache_idle_def cache_sound_def split: option.splits if_splits)

theorem cache_hands_over_the_object_witness:
  "objectCache_getObject ((empty_cache Mode_on [(''a'', 7)])\<lparr> g_lastObject := Some 7 \<rparr>) =
     Done (Some (7 :: nat), empty_cache Mode_on [(''a'', 7 :: nat)])"
  using cache_hands_over_the_object [of "empty_cache Mode_on [(''a'', 7)]" "\<lambda>_ x. x = 7" map_fs "''a''"
      "Some FakeModule" "(empty_cache Mode_on [(''a'', 7)])\<lparr> g_lastObject := Some 7 \<rparr>"]
  by (simp add: cache_idle_def empty_cache_def cache_sound_def map_fs_def cache_getObject_eq objectCache_getObject_eq split: if_splits)

text \<open>
  C39. What was compiled is what is found: in mode "on", after \<^verbatim>\<open>notifyObjectCompiled\<close> has stored an
  object, looking for its identifier and handing over gives that object, unless the file cannot be
  read back; and every other identifier finds what it found before.
\<close>

theorem cache_roundtrip:
  assumes "cache_idle c" "g_mode c = Mode_on" "fs_ok F"
    and "notifyObjectCompiled F ident ob c = Done ((), c1)" "cache_getObject F ident' c1 = Done (m, c2)"
    and "objectCache_getObject c2 = Done (Some x, c3)"
  shows "if ident' = ident \<and> fst (fs_mkdir F (cache_dir c)) then x = ob else fs_read F (cache_dir c) ident' = Some x"
proof -
  obtain ok d where mk: "fs_mkdir F (cache_dir c) = (ok, d)" by fastforce
  have read: "fs_read F d name = Some y \<Longrightarrow> fs_read F (cache_dir c) name = Some y" for name y
    using assms(3) mk unfolding fs_ok_def by blast
  have wr: "fs_read F (fs_write F d ident ob) name = Some y \<Longrightarrow> if name = ident then y = ob else fs_read F d name = Some y" for name y
    using assms(3) unfolding fs_ok_def by blast
  have c1: "c1 = c\<lparr> cache_dir := (if ok then fs_write F d ident ob else d) \<rparr>"
    using assms(1,2,4) by (simp add: notifyObjectCompiled_eq [OF _ mk] cache_idle_def)
  have "cache_idle c1" "g_mode c1 = Mode_on" using assms(1,2) by (simp_all add: c1 cache_idle_def)
  then have "fs_read F (cache_dir c1) ident' = Some x"
    using assms(5,6) by (auto simp: cache_getObject_eq objectCache_getObject_eq cache_idle_def split: option.splits)
  then show ?thesis using read wr mk by (auto simp: c1 split: if_splits)
qed

theorem cache_roundtrip_witness:
  "objectCache_getObject ((empty_cache Mode_on [(''b'', 8), (''a'', 7)])\<lparr> g_lastObject := Some 8 \<rparr>) =
     Done (Some (8 :: nat), empty_cache Mode_on [(''b'', 8), (''a'', 7 :: nat)])"
  using cache_roundtrip [of "empty_cache Mode_on [(''a'', 7)]" map_fs "''b''" 8 "empty_cache Mode_on [(''b'', 8), (''a'', 7)]" "''b''"
      "Some FakeModule" "(empty_cache Mode_on [(''b'', 8), (''a'', 7)])\<lparr> g_lastObject := Some 8 \<rparr>" 8]
    map_fs_ok
  by (simp add: cache_idle_def empty_cache_def map_fs_def cache_getObject_eq objectCache_getObject_eq notifyObjectCompiled_def cache_free Let_def)

text \<open>
  C40. Clearing the cache and preloading it lock the mutex twice.  \<^verbatim>\<open>init\<close> in mode "clear" calls
  \<^verbatim>\<open>Cache::clear\<close> while it holds the mutex, and \<^verbatim>\<open>preload\<close> calls \<^verbatim>\<open>getObject\<close> while it holds it, so the
  first always has undefined behaviour, the second unless the cache is empty.
\<close>

theorem cache_clear_and_preload_relock:
  assumes "\<not> x_cacheMutex c"
  shows "cache_init F Mode_clear listener c = Undefined \<and>
    (fs_entries F (cache_dir c) \<noteq> [] \<longrightarrow> preload F addr funcCache c = Undefined)"
  using assms by (simp add: cache_init_eq preload_eq)

theorem cache_clear_and_preload_relock_witness:
  "cache_init map_fs Mode_clear None (empty_cache Mode_off [(''a'', 7 :: nat)]) = Undefined \<and>
   preload map_fs (\<lambda>_. 0 :: nat) Map.empty (empty_cache Mode_off [(''a'', 7 :: nat)]) = Undefined"
  using cache_clear_and_preload_relock [of "empty_cache Mode_off [(''a'', 7 :: nat)]" map_fs None "\<lambda>_. 0 :: nat" Map.empty]
  by (simp add: empty_cache_def map_fs_def)

end
