(* ===== verification/Keccak.thy ===== *)
theory Keccak
  imports Bytes
begin

text \<open>
  The hash function of \<^verbatim>\<open>libevmjit/Utils.cpp\<close>: the permutation \<^verbatim>\<open>keccakf\<close> on an array of 25 lanes, as
  the unrolled loops over the arrays \<^verbatim>\<open>a\<close> and \<^verbatim>\<open>b\<close> compute it, the sponge \<^verbatim>\<open>hash\<close> on an array of 200
  bytes, and \<^verbatim>\<open>keccak\<close>.  The lemmas relate them to the step functions of FIPS 202 on a 5 by 5 matrix
  and to the sponge on padded blocks.
\<close>

section \<open>The permutation\<close>

definition rho :: "nat list" where
  "rho = [1, 3, 6, 10, 15, 21, 28, 36, 45, 55, 2, 14, 27, 41, 56, 8, 25, 43, 62, 18, 39, 61, 20, 44]"

definition pi_lane :: "nat list" where
  "pi_lane = [10, 7, 11, 17, 18, 3, 5, 16, 8, 21, 24, 4, 15, 23, 19, 13, 12, 2, 20, 14, 22, 9, 6, 1]"

definition RC :: "i64 list" where
  "RC = [0x1, 0x8082, 0x800000000000808a, 0x8000000080008000, 0x808b, 0x80000001, 0x8000000080008081, 0x8000000000008009,
     0x8a, 0x88, 0x80008009, 0x8000000a, 0x8000808b, 0x800000000000008b, 0x8000000000008089, 0x8000000000008003,
     0x8000000000008002, 0x8000000000000080, 0x800a, 0x800000008000000a, 0x8000000080008081, 0x8000000000008080,
     0x80000001, 0x8000000080008008]"

definition rol :: "i64 \<Rightarrow> nat \<Rightarrow> i64" where
  "rol x s = push_bit s x OR drop_bit (64 - s) x"

text \<open>\<^verbatim>\<open>FOR5(v, s, e)\<close>: \<open>e\<close> for the values 0, s, ..., 4 s.\<close>

definition for5 :: "nat \<Rightarrow> (nat \<Rightarrow> 'a \<Rightarrow> 'a) \<Rightarrow> 'a \<Rightarrow> 'a" where
  "for5 s f a = fold f [0, s, 2 * s, 3 * s, 4 * s] a"

definition theta :: "i64 list \<Rightarrow> i64 list" where
  "theta a =
     (let b = for5 1 (\<lambda>x b. for5 5 (\<lambda>y b. b[x := b ! x XOR a ! (x + y)]) (b[x := 0])) (replicate 5 0)
      in for5 1 (\<lambda>x a. for5 5 (\<lambda>y a. a[y + x := a ! (y + x) XOR (b ! ((x + 4) mod 5) XOR rol (b ! ((x + 1) mod 5)) 1)]) a) a)"

text \<open>The walk along \<^verbatim>\<open>pi\<close>: \<^verbatim>\<open>b[0]\<close> holds the lane that is overwritten.\<close>

definition rho_pi :: "i64 list \<Rightarrow> i64 list" where
  "rho_pi a =
     fst (fold (\<lambda>x (a, t). (let b0 = a ! (pi_lane ! x) in (a[pi_lane ! x := rol t (rho ! x)], b0))) [0..<24] (a, a ! 1))"

definition chi :: "i64 list \<Rightarrow> i64 list" where
  "chi a =
     for5 5 (\<lambda>y a.
       (let b = for5 1 (\<lambda>x b. b[x := a ! (y + x)]) (replicate 5 0)
        in for5 1 (\<lambda>x a. a[y + x := b ! x XOR (NOT (b ! ((x + 1) mod 5)) AND b ! ((x + 2) mod 5))]) a)) a"

definition iota :: "nat \<Rightarrow> i64 list \<Rightarrow> i64 list" where
  "iota i a = a[0 := a ! 0 XOR RC ! i]"

definition keccakf :: "i64 list \<Rightarrow> i64 list" where
  "keccakf a = fold (\<lambda>i a. iota i (chi (rho_pi (theta a)))) [0..<24] a"

section \<open>The sponge\<close>

definition Plen :: nat where
  "Plen = 200"

text \<open>The permutation on the bytes, which the C code casts to lanes in the host's byte order.\<close>

definition lanes :: "bool \<Rightarrow> byte list \<Rightarrow> i64 list" where
  "lanes le a = map (\<lambda>i. host_load le (take 8 (drop (8 * i) a))) [0..<25]"

definition keccak_P :: "bool \<Rightarrow> byte list \<Rightarrow> byte list" where
  "keccak_P le a = concat (map (host_store le) (keccakf (lanes le a)))"

definition xorin :: "byte list \<Rightarrow> byte list \<Rightarrow> nat \<Rightarrow> byte list" where
  "xorin dst src len = fold (\<lambda>i dst. dst[i := dst ! i XOR src ! i]) [0..<len] dst"

text \<open>\<^verbatim>\<open>foldP(in, inlen, xorin)\<close>; the rate, 200 less a quarter of the bits, is positive.\<close>

function foldP_in :: "bool \<Rightarrow> nat \<Rightarrow> byte list \<Rightarrow> byte list \<Rightarrow> byte list \<times> byte list" where
  "foldP_in le rate a inp =
     (if 0 < rate \<and> rate \<le> length inp then foldP_in le rate (keccak_P le (xorin a inp rate)) (drop rate inp) else (a, inp))"
  by pat_completeness auto
termination
  by (relation "measure (\<lambda>(le, rate, a, inp). length inp)") auto

function foldP_out :: "bool \<Rightarrow> nat \<Rightarrow> byte list \<Rightarrow> nat \<Rightarrow> byte list" where
  "foldP_out le rate a outlen =
     (if 0 < rate \<and> rate \<le> outlen then take rate a @ foldP_out le rate (keccak_P le a) (outlen - rate) else take outlen a)"
  by pat_completeness auto
termination
  by (relation "measure (\<lambda>(le, rate, a, outlen). outlen)") auto

declare foldP_in.simps [simp del] foldP_out.simps [simp del]

text \<open>\<^verbatim>\<open>hash\<close>; \<open>None\<close> is the result -1.\<close>

definition hash :: "bool \<Rightarrow> nat \<Rightarrow> byte list \<Rightarrow> nat \<Rightarrow> byte \<Rightarrow> byte list option" where
  "hash le outlen inp rate delim =
     (if Plen \<le> rate then None
      else
        (let (a, rest) = foldP_in le rate (replicate Plen 0) inp;
             inlen = length rest;
             a = a[inlen := a ! inlen XOR delim];
             a = a[rate - 1 := a ! (rate - 1) XOR 0x80];
             a = xorin a rest inlen;
             a = keccak_P le a
         in Some (foldP_out le rate a outlen)))"

definition keccak_256 :: "bool \<Rightarrow> nat \<Rightarrow> byte list \<Rightarrow> byte list option" where
  "keccak_256 le outlen inp = (if outlen > 256 div 8 then None else hash le outlen inp (200 - 256 div 4) 0x01)"

text \<open>\<^verbatim>\<open>keccak\<close>: the 32 bytes of \<^verbatim>\<open>o_hash\<close> afterwards; they keep their values \<open>junk\<close> on an error.\<close>

definition keccak :: "bool \<Rightarrow> byte list \<Rightarrow> byte list \<Rightarrow> byte list" where
  "keccak le junk data = (case keccak_256 le 32 data of Some h \<Rightarrow> h | None \<Rightarrow> junk)"

section \<open>The step functions of FIPS 202\<close>

text \<open>A state is a matrix of lanes; only the columns and rows 0 to 4 count.\<close>

type_synonym matrix = "nat \<Rightarrow> nat \<Rightarrow> i64"

definition fips_parity :: "matrix \<Rightarrow> nat \<Rightarrow> i64" where
  "fips_parity A x = A x 0 XOR A x 1 XOR A x 2 XOR A x 3 XOR A x 4"

definition fips_theta :: "matrix \<Rightarrow> matrix" where
  "fips_theta A = (\<lambda>x y. A x y XOR (fips_parity A ((x + 4) mod 5) XOR rol (fips_parity A ((x + 1) mod 5)) 1))"

definition fips_offsets :: "nat list" where
  "fips_offsets = [0, 1, 62, 28, 27, 36, 44, 6, 55, 20, 3, 10, 43, 25, 39, 41, 45, 15, 21, 8, 18, 2, 61, 56, 14]"

definition fips_rho :: "matrix \<Rightarrow> matrix" where
  "fips_rho A = (\<lambda>x y. rol (A x y) (fips_offsets ! (x + 5 * y)))"

definition fips_pi :: "matrix \<Rightarrow> matrix" where
  "fips_pi A = (\<lambda>x y. A ((x + 3 * y) mod 5) x)"

definition fips_chi :: "matrix \<Rightarrow> matrix" where
  "fips_chi A = (\<lambda>x y. A x y XOR (NOT (A ((x + 1) mod 5) y) AND A ((x + 2) mod 5) y))"

text \<open>The round constants: bits of a linear feedback shift register at the positions \<open>2 ^ j - 1\<close>.\<close>

fun lfsr_step :: "bool list \<Rightarrow> bool list" where
  "lfsr_step [r0, r1, r2, r3, r4, r5, r6, r7] = [r7, r0, r1, r2, r3 \<noteq> r7, r4 \<noteq> r7, r5 \<noteq> r7, r6]"
| "lfsr_step r = r"

fun lfsr_bits :: "nat \<Rightarrow> bool list \<Rightarrow> bool list" where
  "lfsr_bits 0 r = []"
| "lfsr_bits (Suc n) r = hd r # lfsr_bits n (lfsr_step r)"

fun rc_word :: "nat \<Rightarrow> bool list \<Rightarrow> i64" where
  "rc_word p [] = 0"
| "rc_word p (b # bs) = (if b then push_bit (p - 1) 1 else 0) OR rc_word (2 * p) bs"

fun rc_words :: "nat \<Rightarrow> bool list \<Rightarrow> i64 list" where
  "rc_words 0 bits = []"
| "rc_words (Suc n) bits = rc_word 1 (take 7 bits) # rc_words n (drop 7 bits)"

definition fips_RC :: "i64 list" where
  "fips_RC = rc_words 24 (lfsr_bits 168 [True, False, False, False, False, False, False, False])"

lemma RC_is_fips: "RC = fips_RC"
  unfolding RC_def fips_RC_def by code_simp

definition fips_iota :: "nat \<Rightarrow> matrix \<Rightarrow> matrix" where
  "fips_iota i A = (\<lambda>x y. if x = 0 \<and> y = 0 then A 0 0 XOR fips_RC ! i else A x y)"

definition fips_round :: "nat \<Rightarrow> matrix \<Rightarrow> matrix" where
  "fips_round i A = fips_iota i (fips_chi (fips_pi (fips_rho (fips_theta A))))"

definition fips_keccakf :: "matrix \<Rightarrow> matrix" where
  "fips_keccakf A = fold fips_round [0..<24] A"

section \<open>The loops compute them\<close>

definition is_matrix :: "i64 list \<Rightarrow> matrix \<Rightarrow> bool" where
  "is_matrix a A \<longleftrightarrow> length a = 25 \<and> (\<forall>x < 5. \<forall>y < 5. a ! (x + 5 * y) = A x y)"

lemma less_5: "x < 5 \<longleftrightarrow> x \<in> {0, 1, 2, 3, 4}" for x :: nat
  by auto

lemma lane_cases:
  assumes "k < (25 :: nat)"
  obtains x y where "x < 5" "y < 5" "k = x + 5 * y"
  using assms by (intro that [of "k mod 5" "k div 5"]) auto

lemma is_matrix_nth: "is_matrix a A \<Longrightarrow> x < 5 \<Longrightarrow> y < 5 \<Longrightarrow> a ! (x + 5 * y) = A x y"
  by (simp add: is_matrix_def)

text \<open>Updates at different places, each reading its own place.\<close>

lemma fold_update:
  assumes "distinct (map idx ps)" "\<forall>p \<in> set ps. idx p < length a"
  shows "length (fold (\<lambda>p a. a[idx p := g p (a ! idx p)]) ps a) = length a \<and>
    (\<forall>p \<in> set ps. fold (\<lambda>p a. a[idx p := g p (a ! idx p)]) ps a ! idx p = g p (a ! idx p)) \<and>
    (\<forall>k. k \<notin> idx ` set ps \<longrightarrow> fold (\<lambda>p a. a[idx p := g p (a ! idx p)]) ps a ! k = a ! k)"
  using assms
proof (induction ps arbitrary: a)
  case (Cons p ps)
  let ?a = "a[idx p := g p (a ! idx p)]"
  have fresh: "idx p \<notin> idx ` set ps" using Cons.prems(1) by simp
  have ne: "idx q \<noteq> idx p" if "q \<in> set ps" for q using fresh image_eqI [OF _ that] by metis
  show ?case
    using Cons.IH [of ?a] Cons.prems fresh ne by (auto simp: nth_list_update)
qed simp

lemma fold_product: "fold (\<lambda>x. fold (\<lambda>y. F x y) ys) xs a = fold (\<lambda>(x, y). F x y) (List.product xs ys) a"
  by (induction xs arbitrary: a) (simp_all add: fold_map comp_def)

lemma for5_eq: "for5 1 f a = fold f [0, 1, 2, 3, 4] a" "for5 5 f a = fold f [0, 5, 10, 15, 20] a"
  by (simp_all add: for5_def)

lemma theta_parity:
  "for5 1 (\<lambda>x b. for5 5 (\<lambda>y b. b[x := b ! x XOR a ! (x + y)]) (b[x := 0])) (replicate 5 0) =
    map (fips_parity (\<lambda>x y. a ! (x + 5 * y))) [0, 1, 2, 3, 4]"
  by (simp add: for5_def fips_parity_def numeral_eq_Suc xor.assoc)

lemma parity_nth: "is_matrix a A \<Longrightarrow> x < 5 \<Longrightarrow> map (fips_parity (\<lambda>x y. a ! (x + 5 * y))) [0, 1, 2, 3, 4] ! x = fips_parity A x"
  using is_matrix_nth [of a A x 0] is_matrix_nth [of a A x 1] is_matrix_nth [of a A x 2] is_matrix_nth [of a A x 3]
    is_matrix_nth [of a A x 4]
  by (auto simp: less_5 fips_parity_def simp flip: numeral_2_eq_2)

lemma theta_is_fips:
  assumes "is_matrix a A"
  shows "is_matrix (theta a) (fips_theta A)"
proof -
  define b where "b = map (fips_parity (\<lambda>x y. a ! (x + 5 * y))) [0, 1, 2, 3, 4]"
  let ?ps = "List.product [0, 1, 2, 3, 4] [0, 5, 10, 15, 20] :: (nat \<times> nat) list"
  let ?idx = "\<lambda>(x, y). y + x" and ?g = "\<lambda>(x, y) w. w XOR (b ! ((x + 4) mod 5) XOR rol (b ! ((x + 1) mod 5)) 1)"
  have len: "length a = 25" using assms by (simp add: is_matrix_def)
  have eq: "theta a = fold (\<lambda>p a. a[?idx p := ?g p (a ! ?idx p)]) ?ps a"
    unfolding theta_def Let_def unfolding theta_parity b_def [symmetric] unfolding for5_eq fold_product
    by (rule fold_cong [OF refl refl]) (simp only: split_beta)
  have idx: "distinct (map ?idx ?ps)" by simp
  have less: "\<forall>p \<in> set ?ps. ?idx p < length a" by (auto simp: len)
  note upd = fold_update [where g = ?g, OF idx less, folded eq]
  have b: "b ! x = fips_parity A x" if "x < 5" for x
    unfolding b_def by (rule parity_nth [OF assms that])
  have "theta a ! (x + 5 * y) = fips_theta A x y" if xy: "x < 5" "y < 5" for x y
  proof -
    have "x \<in> set [0, 1, 2, 3, 4]" "5 * y \<in> set [0, 5, 10, 15, 20]" using xy by auto
    then have "(x, 5 * y) \<in> set ?ps" by (simp only: set_product mem_Times_iff fst_conv snd_conv simp_thms)
    then have "theta a ! (?idx (x, 5 * y)) = ?g (x, 5 * y) (a ! ?idx (x, 5 * y))"
      by (rule bspec [OF conjunct1 [OF conjunct2 [OF upd]]])
    then have "theta a ! (5 * y + x) = a ! (5 * y + x) XOR (b ! ((x + 4) mod 5) XOR rol (b ! ((x + 1) mod 5)) 1)"
      by (simp only: prod.case)
    moreover have "b ! ((x + 4) mod 5) = fips_parity A ((x + 4) mod 5)" "b ! ((x + 1) mod 5) = fips_parity A ((x + 1) mod 5)"
      by (rule b; simp)+
    ultimately show ?thesis
      using is_matrix_nth [OF assms xy] unfolding fips_theta_def by (simp only: add.commute)
  qed
  moreover have "length (theta a) = 25" using conjunct1 [OF upd] len by (rule trans)
  ultimately show ?thesis by (simp add: is_matrix_def)
qed

text \<open>The walk: after \<open>n\<close> steps.\<close>

definition walk_from :: "nat \<Rightarrow> nat" where
  "walk_from x = (if x = 0 then 1 else pi_lane ! (x - 1))"

lemma pi_lane_distinct: "distinct pi_lane" and length_pi_lane: "length pi_lane = 24" and pi_lane_less: "\<forall>k \<in> set pi_lane. k < 25"
  by (simp_all add: pi_lane_def)

lemma rho_pi_walk:
  assumes "length a = 25" "n \<le> 24"
  shows "\<exists>a' t. fold (\<lambda>x (a, t). (let b0 = a ! (pi_lane ! x) in (a[pi_lane ! x := rol t (rho ! x)], b0))) [0..<n] (a, a ! 1) = (a', t) \<and>
    length a' = 25 \<and> t = a ! walk_from n \<and> (\<forall>x < n. a' ! (pi_lane ! x) = rol (a ! walk_from x) (rho ! x)) \<and>
    (\<forall>k. k \<notin> set (take n pi_lane) \<longrightarrow> a' ! k = a ! k)"
  using assms(2)
proof (induction n)
  case 0
  then show ?case by (simp add: walk_from_def assms)
next
  case (Suc n)
  then obtain a' t where IH: "fold (\<lambda>x (a, t). (let b0 = a ! (pi_lane ! x) in (a[pi_lane ! x := rol t (rho ! x)], b0))) [0..<n] (a, a ! 1) = (a', t)"
    "length a' = 25" "t = a ! walk_from n" "\<forall>x < n. a' ! (pi_lane ! x) = rol (a ! walk_from x) (rho ! x)"
    "\<forall>k. k \<notin> set (take n pi_lane) \<longrightarrow> a' ! k = a ! k" by auto
  have n: "n < length pi_lane" using Suc.prems by (simp add: length_pi_lane)
  have lane: "pi_lane ! n < 25" using n pi_lane_less by simp
  have "pi_lane ! n \<notin> set (take n pi_lane)"
    using n pi_lane_distinct by (auto simp: in_set_conv_nth nth_eq_iff_index_eq)
  moreover have ne: "pi_lane ! n \<noteq> pi_lane ! x" if "x < n" for x
    using n that pi_lane_distinct by (simp add: nth_eq_iff_index_eq)
  moreover have "a'[pi_lane ! n := w] ! (pi_lane ! x) = rol (a ! walk_from x) (rho ! x)"
    if "x < Suc n" "w = rol (a ! walk_from n) (rho ! n)" for x w
    using that IH(2,4) ne lane by (cases "x = n") (simp_all add: nth_list_update)
  ultimately show ?case
    using IH n lane by (simp add: walk_from_def take_Suc_conv_app_nth Let_def)
qed

text \<open>Where the walk leads, with the offsets of the table.\<close>

definition walk_ok :: "nat \<Rightarrow> bool" where
  "walk_ok i \<longleftrightarrow> (let k = pi_lane ! i; x = k mod 5; y = k div 5; x' = (x + 3 * y) mod 5; y' = x
    in walk_from i = x' + 5 * y' \<and> rho ! i = fips_offsets ! (x' + 5 * y'))"

lemma walk_is_pi: "list_all walk_ok [0..<24]"
  by code_simp

lemma pi_lane_complete: "k < 25 \<Longrightarrow> k = 0 \<or> k \<in> set pi_lane"
proof -
  have "list_all (\<lambda>k. k = 0 \<or> k \<in> set pi_lane) [0..<25]" by code_simp
  then show "k < 25 \<Longrightarrow> k = 0 \<or> k \<in> set pi_lane" by (auto simp: list_all_iff)
qed

lemma rho_pi_is_fips:
  assumes "is_matrix a A"
  shows "is_matrix (rho_pi a) (fips_pi (fips_rho A))"
proof -
  have len: "length a = 25" using assms by (simp add: is_matrix_def)
  obtain a' t where w: "fold (\<lambda>x (a, t). (let b0 = a ! (pi_lane ! x) in (a[pi_lane ! x := rol t (rho ! x)], b0))) [0..<24] (a, a ! 1) = (a', t)"
    "length a' = 25" "\<forall>x < 24. a' ! (pi_lane ! x) = rol (a ! walk_from x) (rho ! x)"
    "\<forall>k. k \<notin> set (take 24 pi_lane) \<longrightarrow> a' ! k = a ! k"
    using rho_pi_walk [OF len, of 24] by auto
  have r: "rho_pi a = a'" unfolding rho_pi_def w(1) by simp
  have "a' ! (x + 5 * y) = fips_pi (fips_rho A) x y" if xy: "x < 5" "y < 5" for x y
  proof (cases "x + 5 * y = 0")
    case True
    have "0 \<notin> set pi_lane" by (simp add: pi_lane_def)
    then show ?thesis
      using True w(4) is_matrix_nth [OF assms, of 0 0]
      by (simp add: length_pi_lane fips_pi_def fips_rho_def fips_offsets_def rol_def)
  next
    case False
    have "x + 5 * y \<in> set pi_lane" using xy disjE [OF pi_lane_complete [of "x + 5 * y"]] False by force
    then obtain i where i: "i < 24" "x + 5 * y = pi_lane ! i" by (auto simp: in_set_conv_nth length_pi_lane)
    have "walk_ok i" using walk_is_pi i(1) by (auto simp: list_all_iff)
    then have "walk_from i = (x + 3 * y) mod 5 + 5 * x \<and> rho ! i = fips_offsets ! ((x + 3 * y) mod 5 + 5 * x)"
      using xy by (simp add: walk_ok_def Let_def i(2) [symmetric])
    then show ?thesis
      using w(3) i is_matrix_nth [OF assms, of "(x + 3 * y) mod 5" x] xy by (simp add: fips_pi_def fips_rho_def)
  qed
  then show ?thesis by (simp add: is_matrix_def r w(2))
qed

text \<open>One row of chi, copied to \<^verbatim>\<open>b\<close> and written back.\<close>

definition chi_row :: "nat \<Rightarrow> i64 list \<Rightarrow> i64 list" where
  "chi_row y a =
     (let b = for5 1 (\<lambda>x b. b[x := a ! (y + x)]) (replicate 5 0)
      in for5 1 (\<lambda>x a. a[y + x := b ! x XOR (NOT (b ! ((x + 1) mod 5)) AND b ! ((x + 2) mod 5))]) a)"

lemma chi_rows: "chi a = fold chi_row [0, 5, 10, 15, 20] a"
  unfolding chi_def for5_eq(2) chi_row_def ..

lemma copy_row: "for5 1 (\<lambda>x b. b[x := a ! (y + x)]) (replicate 5 0) = map (\<lambda>x. a ! (y + x)) [0, 1, 2, 3, 4]"
  by (simp add: for5_def numeral_eq_Suc)

lemma chi_row_nth:
  assumes "length a = 25" "y \<le> 20"
  shows "length (chi_row y a) = 25"
    and "x < 5 \<Longrightarrow> chi_row y a ! (y + x) = a ! (y + x) XOR (NOT (a ! (y + (x + 1) mod 5)) AND a ! (y + (x + 2) mod 5))"
    and "k < y \<or> y + 5 \<le> k \<Longrightarrow> chi_row y a ! k = a ! k"
proof -
  let ?b = "map (\<lambda>x. a ! (y + x)) [0, 1, 2, 3, 4]"
  have b: "?b ! x = a ! (y + x)" if "x < 5" for x using that by (auto simp: less_5)
  let ?g = "\<lambda>x w :: i64. ?b ! x XOR (NOT (?b ! ((x + 1) mod 5)) AND ?b ! ((x + 2) mod 5))"
  have eq: "chi_row y a = fold (\<lambda>x a. a[y + x := ?g x (a ! (y + x))]) [0, 1, 2, 3, 4] a"
    unfolding chi_row_def Let_def unfolding copy_row unfolding for5_eq ..
  have upd: "length (chi_row y a) = length a"
    "\<forall>x \<in> set [0, 1, 2, 3, 4]. chi_row y a ! (y + x) = ?g x (a ! (y + x))"
    "\<forall>k. k \<notin> (+) y ` set [0, 1, 2, 3, 4] \<longrightarrow> chi_row y a ! k = a ! k"
    using fold_update [where idx = "(+) y" and g = ?g and a = a and ps = "[0, 1, 2, 3, 4]", folded eq] assms by auto
  show "length (chi_row y a) = 25" using upd(1) assms by simp
  show "chi_row y a ! (y + x) = a ! (y + x) XOR (NOT (a ! (y + (x + 1) mod 5)) AND a ! (y + (x + 2) mod 5))" if x: "x < 5"
  proof -
    have "x \<in> set [0, 1, 2, 3, 4]" using x by auto
    then show ?thesis using upd(2) b [OF x] b [of "(x + 1) mod 5"] b [of "(x + 2) mod 5"] by (metis mod_less_divisor zero_less_numeral)
  qed
  show "chi_row y a ! k = a ! k" if "k < y \<or> y + 5 \<le> k"
    using upd(3) that by auto
qed

lemma chi_is_fips:
  assumes "is_matrix a A"
  shows "is_matrix (chi a) (fips_chi A)"
proof -
  have step: "length (fold chi_row (map ((*) 5) [0..<n]) a) = 25 \<and>
    (\<forall>x < 5. \<forall>y < 5. fold chi_row (map ((*) 5) [0..<n]) a ! (x + 5 * y) = (if y < n then fips_chi A x y else A x y))" if "n \<le> 5" for n
    using that
  proof (induction n)
    case 0
    then show ?case using assms by (simp add: is_matrix_def)
  next
    case (Suc n)
    define c where "c = fold chi_row (map ((*) 5) [0..<n]) a"
    have len: "length c = 25" and c: "\<forall>x < 5. \<forall>y < 5. c ! (x + 5 * y) = (if y < n then fips_chi A x y else A x y)"
      using Suc unfolding c_def by simp_all
    have n: "5 * n \<le> 20" using Suc.prems by simp
    have "chi_row (5 * n) c ! (x + 5 * y) = (if y < Suc n then fips_chi A x y else A x y)" if xy: "x < 5" "y < 5" for x y
    proof (cases "y = n")
      case True
      have old: "c ! (5 * n + z) = A z n" if "z < 5" for z using c that Suc.prems by (simp add: add.commute)
      show ?thesis
        using chi_row_nth(2) [OF len n xy(1)] old [OF xy(1)] old [of "(x + 1) mod 5"] old [of "(x + 2) mod 5"] True
        by (simp add: fips_chi_def add.commute [of x])
    next
      case False
      then have "x + 5 * y < 5 * n \<or> 5 * n + 5 \<le> x + 5 * y" using xy by linarith
      then show ?thesis using chi_row_nth(3) [OF len n] c xy False by simp
    qed
    then show ?case using chi_row_nth(1) [OF len n] unfolding c_def by simp
  qed
  have "map ((*) 5) [0..<5] = [0, 5, 10, 15, 20 :: nat]" by (simp add: upt_rec)
  then show ?thesis using step [of 5] by (simp add: is_matrix_def chi_rows)
qed

lemma iota_is_fips:
  assumes "is_matrix a A"
  shows "is_matrix (iota i a) (fips_iota i A)"
proof -
  have "a ! 0 = A 0 0" using is_matrix_nth [OF assms, of 0 0] by simp
  then show ?thesis
    using assms by (auto simp: is_matrix_def iota_def fips_iota_def nth_list_update RC_is_fips)
qed

lemma rounds_are_fips: "is_matrix a A \<Longrightarrow> is_matrix (fold (\<lambda>i a. iota i (chi (rho_pi (theta a)))) is a) (fold fips_round is A)"
  by (induction "is" arbitrary: a A) (simp_all add: fips_round_def iota_is_fips chi_is_fips rho_pi_is_fips theta_is_fips)

lemma keccakf_matrix: "is_matrix a A \<Longrightarrow> is_matrix (keccakf a) (fips_keccakf A)"
  unfolding keccakf_def fips_keccakf_def by (rule rounds_are_fips)

section \<open>The sponge on padded blocks\<close>

text \<open>A block is xored into the front of the state; the state then is permuted.\<close>

definition xor_block :: "byte list \<Rightarrow> byte list \<Rightarrow> byte list" where
  "xor_block blk a = map2 (XOR) a (blk @ replicate (length a - length blk) 0)"

fun absorb :: "(byte list \<Rightarrow> byte list) \<Rightarrow> byte list list \<Rightarrow> byte list \<Rightarrow> byte list" where
  "absorb P [] a = a"
| "absorb P (blk # blks) a = absorb P blks (P (xor_block blk a))"

text \<open>The permutation on bytes: lane (x, y) is the little-endian word at byte 8 (x + 5 y).\<close>

definition fips_P :: "byte list \<Rightarrow> byte list" where
  "fips_P a =
     (let A = fips_keccakf (\<lambda>x y. of_le (take 8 (drop (8 * (x + 5 * y)) a)))
      in concat (map (\<lambda>k. to_le (A (k mod 5) (k div 5))) [0..<25]))"

text \<open>The padding \<^verbatim>\<open>pad10*1\<close> after the bit of the delimiter, for blocks of \<open>rate\<close> bytes.\<close>

definition pad :: "nat \<Rightarrow> nat \<Rightarrow> byte list" where
  "pad rate len =
     (let n = rate - len mod rate in if n = 1 then [0x81] else 0x01 # replicate (n - 2) 0 @ [0x80])"

function blocks_of :: "nat \<Rightarrow> byte list \<Rightarrow> byte list list" where
  "blocks_of rate xs = (if 0 < rate \<and> rate \<le> length xs then take rate xs # blocks_of rate (drop rate xs) else [])"
  by pat_completeness auto
termination
  by (relation "measure (\<lambda>(rate, xs). length xs)") auto

declare blocks_of.simps [simp del]

definition fips_keccak_256 :: "byte list \<Rightarrow> byte list" where
  "fips_keccak_256 data = take 32 (absorb fips_P (blocks_of 136 (data @ pad 136 (length data))) (replicate 200 0))"

lemma length_rounds: "length (keccakf a) = 25" if "length a = 25"
proof -
  have "is_matrix a (\<lambda>x y. a ! (x + 5 * y))" using that by (simp add: is_matrix_def)
  from keccakf_matrix [OF this] show ?thesis by (simp add: is_matrix_def)
qed

lemma length_keccak_P [simp]: "length (keccak_P le a) = 200"
proof -
  have "length (concat (map (host_store le) ws)) = 8 * length ws" for ws :: "i64 list"
    by (induction ws) simp_all
  then show ?thesis by (simp add: keccak_P_def length_rounds lanes_def)
qed

lemma xorin_nth:
  "n \<le> length dst \<Longrightarrow> length (xorin dst src n) = length dst \<and>
    (\<forall>k < length dst. xorin dst src n ! k = (if k < n then dst ! k XOR src ! k else dst ! k))"
  by (induction n) (auto simp: xorin_def nth_list_update less_Suc_eq)

lemma xorin_is_block:
  assumes "length blk = n" "n \<le> length a" "\<forall>k < n. src ! k = blk ! k"
  shows "xorin a src n = xor_block blk a"
  using xorin_nth [OF assms(2), of src] assms
  by (auto simp: xor_block_def nth_append intro!: nth_equalityI)

lemma keccak_P_is_fips: "keccak_P True = fips_P"
proof
  fix a
  let ?A = "\<lambda>x y. of_le (take 8 (drop (8 * (x + 5 * y)) a)) :: i64"
  have "is_matrix (lanes True a) ?A"
    by (auto simp: is_matrix_def lanes_def host_load_def)
  then have M: "is_matrix (keccakf (lanes True a)) (fips_keccakf ?A)" by (rule keccakf_matrix)
  have "keccakf (lanes True a) = map (\<lambda>k. fips_keccakf ?A (k mod 5) (k div 5)) [0..<25]"
  proof (rule nth_equalityI)
    fix k assume "k < length (keccakf (lanes True a))"
    then have "k < 25" using M by (simp add: is_matrix_def)
    then show "keccakf (lanes True a) ! k = map (\<lambda>k. fips_keccakf ?A (k mod 5) (k div 5)) [0..<25] ! k"
      using is_matrix_nth [OF M, of "k mod 5" "k div 5"] by simp
  qed (use M in \<open>simp add: is_matrix_def\<close>)
  then show "keccak_P True a = fips_P a"
    by (simp add: keccak_P_def fips_P_def host_store_def comp_def)
qed

text \<open>The last block of \<^verbatim>\<open>hash\<close>.\<close>

definition last_block :: "nat \<Rightarrow> byte list \<Rightarrow> byte list \<Rightarrow> byte list" where
  "last_block rate a rest =
     (let a = a[length rest := a ! length rest XOR 0x01]; a = a[rate - 1 := a ! (rate - 1) XOR 0x80] in xorin a rest (length rest))"

lemma length_pad:
  assumes "0 < rate"
  shows "length (pad rate len) = rate - len mod rate"
proof -
  have "0 < rate - len mod rate" using assms by simp
  then show ?thesis unfolding pad_def by (cases "rate - len mod rate" rule: nat.exhaust) (auto simp: Let_def)
qed

lemma last_block_is_padded:
  assumes "length rest < rate" "rate \<le> length a"
  shows "last_block rate a rest = xor_block (rest @ pad rate (length rest)) a"
proof -
  let ?n = "length rest"
  define c where "c = a[?n := a ! ?n XOR 0x01]"
  define d where "d = c[rate - 1 := c ! (rate - 1) XOR 0x80]"
  have len: "length d = length a" by (simp add: d_def c_def)
  have dk: "d ! k = a ! k XOR ((if k = ?n then 0x01 else 0) XOR (if k = rate - 1 then 0x80 else 0))" if "k < length a" for k
    using that assms by (auto simp: d_def c_def nth_list_update xor.assoc)
  have pk: "(pad rate ?n @ replicate (length a - rate) 0) ! (k - ?n) =
      ((if k = ?n then 0x01 else 0) XOR (if k = rate - 1 then 0x80 else 0))" if "?n \<le> k" "k < length a" for k
    using that assms by (auto simp: pad_def Let_def nth_append nth_Cons' not_less)
  have lp: "length (pad rate ?n) = rate - ?n" using length_pad [of rate ?n] assms by simp
  have "xorin d rest ?n = xor_block (rest @ pad rate ?n) a"
  proof (rule nth_equalityI)
    show "length (xorin d rest ?n) = length (xor_block (rest @ pad rate ?n) a)"
      using xorin_nth [of ?n d rest] assms by (simp add: len lp xor_block_def)
  next
    fix k assume "k < length (xorin d rest ?n)"
    then have k: "k < length a" using xorin_nth [of ?n d rest] assms by (simp add: len)
    have "xorin d rest ?n ! k = (if k < ?n then d ! k XOR rest ! k else d ! k)"
      using xorin_nth [of ?n d rest] assms k by (simp add: len)
    moreover have "xor_block (rest @ pad rate ?n) a ! k =
        a ! k XOR (if k < ?n then rest ! k else (pad rate ?n @ replicate (length a - rate) 0) ! (k - ?n))"
      using k assms lp by (simp add: xor_block_def nth_append)
    ultimately show "xorin d rest ?n ! k = xor_block (rest @ pad rate ?n) a ! k"
      using dk [OF k] pk [OF _ k] assms by auto
  qed
  then show ?thesis by (simp add: last_block_def Let_def c_def d_def)
qed

lemma absorbed:
  assumes "0 < rate" "rate < 200"
  shows "length a = 200 \<Longrightarrow> foldP_in le rate a inp = (a', rest) \<Longrightarrow>
    keccak_P le (last_block rate a' rest) = absorb (keccak_P le) (blocks_of rate (inp @ pad rate (length inp))) a"
proof (induction "length inp" arbitrary: inp a rule: less_induct)
  case less
  show ?case
  proof (cases "rate \<le> length inp")
    case True
    have x: "xorin a inp rate = xor_block (take rate inp) a"
      using less.prems(1) True assms by (intro xorin_is_block) auto
    have p: "pad rate (length inp) = pad rate (length (drop rate inp))"
      using True by (simp add: pad_def le_mod_geq)
    have "blocks_of rate (inp @ pad rate (length inp)) = take rate inp # blocks_of rate (drop rate inp @ pad rate (length (drop rate inp)))"
      unfolding p by (subst blocks_of.simps) (use True assms in simp)
    moreover have "foldP_in le rate (keccak_P le (xorin a inp rate)) (drop rate inp) = (a', rest)"
      using less.prems(2) True assms by (subst (asm) foldP_in.simps) simp
    ultimately show ?thesis
      using less.hyps [of "drop rate inp" "keccak_P le (xorin a inp rate)"] True assms by (simp add: x)
  next
    case False
    have "a' = a" "rest = inp" using less.prems(2) False by (auto simp: foldP_in.simps)
    moreover have "blocks_of rate (inp @ pad rate (length inp)) = [inp @ pad rate (length inp)]"
      using False assms length_pad [of rate "length inp"]
      by (subst blocks_of.simps, subst blocks_of.simps) simp
    ultimately show ?thesis
      using last_block_is_padded [of inp rate a] False assms less.prems(1) by simp
  qed
qed

lemma keccak_result:
  assumes "foldP_in le 136 (replicate 200 0) data = (a, rest)"
  shows "keccak le junk data = take 32 (keccak_P le (last_block 136 a rest))"
proof -
  have "hash le 32 data 136 0x01 = Some (foldP_out le 136 (keccak_P le (last_block 136 a rest)) 32)"
    by (simp add: hash_def Plen_def assms last_block_def Let_def)
  then show ?thesis by (simp add: keccak_def keccak_256_def foldP_out.simps)
qed

lemma length_keccak [simp]: "length (keccak le junk data) = 32"
  using keccak_result [OF surjective_pairing] by simp

lemma keccak_spec: "keccak True junk data = fips_keccak_256 data"
proof -
  obtain a rest where f: "foldP_in True 136 (replicate 200 0) data = (a, rest)" by (cases "foldP_in True 136 (replicate 200 0) data")
  have "keccak True junk data = take 32 (keccak_P True (last_block 136 a rest))"
    by (rule keccak_result [OF f])
  also have "\<dots> = fips_keccak_256 data"
    unfolding fips_keccak_256_def keccak_P_is_fips [symmetric] using absorbed [OF _ _ _ f] by simp
  finally show ?thesis .
qed

section \<open>Properties\<close>

text \<open>
  C16.
  On a little-endian host \<^verbatim>\<open>keccak\<close> computes Keccak-256: its 32 bytes are the first 32 bytes of the
  sponge of FIPS 202 with the padding of the original Keccak on blocks of 136 bytes, whose permutation
  is given by the step functions on the matrix of lanes.
\<close>

theorem keccak_is_keccak_256: "keccak True junk data = fips_keccak_256 data"
  by (rule keccak_spec)

end
