(* ===== verification/Driver.thy ===== *)
theory Driver
  imports Cache Keccak
begin

text \<open>
  The driver of \<^verbatim>\<open>libevmjit/JIT.cpp\<close>: the code identifier, the map of compiled functions with its hit
  counters, compilation through the object cache and the execution engine, the reset of the engine,
  and \<^verbatim>\<open>execute\<close> from the host's message to the result.  LLVM's engine is a parameter.
\<close>

section \<open>Code identifiers\<close>

definition toChar :: "evmc_revision \<Rightarrow> char" where
  "toChar r =
     (case r of
        EVMC_FRONTIER \<Rightarrow> CHR ''F''
      | EVMC_HOMESTEAD \<Rightarrow> CHR ''H''
      | EVMC_TANGERINE_WHISTLE \<Rightarrow> CHR ''T''
      | EVMC_SPURIOUS_DRAGON \<Rightarrow> CHR ''S''
      | EVMC_BYZANTIUM \<Rightarrow> CHR ''B''
      | EVMC_CONSTANTINOPLE \<Rightarrow> CHR ''C'')"

definition hexChars :: string where
  "hexChars = ''0123456789abcdef''"

definition is_static :: "32 word \<Rightarrow> bool" where
  "is_static flags \<longleftrightarrow> flags AND EVMC_STATIC \<noteq> 0"

definition makeCodeId :: "byte list \<Rightarrow> evmc_revision \<Rightarrow> 32 word \<Rightarrow> string" where
  "makeCodeId codeHash r flags =
     concat (map (\<lambda>b. [hexChars ! unat (drop_bit 4 b), hexChars ! unat (b AND 0xf)]) codeHash) @ [toChar r] @
     (if is_static flags then ''S'' else [])"

section \<open>Modules and the execution engine\<close>

text \<open>The LLVM module of a program: the main function, what the compiler has baked into it (the revision,
  the kind of frame, the code as a global string), whether LLVM's optimisations have run, and the
  division it uses.\<close>

record jit_module =
  mod_main :: main_function
  mod_rev :: evmc_revision
  mod_static :: bool
  mod_code :: "byte list"
  mod_optimized :: bool
  mod_division :: division

text \<open>
  LLVM's MCJIT engine, over object files \<open>'o\<close> and addresses of functions \<open>'f\<close>: the constant folder of
  \<^verbatim>\<open>IRBuilder\<close>; code generation, which may fail; the sizes of the sections that loading an object
  allocates and the function in it; \<^verbatim>\<open>getFunctionAddress\<close> after \<^verbatim>\<open>addModule\<close>, which uses the object
  cache and the memory manager; and running a function on the data of a frame, with fuel for the
  blocks it enters.
\<close>

record ('h, 'fs, 'o, 'f) engine =
  eng_fold :: "instruction \<Rightarrow> val list \<Rightarrow> val option"
  eng_generate :: "jit_module \<Rightarrow> 'o option"
  eng_sections :: "'o \<Rightarrow> i64 list"
  eng_load :: "'o \<Rightarrow> 'f"
  eng_address :: "bool \<Rightarrow> string \<Rightarrow> jit_module engine_module \<Rightarrow> ('fs, 'o) cache \<times> i64 \<Rightarrow> ('f option \<times> ('fs, 'o) cache \<times> i64) outcome"
  eng_run :: "nat \<Rightarrow> 'f \<Rightarrow> 'h env \<Rightarrow> 'h \<Rightarrow> (return_code \<times> 'h rt_state) outcome option"

text \<open>\<^verbatim>\<open>reportMemorySize\<close>, called for every section.\<close>

definition reportMemorySize :: "i64 \<Rightarrow> i64 \<Rightarrow> i64" where
  "reportMemorySize addedSize amount = amount + addedSize"

text \<open>
  The protocol of MCJIT that \<^verbatim>\<open>getFunctionAddress\<close> follows: it asks the object cache, if there is one,
  for the object of the module; without an answer it generates one and hands it to the cache; then it
  loads the object.  What it does with the fake module is left open.
\<close>

definition mcjit_ok :: "('fs, 'o) file_system \<Rightarrow> ('h, 'fs, 'o, 'f) engine \<Rightarrow> bool" where
  "mcjit_ok F E \<longleftrightarrow>
     (\<forall>ident m c x c1 amount. objectCache_getObject c = Done (Some x, c1) \<longrightarrow>
        eng_address E True ident m (c, amount) =
          Done (Some (eng_load E x), c1, fold reportMemorySize (eng_sections E x) amount)) \<and>
     (\<forall>hasCache ident m c c1 amount. (if hasCache then objectCache_getObject c = Done (None, c1) else c1 = c) \<longrightarrow>
        eng_address E hasCache ident (CompiledModule m) (c, amount) =
          (case eng_generate E m of
             None \<Rightarrow> Done (None, c1, amount)
           | Some x \<Rightarrow> obind (if hasCache then notifyObjectCompiled F ident x c1 else Done ((), c1)) (\<lambda>(_, c2).
               Done (Some (eng_load E x), c2, fold reportMemorySize (eng_sections E x) amount))))"

text \<open>The data a frame's function works on: what is baked into the module is not the frame's.\<close>

definition module_env :: "jit_module \<Rightarrow> 'h env \<Rightarrow> 'h env" where
  "module_env m e =
     e\<lparr> e_data := (e_data e)\<lparr> rd_code := mod_code m, rd_codeSize := length (mod_code m) \<rparr>,
        e_rev := mod_rev m, e_static := mod_static m, e_division := mod_division m \<rparr>"

text \<open>A machine function implements a module if it returns what the main function returns, whatever is in the
  memory of its run-time stack, where LLVM gives that a meaning.\<close>

definition implements :: "('h, 'fs, 'o, 'f) engine \<Rightarrow> 'f \<Rightarrow> jit_module \<Rightarrow> bool" where
  "implements E f m \<longleftrightarrow>
     (\<forall>fuel e h r. (\<forall>base. length base = stackSizeLimit \<longrightarrow>
          run_main fuel (module_env m e) (mod_main m) 0 (base, 0) (init_runtime e h) = Some r) \<longrightarrow>
        r \<noteq> Undefined \<longrightarrow> eng_run E fuel f e h = Some r)"

definition codegen_ok :: "('h, 'fs, 'o, 'f) engine \<Rightarrow> bool" where
  "codegen_ok E \<longleftrightarrow> (\<forall>m x. eng_generate E m = Some x \<longrightarrow> implements E (eng_load E x) m)"

section \<open>The state of the JIT\<close>

record 'f code_map_entry =
  func :: "'f option"
  hits :: i64

text \<open>The object \<^verbatim>\<open>JITImpl\<close>, with the memory manager's counter, the state of \<open>Cache\<close> and the options.  The
  buffers for return data and code belong to the model of a run.\<close>

record ('h, 'fs, 'o, 'f) jit =
  m_codeMap :: "string \<rightharpoonup> 'f code_map_entry"
  m_totalMemorySize :: i64
  m_hasCache :: bool
  m_cache :: "('fs, 'o) cache"
  jit_host :: "'h evmc_host option"
  currentMsg :: "evmc_message option"
  hitThreshold :: i64
  g_optimize :: bool
  g_cache :: cache_mode

section \<open>The code map\<close>

definition new_entry :: "'f code_map_entry" where
  "new_entry = \<lparr> func = None, hits = 0 \<rparr>"

definition map_entry :: "string \<Rightarrow> ('h, 'fs, 'o, 'f) jit \<Rightarrow> 'f code_map_entry" where
  "map_entry ident jit = (case m_codeMap jit ident of Some entry \<Rightarrow> entry | None \<Rightarrow> new_entry)"

definition getExecFunc :: "string \<Rightarrow> ('h, 'fs, 'o, 'f) jit \<Rightarrow> 'f code_map_entry \<times> ('h, 'fs, 'o, 'f) jit" where
  "getExecFunc ident jit =
     (let entry = (map_entry ident jit)\<lparr> hits := hits (map_entry ident jit) + 1 \<rparr>
      in (entry, jit\<lparr> m_codeMap := (m_codeMap jit)(ident \<mapsto> entry) \<rparr>))"

definition mapExecFunc :: "string \<Rightarrow> 'f \<Rightarrow> ('h, 'fs, 'o, 'f) jit \<Rightarrow> ('h, 'fs, 'o, 'f) jit" where
  "mapExecFunc ident f jit =
     jit\<lparr> m_codeMap := (m_codeMap jit)(ident \<mapsto> (map_entry ident jit)\<lparr> func := Some f \<rparr>) \<rparr>"

section \<open>Compilation\<close>

definition compile_module :: "('h, 'fs, 'o, 'f) engine \<Rightarrow> evmc_revision \<Rightarrow> bool \<Rightarrow> byte list \<Rightarrow> jit_module" where
  "compile_module E r static code =
     (let cfg = \<lparr> c_rev = r, c_static = static, c_codeSize = length code, c_fold = eng_fold E \<rparr>
      in \<lparr> mod_main = compile cfg code, mod_rev = r, mod_static = static, mod_code = code,
           mod_optimized = False, mod_division = llvm_division \<rparr>)"

text \<open>\<^verbatim>\<open>optimize\<close> runs passes of LLVM and the one that removes longjmp; \<^verbatim>\<open>prepare\<close> lowers the divisions.\<close>

definition optimize :: "jit_module \<Rightarrow> jit_module" where
  "optimize m = m\<lparr> mod_optimized := True \<rparr>"

definition prepare :: "jit_module \<Rightarrow> jit_module" where
  "prepare m = m\<lparr> mod_division := lowered_division \<rparr>"

definition jit_compile ::
    "('fs, 'o) file_system \<Rightarrow> ('h, 'fs, 'o, 'f) engine \<Rightarrow> evmc_revision \<Rightarrow> bool \<Rightarrow> byte list \<Rightarrow> string \<Rightarrow>
     ('h, 'fs, 'o, 'f) jit \<Rightarrow> ('f option \<times> ('h, 'fs, 'o, 'f) jit) outcome" where
  "jit_compile F E r static code ident jit =
     obind (cache_getObject F ident (m_cache jit)) (\<lambda>(found, c1).
       (let module = (case found of
              Some m \<Rightarrow> m
            | None \<Rightarrow>
                (let m = compile_module E r static code;
                     m = (if g_optimize jit then optimize m else m)
                 in CompiledModule (prepare m)))
        in obind (eng_address E (m_hasCache jit) ident module (c1, m_totalMemorySize jit)) (\<lambda>(f, c2, amount).
             Done (f, jit\<lparr> m_cache := c2, m_totalMemorySize := amount \<rparr>))))"

section \<open>The engine's life\<close>

definition createEngine :: "('fs, 'o) file_system \<Rightarrow> ('h, 'fs, 'o, 'f) jit \<Rightarrow> ('h, 'fs, 'o, 'f) jit outcome" where
  "createEngine F jit =
     obind (cache_init F (g_cache jit) None (m_cache jit)) (\<lambda>(has, c).
       Done (jit\<lparr> m_totalMemorySize := 0, m_hasCache := has, m_cache := c \<rparr>))"

text \<open>The constructor, with the options that \<^verbatim>\<open>parseOptions\<close> has found.\<close>

definition JITImpl ::
    "('fs, 'o) file_system \<Rightarrow> bool \<Rightarrow> cache_mode \<Rightarrow> ('fs, 'o) cache \<Rightarrow> ('h, 'fs, 'o, 'f) jit outcome" where
  "JITImpl F opt mode c =
     createEngine F
       \<lparr> m_codeMap = Map.empty, m_totalMemorySize = 0, m_hasCache = False, m_cache = c, jit_host = None,
         currentMsg = None, hitThreshold = 0, g_optimize = opt,
         g_cache = (if mode = Mode_preload then Mode_on else mode) \<rparr>"

definition checkMemorySize :: "('fs, 'o) file_system \<Rightarrow> ('h, 'fs, 'o, 'f) jit \<Rightarrow> ('h, 'fs, 'o, 'f) jit outcome" where
  "checkMemorySize F jit =
     (if m_totalMemorySize jit > 1000 * 1024 * 1024
      then createEngine F (jit\<lparr> m_codeMap := Map.empty \<rparr>)
      else Done jit)"

text \<open>\<^verbatim>\<open>setOption\<close>; \<open>stoul\<close> is the parser of the C++ library, \<open>None\<close> when it throws.\<close>

definition setOption ::
    "(string \<Rightarrow> i64 option) \<Rightarrow> string \<Rightarrow> string \<Rightarrow> ('h, 'fs, 'o, 'f) jit \<Rightarrow> int \<times> ('h, 'fs, 'o, 'f) jit" where
  "setOption stoul name val jit =
     (if name = ''hits-threshold'' then
        (case stoul val of Some n \<Rightarrow> (1, jit\<lparr> hitThreshold := n \<rparr>) | None \<Rightarrow> (0, jit))
      else (0, jit))"

section \<open>Executing a message\<close>

text \<open>The result for the host; \<open>None\<close> for its state where the run was left through longjmp, after which the
  host reverts what the frame did.\<close>

record 'h exec_result =
  res_status :: status_code
  res_gas :: i64
  res_output :: "byte list"
  res_host :: "'h option"

definition getReturnData :: "'h rt_state \<Rightarrow> byte list outcome" where
  "getReturnData s =
     (let (offset, sz) = rt_returnData s
      in if \<not> offset < a_size (rt_mem s) \<or> sz = 0 then Done []
         else use (mem_read (a_data (rt_mem s)) (unat offset) (unat sz)) Done)"

text \<open>From the return code of the function to the result.\<close>

definition frame_result :: "(return_code \<times> 'h rt_state) outcome \<Rightarrow> 'h exec_result outcome" where
  "frame_result r =
     (case r of
        Done (rc, s) \<Rightarrow>
          (let status = (if rc = Revert then EVMC_REVERT else if rc = OutOfGas then EVMC_FAILURE else EVMC_SUCCESS);
               gas = (if rc = OutOfGas then 0 else rt_gas s)
           in obind (if rc = Return \<or> rc = Revert then getReturnData s else Done []) (\<lambda>out.
                Done \<lparr> res_status = status, res_gas = gas, res_output = out, res_host = Some (rt_host s) \<rparr>))
      | LongJmp \<Rightarrow> Done \<lparr> res_status = EVMC_FAILURE, res_gas = 0, res_output = [], res_host = None \<rparr>
      | Undefined \<Rightarrow> Undefined)"

definition early_result :: "status_code \<Rightarrow> 'h \<Rightarrow> 'h exec_result" where
  "early_result status h = \<lparr> res_status = status, res_gas = 0, res_output = [], res_host = Some h \<rparr>"

text \<open>\<^verbatim>\<open>RuntimeData\<close>: addresses are 20 bytes behind 12 zero bytes.\<close>

definition make_runtime_data :: "machine \<Rightarrow> evmc_message \<Rightarrow> byte list \<Rightarrow> byte list \<Rightarrow> runtime_data" where
  "make_runtime_data mc msg dest code =
     \<lparr> rd_gas = msg_gas msg, rd_callData = input_data msg, rd_callDataSize = of_nat (length (input_data msg)),
       rd_value = host_load (little_endian mc) (msg_value msg), rd_code = code, rd_codeSize = length code,
       rd_address = host_load (little_endian mc) (replicate 12 0 @ dest),
       rd_caller = host_load (little_endian mc) (replicate 12 0 @ sender msg), rd_depth = scast (msg_depth msg) \<rparr>"

text \<open>What the compiled function finds: the symbols resolve to the host's functions, \<^verbatim>\<open>keccak\<close>, \<open>call\<close> and
  \<open>getCode\<close>; \<open>call\<close> reads the current message.\<close>

definition make_env ::
    "machine \<Rightarrow> 'h evmc_host \<Rightarrow> evmc_revision \<Rightarrow> evmc_message \<Rightarrow> byte list \<Rightarrow> byte list \<Rightarrow> 'h env" where
  "make_env mc host r msg dest code =
     \<lparr> e_machine = mc, e_host = host, e_sha3 = keccak (little_endian mc) (replicate 32 0), e_msg = (\<lambda>_. msg),
       e_data = make_runtime_data mc msg dest code, e_rev = r, e_static = is_static (msg_flags msg),
       e_division = llvm_division \<rparr>"

text \<open>Finding or compiling the function; \<open>Inl\<close> is the status of an early return.\<close>

definition find_function ::
    "('fs, 'o) file_system \<Rightarrow> ('h, 'fs, 'o, 'f) engine \<Rightarrow> evmc_revision \<Rightarrow> evmc_message \<Rightarrow> byte list \<Rightarrow> string \<Rightarrow>
     ('h, 'fs, 'o, 'f) jit \<Rightarrow> ((status_code + 'f) \<times> ('h, 'fs, 'o, 'f) jit) outcome" where
  "find_function F E r msg code ident jit =
     (let (codeEntry, jit1) = getExecFunc ident jit
      in case func codeEntry of
           Some f \<Rightarrow> Done (Inr f, jit1)
         | None \<Rightarrow>
             if hits codeEntry \<le> hitThreshold jit1 then Done (Inl EVMC_REJECTED, jit1)
             else obind (jit_compile F E r (is_static (msg_flags msg)) code ident jit1) (\<lambda>(found, jit2).
               case found of
                 None \<Rightarrow> Done (Inl EVMC_INTERNAL_ERROR, jit2)
               | Some f \<Rightarrow> Done (Inr f, mapExecFunc ident f jit2)))"

text \<open>
  \<^verbatim>\<open>execute\<close>.  \<open>cur\<close> is what the callback \<open>call\<close> of the frame finds as the current message when the world is
  \<open>h\<close>: the frame's own message, unless the world holds one that other executions have changed.
\<close>

definition execute_in ::
    "(evmc_message \<Rightarrow> 'h \<Rightarrow> evmc_message) \<Rightarrow>
     nat \<Rightarrow> ('fs, 'o) file_system \<Rightarrow> ('h, 'fs, 'o, 'f) engine \<Rightarrow> machine \<Rightarrow> 'h evmc_host \<Rightarrow> 'h \<Rightarrow> evmc_revision \<Rightarrow>
     evmc_message \<Rightarrow> byte list \<Rightarrow> ('h, 'fs, 'o, 'f) jit \<Rightarrow> ('h exec_result \<times> ('h, 'fs, 'o, 'f) jit) outcome option" where
  "execute_in cur fuel F E mc fn_table h r msg code jit =
     (case (destination msg, msg_code_hash msg) of
        (Some dest, Some codeHash) \<Rightarrow>
          (case (if msg_depth msg = 0 then checkMemorySize F jit else Done jit) of
             Done jit1 \<Rightarrow>
               (let jit2 = (if jit_host jit1 = None then jit1\<lparr> jit_host := Some fn_table \<rparr> else jit1);
                    prevMsg = currentMsg jit2;
                    jit3 = jit2\<lparr> currentMsg := Some msg \<rparr>;
                    ident = makeCodeId codeHash r (msg_flags msg)
                in case find_function F E r msg code ident jit3 of
                     Done (Inl status, jit4) \<Rightarrow> Some (Done (early_result status h, jit4))
                   | Done (Inr f, jit4) \<Rightarrow>
                       (let e = (make_env mc (the (jit_host jit4)) r msg dest code)\<lparr> e_msg := cur msg \<rparr>
                        in case eng_run E fuel f e h of
                             None \<Rightarrow> None
                           | Some result \<Rightarrow>
                               Some (obind (frame_result result) (\<lambda>res. Done (res, jit4\<lparr> currentMsg := prevMsg \<rparr>))))
                   | LongJmp \<Rightarrow> Some LongJmp
                   | Undefined \<Rightarrow> Some Undefined)
           | LongJmp \<Rightarrow> Some LongJmp
           | Undefined \<Rightarrow> Some Undefined)
      | _ \<Rightarrow> Some Undefined)"

text \<open>An execution on a host that does not execute other messages itself.\<close>

definition execute ::
    "nat \<Rightarrow> ('fs, 'o) file_system \<Rightarrow> ('h, 'fs, 'o, 'f) engine \<Rightarrow> machine \<Rightarrow> 'h evmc_host \<Rightarrow> 'h \<Rightarrow> evmc_revision \<Rightarrow>
     evmc_message \<Rightarrow> byte list \<Rightarrow> ('h, 'fs, 'o, 'f) jit \<Rightarrow> ('h exec_result \<times> ('h, 'fs, 'o, 'f) jit) outcome option" where
  "execute = execute_in (\<lambda>msg h. msg)"

section \<open>Code identifiers are unique\<close>

lemma hex_digits:
  assumes "[hexChars ! unat (drop_bit 4 a), hexChars ! unat (a AND 0xf)] = [hexChars ! unat (drop_bit 4 b), hexChars ! unat (b AND 0xf)]"
  shows "a = (b :: byte)"
proof -
  have hi: "unat (drop_bit 4 c) = unat c div 16" for c :: byte by (simp add: unat_drop_bit)
  have "c AND 0xf = take_bit 4 c" for c :: byte by (simp add: take_bit_eq_mask mask_eq_exp_minus_1)
  then have lo: "unat (c AND 0xf) = unat c mod 16" for c :: byte by (simp add: take_bit_eq_mod unat_mod)
  have "distinct hexChars" "length hexChars = 16" by (simp_all add: hexChars_def)
  then have inj: "i < 16 \<Longrightarrow> j < 16 \<Longrightarrow> hexChars ! i = hexChars ! j \<Longrightarrow> i = j" for i j by (simp add: nth_eq_iff_index_eq)
  have "unat c div 16 < 16" for c :: byte using unat_lt_exp [of c] by simp
  then have "unat a div 16 = unat b div 16" "unat a mod 16 = unat b mod 16"
    using assms by (simp_all add: hi lo inj)
  then have "unat a = unat b" by (metis div_mult_mod_eq)
  then show ?thesis by (simp only: word_unat_eq_iff)
qed

definition hex_string :: "byte list \<Rightarrow> string" where
  "hex_string bs = concat (map (\<lambda>b. [hexChars ! unat (drop_bit 4 b), hexChars ! unat (b AND 0xf)]) bs)"

lemma length_hex_string: "length (hex_string bs) = 2 * length bs"
  by (induction bs) (simp_all add: hex_string_def)

lemma hex_string_inject: "hex_string as = hex_string bs \<Longrightarrow> as = bs"
proof (induction as arbitrary: bs)
  case Nil
  then show ?case by (cases bs) (simp_all add: hex_string_def)
next
  case (Cons a as)
  then obtain b bs' where bs: "bs = b # bs'" by (cases bs) (simp_all add: hex_string_def)
  have "hex_string as = hex_string bs'" and
    "[hexChars ! unat (drop_bit 4 a), hexChars ! unat (a AND 0xf)] = [hexChars ! unat (drop_bit 4 b), hexChars ! unat (b AND 0xf)]"
    using Cons.prems by (simp_all add: bs hex_string_def)
  then show ?case using Cons.IH hex_digits [of a b] by (simp add: bs)
qed

lemma toChar_inject: "toChar r = toChar r' \<Longrightarrow> r = r'"
  by (cases r; cases r') (simp_all add: toChar_def)

lemma makeCodeId_inject:
  assumes "length h = 32" "length h' = 32" "makeCodeId h r flags = makeCodeId h' r' flags'"
  shows "h = h' \<and> r = r' \<and> (is_static flags \<longleftrightarrow> is_static flags')"
proof -
  have "hex_string h @ toChar r # (if is_static flags then ''S'' else []) =
      hex_string h' @ toChar r' # (if is_static flags' then ''S'' else [])"
    using assms(3) by (simp add: makeCodeId_def hex_string_def)
  moreover have "length (hex_string h) = length (hex_string h')" using assms by (simp add: length_hex_string)
  ultimately show ?thesis by (auto dest: hex_string_inject toChar_inject split: if_splits)
qed

section \<open>The state stays sound\<close>

text \<open>
  \<open>program\<close> gives the code with a hash.  A function is good for an identifier if it implements the module
  of every program with that identifier; by injectivity there is at most one.
\<close>

definition final_module :: "('h, 'fs, 'o, 'f) engine \<Rightarrow> evmc_revision \<Rightarrow> bool \<Rightarrow> byte list \<Rightarrow> jit_module" where
  "final_module E r static code = prepare (compile_module E r static code)"

definition good :: "('h, 'fs, 'o, 'f) engine \<Rightarrow> (byte list \<Rightarrow> byte list) \<Rightarrow> string \<Rightarrow> 'f \<Rightarrow> bool" where
  "good E program ident f \<longleftrightarrow>
     (\<forall>codeHash r flags. length codeHash = 32 \<longrightarrow> ident = makeCodeId codeHash r flags \<longrightarrow>
        implements E f (final_module E r (is_static flags) (program codeHash)))"

definition jit_sound ::
    "('fs, 'o) file_system \<Rightarrow> ('h, 'fs, 'o, 'f) engine \<Rightarrow> (byte list \<Rightarrow> byte list) \<Rightarrow> ('h, 'fs, 'o, 'f) jit \<Rightarrow> bool" where
  "jit_sound F E program jit \<longleftrightarrow>
     cache_idle (m_cache jit) \<and> (m_hasCache jit \<longleftrightarrow> g_mode (m_cache jit) \<noteq> Mode_off) \<and> g_cache jit \<noteq> Mode_clear \<and>
     cache_sound (\<lambda>ident x. good E program ident (eng_load E x)) F (m_cache jit) \<and>
     (\<forall>ident entry f. m_codeMap jit ident = Some entry \<longrightarrow> func entry = Some f \<longrightarrow> good E program ident f)"

lemma implements_optimized [simp]: "implements E f (m\<lparr> mod_optimized := b \<rparr>) = implements E f m"
  by (simp add: implements_def module_env_def)

lemma good_makeCodeId:
  assumes "length codeHash = 32" "implements E f (final_module E r (is_static flags) (program codeHash))"
  shows "good E program (makeCodeId codeHash r flags) f"
proof (unfold good_def, intro allI impI)
  fix h q flags'
  assume "length h = 32" "makeCodeId codeHash r flags = makeCodeId h q flags'"
  with makeCodeId_inject [OF assms(1)] have "codeHash = h \<and> r = q \<and> is_static flags = is_static flags'" by blast
  then show "implements E f (final_module E q (is_static flags') (program h))" using assms(2) by simp
qed

lemma sound_getExecFunc:
  assumes "jit_sound F E program jit" "getExecFunc ident jit = (entry, jit1)"
  shows "jit_sound F E program jit1" "func entry = Some f \<Longrightarrow> good E program ident f"
  using assms by (auto simp: jit_sound_def getExecFunc_def map_entry_def new_entry_def Let_def split: option.splits if_splits)

lemma sound_mapExecFunc: "jit_sound F E program jit \<Longrightarrow> good E program ident f \<Longrightarrow> jit_sound F E program (mapExecFunc ident f jit)"
  by (auto simp: jit_sound_def mapExecFunc_def split: if_splits)

lemma sound_checkMemorySize:
  assumes "jit_sound F E program jit"
  obtains jit' where "checkMemorySize F jit = Done jit'" "jit_sound F E program jit'"
    "jit_host jit' = jit_host jit" "currentMsg jit' = currentMsg jit" "hitThreshold jit' = hitThreshold jit"
proof (cases "m_totalMemorySize jit > 1000 * 1024 * 1024")
  case True
  have idle: "cache_idle (m_cache jit)" "g_cache jit \<noteq> Mode_clear" using assms by (simp_all add: jit_sound_def)
  then have "\<not> x_cacheMutex (m_cache jit)" by (simp add: cache_idle_def)
  then show ?thesis
    using True idle assms
    by (intro that [of "jit\<lparr> m_codeMap := Map.empty, m_totalMemorySize := 0, m_hasCache := g_cache jit \<noteq> Mode_off,
          m_cache := (m_cache jit)\<lparr> g_mode := g_cache jit, g_listener := None, x_cacheMutex := False \<rparr> \<rparr>"])
      (simp_all add: checkMemorySize_def createEngine_def cache_init_eq jit_sound_def cache_idle_def cache_sound_def)
qed (use assms that in \<open>simp add: checkMemorySize_def\<close>)

text \<open>The state in which the search for a function begins.\<close>

lemma checked_jit:
  assumes "jit_sound F E program jit"
  obtains jit1 where "(if msg_depth msg = 0 then checkMemorySize F jit else Done jit) = Done jit1" "jit_sound F E program jit1"
    "jit_host jit1 = jit_host jit" "currentMsg jit1 = currentMsg jit" "hitThreshold jit1 = hitThreshold jit"
    "map_entry ident jit1 = map_entry ident jit \<or> map_entry ident jit1 = new_entry"
proof (cases "msg_depth msg = 0")
  case True
  obtain jit1 where c: "checkMemorySize F jit = Done jit1" "jit_sound F E program jit1"
    "jit_host jit1 = jit_host jit" "currentMsg jit1 = currentMsg jit" "hitThreshold jit1 = hitThreshold jit"
    using sound_checkMemorySize [OF assms] .
  have "map_entry ident jit1 = map_entry ident jit \<or> map_entry ident jit1 = new_entry"
    using c(1) by (auto simp: checkMemorySize_def createEngine_def obind_eq_Done_iff map_entry_def split: if_splits)
  then show ?thesis using True c by (intro that) simp_all
qed (use assms that in simp)

lemma eng_address_found:
  assumes "mcjit_ok F E" "objectCache_getObject c = Done (Some x, c1)"
  shows "eng_address E True ident m (c, amount) = Done (Some (eng_load E x), c1, fold reportMemorySize (eng_sections E x) amount)"
  using assms unfolding mcjit_ok_def by blast

lemma eng_address_generated:
  assumes "mcjit_ok F E" "if hasCache then objectCache_getObject c = Done (None, c1) else c1 = c"
  shows "eng_address E hasCache ident (CompiledModule m) (c, amount) =
    (case eng_generate E m of
       None \<Rightarrow> Done (None, c1, amount)
     | Some x \<Rightarrow> obind (if hasCache then notifyObjectCompiled F ident x c1 else Done ((), c1)) (\<lambda>(_, c2).
         Done (Some (eng_load E x), c2, fold reportMemorySize (eng_sections E x) amount)))"
  using assms unfolding mcjit_ok_def by blast

lemma sound_jit_compile:
  assumes "mcjit_ok F E" "codegen_ok E" "fs_ok F" "jit_sound F E program jit"
    and "length codeHash = 32" "ident = makeCodeId codeHash r flags" "code = program codeHash"
    and gen: "\<And>m. eng_generate E m \<noteq> None"
  obtains f jit' where "jit_compile F E r (is_static flags) code ident jit = Done (Some f, jit')" "good E program ident f"
    "jit_sound F E program jit'" "m_codeMap jit' = m_codeMap jit" "jit_host jit' = jit_host jit"
    "currentMsg jit' = currentMsg jit" "hitThreshold jit' = hitThreshold jit"
proof -
  let ?c = "m_cache jit" and ?P = "\<lambda>ident x. good E program ident (eng_load E x)"
  have idle: "cache_idle ?c" and has: "m_hasCache jit \<longleftrightarrow> g_mode ?c \<noteq> Mode_off" and cs: "cache_sound ?P F ?c"
    using assms(4) by (simp_all add: jit_sound_def)
  have free: "\<not> x_cacheMutex ?c" using idle by (simp add: cache_idle_def)
  let ?found = "if g_mode ?c = Mode_on \<or> g_mode ?c = Mode_read then fs_read F (cache_dir ?c) ident else None"
  show ?thesis
  proof (cases ?found)
    case (Some x)
    let ?c1 = "?c\<lparr> g_lastObject := Some x \<rparr>"
    have get: "cache_getObject F ident ?c = Done (Some FakeModule, ?c1)" using Some by (simp add: cache_getObject_eq [OF idle])
    have hasT: "m_hasCache jit" using Some has by (auto split: if_splits)
    have "objectCache_getObject ?c1 = Done (Some x, ?c)"
      using free idle by (simp add: objectCache_getObject_eq cache_idle_def)
    note addr = eng_address_found [OF assms(1) this]
    have "good E program ident (eng_load E x)" using Some cs by (auto simp: cache_sound_def split: if_splits)
    moreover have j: "jit_compile F E r (is_static flags) code ident jit = Done (Some (eng_load E x),
        jit\<lparr> m_cache := ?c, m_totalMemorySize := fold reportMemorySize (eng_sections E x) (m_totalMemorySize jit) \<rparr>)"
      using hasT by (simp add: jit_compile_def get addr)
    ultimately show ?thesis using assms(4) by (intro that [OF j]) (simp_all add: jit_sound_def)
  next
    case None
    let ?m0 = "compile_module E r (is_static flags) code"
    let ?m = "prepare (if g_optimize jit then optimize ?m0 else ?m0)"
    obtain x where x: "eng_generate E ?m = Some x" using gen by blast
    have get: "cache_getObject F ident ?c = Done (None, ?c)" using None by (simp add: cache_getObject_eq [OF idle])
    have "implements E (eng_load E x) ?m" using assms(2) x by (simp add: codegen_ok_def)
    moreover have "implements E (eng_load E x) ?m = implements E (eng_load E x) (final_module E r (is_static flags) code)"
      by (auto simp: final_module_def prepare_def optimize_def implements_def module_env_def)
    ultimately have good: "good E program ident (eng_load E x)"
      unfolding assms(6) using good_makeCodeId [OF assms(5)] assms(7) by simp
    obtain c2 where c2: "(if m_hasCache jit then notifyObjectCompiled F ident x ?c else Done ((), ?c)) = Done ((), c2)"
      "cache_idle c2" "cache_sound ?P F c2" "g_mode c2 = g_mode ?c"
    proof (cases "m_hasCache jit")
      case True
      then show ?thesis using notifyObjectCompiled_Done [OF idle assms(3) cs good] that by metis
    qed (use that idle cs in simp)
    have "eng_address E (m_hasCache jit) ident (CompiledModule ?m) (?c, m_totalMemorySize jit) =
        Done (Some (eng_load E x), c2, fold reportMemorySize (eng_sections E x) (m_totalMemorySize jit))"
      using eng_address_generated [OF assms(1), of "m_hasCache jit" ?c ?c] objectCache_getObject_idle [OF idle] c2(1) x by simp
    then have j: "jit_compile F E r (is_static flags) code ident jit = Done (Some (eng_load E x),
        jit\<lparr> m_cache := c2, m_totalMemorySize := fold reportMemorySize (eng_sections E x) (m_totalMemorySize jit) \<rparr>)"
      by (simp add: jit_compile_def get Let_def)
    show ?thesis using assms(4) c2 by (intro that [OF j good]) (simp_all add: jit_sound_def)
  qed
qed

section \<open>Finding the function\<close>

text \<open>Code is compiled at a request if it is not yet and the counter passes the threshold with it.\<close>

definition ready :: "string \<Rightarrow> ('h, 'fs, 'o, 'f) jit \<Rightarrow> bool" where
  "ready ident jit \<longleftrightarrow> func (map_entry ident jit) \<noteq> None \<or> hitThreshold jit < hits (map_entry ident jit) + 1"

definition engine_ok :: "('fs, 'o) file_system \<Rightarrow> ('h, 'fs, 'o, 'f) engine \<Rightarrow> bool" where
  "engine_ok F E \<longleftrightarrow>
     fs_ok F \<and> mcjit_ok F E \<and> codegen_ok E \<and> (\<forall>m. eng_generate E m \<noteq> None) \<and>
     (\<forall>e :: 'h env. e_division e = llvm_division \<longrightarrow> folder_ok e (eng_fold E))"

lemma engine_okD:
  fixes E :: "('h, 'fs, 'o, 'f) engine"
  assumes "engine_ok F E"
  shows "fs_ok F" "mcjit_ok F E" "codegen_ok E" "eng_generate E m \<noteq> None"
    "e_division (e :: 'h env) = llvm_division \<Longrightarrow> folder_ok e (eng_fold E)"
  using assms unfolding engine_ok_def by blast+

lemma getExecFunc_fields:
  "getExecFunc ident jit = (entry, jit1) \<Longrightarrow>
    entry = (map_entry ident jit)\<lparr> hits := hits (map_entry ident jit) + 1 \<rparr> \<and>
    jit1 = jit\<lparr> m_codeMap := (m_codeMap jit)(ident \<mapsto> entry) \<rparr>"
  by (auto simp: getExecFunc_def Let_def)

lemma find_function_ready:
  assumes "engine_ok F E" "jit_sound F E program jit" "ready ident jit"
    and "length codeHash = 32" "ident = makeCodeId codeHash r (msg_flags msg)" "code = program codeHash"
  obtains f jit' where "find_function F E r msg code ident jit = Done (Inr f, jit')" "good E program ident f"
    "jit_sound F E program jit'" "jit_host jit' = jit_host jit" "currentMsg jit' = currentMsg jit"
proof -
  note eng = engine_okD [OF assms(1)]
  obtain entry jit1 where get: "getExecFunc ident jit = (entry, jit1)" by fastforce
  note fields = getExecFunc_fields [OF get] and sound = sound_getExecFunc [OF assms(2) get]
  show ?thesis
  proof (cases "func entry")
    case (Some f)
    then show ?thesis using sound fields get by (intro that [of f jit1]) (simp_all add: find_function_def)
  next
    case None
    then have hot: "\<not> hits entry \<le> hitThreshold jit1" using assms(3) fields by (simp add: ready_def)
    obtain f jit2 where c: "jit_compile F E r (is_static (msg_flags msg)) code ident jit1 = Done (Some f, jit2)"
      "good E program ident f" "jit_sound F E program jit2" "jit_host jit2 = jit_host jit1" "currentMsg jit2 = currentMsg jit1"
      using sound_jit_compile [OF eng(2,3,1) sound(1) assms(4-6) eng(4)] by metis
    then show ?thesis
      using None hot fields sound_mapExecFunc [OF c(3,2)] get
      by (intro that [of f "mapExecFunc ident f jit2"]) (simp_all add: find_function_def mapExecFunc_def)
  qed
qed

section \<open>Running it\<close>

lemma make_env_ok:
  assumes "host_ok host" "2 ^ 33 \<le> heap_limit mc" "length (input_data msg) < 2 ^ 63" "length code < 2 ^ 48"
  shows "env_ok (make_env mc host r msg dest code)"
  using assms by (simp add: env_ok_def make_env_def make_runtime_data_def)

lemma folder_ok_lowered: "folder_ok (with_division llvm_division e) folder \<Longrightarrow> folder_ok (with_division lowered_division e) folder"
  unfolding folder_ok_def by (blast intro: word_op_lowered)

text \<open>The module of a program, and the environment its function runs in.\<close>

abbreviation module_config :: "('h, 'fs, 'o, 'f) engine \<Rightarrow> evmc_revision \<Rightarrow> bool \<Rightarrow> byte list \<Rightarrow> config" where
  "module_config E r static code \<equiv> \<lparr> c_rev = r, c_static = static, c_codeSize = length code, c_fold = eng_fold E \<rparr>"

lemma final_module_main: "mod_main (final_module E r static code) = compile (module_config E r static code) code"
  by (simp add: final_module_def prepare_def compile_module_def)

lemma final_module_env:
  assumes "env_ok e" "e_rev e = r" "e_static e = static" "rd_code (e_data e) = code"
  shows "module_env (final_module E r static code) e = with_division lowered_division e"
  using assms env_okD(5) [OF assms(1)] by (simp add: module_env_def final_module_def prepare_def compile_module_def)

lemma implements_runs:
  assumes "implements E f (final_module E r static code)" "env_ok e" "e_rev e = r" "e_static e = static" "rd_code (e_data e) = code"
    and "\<And>base. length base = stackSizeLimit \<Longrightarrow> run_main fuel (with_division lowered_division e)
      (compile (module_config E r static code) code) 0 (base, 0) (init_runtime e h) = Some res"
    and "res \<noteq> Undefined"
  shows "eng_run E fuel f e h = Some res"
  using assms(1,6,7) final_module_env [OF assms(2-5), of E] unfolding implements_def final_module_main by metis

lemma good_runs_lowered:
  fixes e :: "'h env"
  assumes f: "implements E f (final_module E r static code)" and eng: "engine_ok F E"
    and e: "env_ok e" "e_rev e = r" "e_static e = static" "rd_code (e_data e) = code"
    and len: "length code < 2 ^ 48" and gas: "unat (rd_gas (e_data e)) < 2 ^ 47"
    and run: "evm_run fuel (with_division lowered_division e) code 0 [] (init_runtime e h) = Some res" "res \<noteq> Undefined"
  shows "eng_run E fuel f e h = Some res"
proof (rule implements_runs [OF f e _ run(2)])
  fix base :: "word256 list"
  assume base: "length base = stackSizeLimit"
  let ?e = "with_division lowered_division e"
  have "folder_ok ?e (eng_fold E)"
    using engine_okD(5) [OF eng, of "with_division llvm_division e"] by (intro folder_ok_lowered) simp
  then have cfg: "config_ok ?e code (module_config E r static code)" using e by (simp add: config_ok_def)
  have "env_ok ?e" using e(1) by (simp add: env_ok_def)
  then show "run_main fuel ?e (compile (module_config E r static code) code) 0 (base, 0) (init_runtime e h) = Some res"
    by (rule compiled_code_sim [OF _ cfg len base init_runtime_ok(1) [OF gas] run])
qed

lemma good_runs:
  fixes e :: "'h env"
  assumes f: "implements E f (final_module E r static code)" and eng: "engine_ok F E"
    and e: "env_ok e" "e_rev e = r" "e_static e = static" "rd_code (e_data e) = code" "e_division e = llvm_division"
    and len: "length code < 2 ^ 48" and gas: "unat (rd_gas (e_data e)) < 2 ^ 47"
    and run: "evm_run fuel e code 0 [] (init_runtime e h) = Some res" "res \<noteq> Undefined"
  shows "eng_run E fuel f e h = Some res"
proof (rule implements_runs [OF f e(1-4) _ run(2)])
  fix base :: "word256 list"
  assume base: "length base = stackSizeLimit"
  have same: "with_division llvm_division e = e" using e(5) by simp
  have cfg: "config_ok e code (module_config E r static code)" using e engine_okD(5) [OF eng e(5)] by (simp add: config_ok_def)
  show "run_main fuel (with_division lowered_division e) (compile (module_config E r static code) code) 0 (base, 0) (init_runtime e h) = Some res"
    using compiled_code_sim [OF e(1) cfg len base init_runtime_ok(1) [OF gas] run] run_main_lowered [of fuel e] run(2)
    unfolding same by blast
qed

text \<open>An execution of ready code runs a function that is good for its identifier.\<close>

lemma execute_good:
  fixes jit :: "('h, 'fs, 'o, 'f) jit"
  assumes eng: "engine_ok F E" and jit: "jit_sound F E program jit1" "jit_host jit1 = None \<or> jit_host jit1 = Some host"
    and start: "(if msg_depth msg = 0 then checkMemorySize F jit else Done jit) = Done jit1"
    and msg: "destination msg = Some dest" "msg_code_hash msg = Some codeHash" "length codeHash = 32"
    and code: "code = program codeHash"
    and ready: "ready (makeCodeId codeHash r (msg_flags msg)) jit1"
    and e: "e = (make_env mc host r msg dest code)\<lparr> e_msg := cur msg \<rparr>"
  obtains f jit' where "implements E f (final_module E r (is_static (msg_flags msg)) code)"
    "execute_in cur fuel F E mc host h r msg code jit =
       map_option (\<lambda>res. obind (frame_result res) (\<lambda>x. Done (x, jit'))) (eng_run E fuel f e h)"
    "jit_sound F E program jit'" "currentMsg jit' = currentMsg jit1" "jit_host jit' = Some host"
proof -
  let ?ident = "makeCodeId codeHash r (msg_flags msg)"
  define jit3 where "jit3 = jit1\<lparr> jit_host := Some host, currentMsg := Some msg \<rparr>"
  have jit3: "(if jit_host jit1 = None then jit1\<lparr> jit_host := Some host \<rparr> else jit1)\<lparr> currentMsg := Some msg \<rparr> = jit3"
    using jit(2) by (auto simp: jit3_def)
  have "jit_sound F E program jit3" "ready ?ident jit3"
    using jit(1) ready by (simp_all add: jit3_def jit_sound_def ready_def map_entry_def)
  from find_function_ready [OF eng this msg(3) refl code]
  obtain f jit4 where f: "find_function F E r msg code ?ident jit3 = Done (Inr f, jit4)" "good E program ?ident f"
    "jit_sound F E program jit4" "jit_host jit4 = jit_host jit3" .
  have h4: "jit_host jit4 = Some host" using f(4) by (simp add: jit3_def)
  have "currentMsg (if jit_host jit1 = None then jit1\<lparr> jit_host := Some host \<rparr> else jit1) = currentMsg jit1" by simp
  then have "execute_in cur fuel F E mc host h r msg code jit =
      map_option (\<lambda>res. obind (frame_result res) (\<lambda>x. Done (x, jit4\<lparr> currentMsg := currentMsg jit1 \<rparr>))) (eng_run E fuel f e h)"
    unfolding execute_in_def start msg(1,2) prod.case option.case outcome.case Let_def jit3 f(1) sum.case
    by (simp add: h4 e [symmetric] map_option_case split: option.split)
  moreover have "implements E f (final_module E r (is_static (msg_flags msg)) code)"
    using f(2) msg(3) code by (simp add: good_def)
  moreover have "jit_sound F E program (jit4\<lparr> currentMsg := currentMsg jit1 \<rparr>)" using f(3) by (simp add: jit_sound_def)
  ultimately show ?thesis using h4 by (intro that [of f "jit4\<lparr> currentMsg := currentMsg jit1 \<rparr>"]) simp_all
qed

lemma own_message: "(make_env mc host r msg dest code)\<lparr> e_msg := \<lambda>h. msg \<rparr> = make_env mc host r msg dest code"
  by (simp add: make_env_def)

lemma execute_ready:
  fixes jit :: "('h, 'fs, 'o, 'f) jit"
  assumes eng: "engine_ok F E" and jit: "jit_sound F E program jit1" "jit_host jit1 = None \<or> jit_host jit1 = Some host"
    and start: "(if msg_depth msg = 0 then checkMemorySize F jit else Done jit) = Done jit1"
    and msg: "destination msg = Some dest" "msg_code_hash msg = Some codeHash" "length codeHash = 32"
      "unat (msg_gas msg) < 2 ^ 47" "length (input_data msg) < 2 ^ 63"
    and code: "code = program codeHash" "length code < 2 ^ 48"
    and host: "host_ok host" "2 ^ 33 \<le> heap_limit mc"
    and ready: "ready (makeCodeId codeHash r (msg_flags msg)) jit1"
    and e: "e = make_env mc host r msg dest code"
    and fuel: "enough_fuel code 0 (init_runtime e h) \<le> fuel"
  shows "\<exists>res jit'. evm_run fuel e code 0 [] (init_runtime e h) = Some res \<and>
    (res \<noteq> Undefined \<longrightarrow>
      execute fuel F E mc host h r msg code jit = Some (obind (frame_result res) (\<lambda>x. Done (x, jit')))) \<and>
    jit_sound F E program jit' \<and> currentMsg jit' = currentMsg jit1 \<and> jit_host jit' = Some host"
proof -
  have e': "e = (make_env mc host r msg dest code)\<lparr> e_msg := \<lambda>h. msg \<rparr>" by (simp add: e own_message)
  obtain f jit' where f: "implements E f (final_module E r (is_static (msg_flags msg)) code)"
    "execute fuel F E mc host h r msg code jit =
       map_option (\<lambda>res. obind (frame_result res) (\<lambda>x. Done (x, jit'))) (eng_run E fuel f e h)"
    "jit_sound F E program jit'" "currentMsg jit' = currentMsg jit1" "jit_host jit' = Some host"
    using execute_good [where cur = "\<lambda>msg h. msg", OF eng jit start msg(1-3) code(1) ready e'] unfolding execute_def by metis
  have env: "env_ok e" unfolding e by (rule make_env_ok [OF host msg(5) code(2)])
  have gas: "unat (rd_gas (e_data e)) < 2 ^ 47" using msg(4) by (simp add: e make_env_def make_runtime_data_def)
  obtain res where res: "evm_run fuel e code 0 [] (init_runtime e h) = Some res"
    using evm_run_returns [OF env init_runtime_ok(1) [OF gas] fuel, of "[]"] by auto
  have "res \<noteq> Undefined \<Longrightarrow> eng_run E fuel f e h = Some res"
    by (rule good_runs [OF f(1) eng env _ _ _ _ code(2) gas res]) (simp_all add: e make_env_def make_runtime_data_def)
  then show ?thesis using f res by (intro exI [of _ res] exI [of _ jit']) simp
qed

section \<open>Return data\<close>

lemma return_data_in_memory:
  assumes "env_ok e" "rt_ok s" "code_RETURN e args s = Done s'"
  shows "getReturnData s' = Done (take (unat (arg args 1)) (drop (unat (arg args 0)) (a_data (rt_mem s'))))"
proof -
  let ?off = "arg args 0" and ?len = "arg args 1"
  obtain s1 where r: "rt_require ?off ?len s = Done s1" and s': "s' = registerReturnData ?off ?len s1"
    using assms by (auto simp: code_RETURN_eq obind_eq_Done_iff)
  note d = rt_require_Done [OF assms(2) r]
  show ?thesis
  proof (cases "unat ?len = 0")
    case True
    then have "(ucast ?len :: i64) = 0" by (simp add: unat_eq_0)
    then show ?thesis using True by (simp add: s' getReturnData_def registerReturnData_def)
  next
    case False
    have in_mem: "unat ?off + unat ?len \<le> length (a_data (rt_mem s1))" "unat ?off + unat ?len < 2 ^ 33" using d(4) False by simp_all
    have u: "unat (ucast ?off :: i64) = unat ?off" "unat (ucast ?len :: i64) = unat ?len"
      using in_mem(2) by (simp_all add: unsigned_ucast_eq take_bit_nat_eq_self)
    have "unat (a_size (rt_mem s1)) = length (a_data (rt_mem s1))" using rt_okD(4) [OF d(1)] by (simp add: mem_ok_def)
    then have "(ucast ?off :: i64) < a_size (rt_mem s1)" using in_mem(1) False by (simp add: word_less_nat_alt u)
    moreover have "(ucast ?len :: i64) \<noteq> 0" using u(2) False by (metis unsigned_0)
    ultimately show ?thesis
      using in_mem by (simp add: s' getReturnData_def registerReturnData_def u mem_read_def)
  qed
qed

lemma evm_step_return_data:
  assumes "env_ok e" "rt_ok s" "evm_step e code pc S s = Done (Halt rc, S', s')" "rc = Return \<or> rc = Revert"
  shows "\<exists>out. getReturnData s' = Done out"
proof -
  obtain s1 where p: "pay (nat (getStepCost (e_rev e) (instr_at code pc))) s = Done s1"
    and x: "evm_instr e code pc S s1 = Done (Halt rc, S', s')"
    using assms(3) by (auto simp: evm_step_def obind_eq_Done_iff)
  note s1 = pay_ok(1) [OF assms(2) p]
  obtain inst where x: "evm_exec e code pc inst S s1 = Done (Halt rc, S', s')"
    using x assms(4) by (auto simp: evm_instr_def split: option.splits if_splits)
  then have "inst = RETURN \<or> inst = REVERT"
    using assms(4) by (cases inst) (auto simp: evm_exec_def on_stack_def evm_value_def evm_effect_def obind_eq_Done_iff jump_to_def
        split: option.splits if_splits list.splits)
  then obtain args where "code_RETURN e args s1 = Done s'"
    using x by (auto simp: evm_exec_def evm_effect_def exec_effect_def obind_eq_Done_iff split: if_splits)
  then show ?thesis using return_data_in_memory [OF assms(1) s1] by blast
qed

lemma frame_result_defined:
  assumes "env_ok e"
  shows "rt_ok s \<Longrightarrow> evm_run fuel e code pc S s = Some res \<Longrightarrow> res \<noteq> Undefined \<Longrightarrow> \<exists>x. frame_result res = Done x"
proof (induction fuel arbitrary: pc S s)
  case (Suc fuel)
  show ?case
  proof (cases "pc < length code")
    case True
    show ?thesis
    proof (cases "evm_step e code pc S s")
      case (Done x)
      obtain nxt S1 s1 where x: "x = (nxt, S1, s1)" by (cases x)
      note step = Done [unfolded x] and ok = evm_step_Done(1) [OF assms Suc.prems(1) Done [unfolded x]]
      show ?thesis
      proof (cases nxt)
        case (Halt rc)
        have "res = Done (rc, s1)" using Suc.prems(2) True step Halt by simp
        then show ?thesis
          using evm_step_return_data [OF assms Suc.prems(1) step [unfolded Halt]] by (auto simp: frame_result_def Let_def)
      qed (use Suc True step ok in auto)
    qed (use Suc.prems True in \<open>auto simp: frame_result_def\<close>)
  qed (use Suc.prems in \<open>auto simp: frame_result_def Let_def\<close>)
qed simp

section \<open>Rejected messages\<close>

definition no_reset :: "evmc_message \<Rightarrow> ('h, 'fs, 'o, 'f) jit \<Rightarrow> bool" where
  "no_reset msg jit \<longleftrightarrow> msg_depth msg \<noteq> 0 \<or> m_totalMemorySize jit \<le> 1000 * 1024 * 1024"

lemma no_reset_start: "no_reset msg jit \<Longrightarrow> (if msg_depth msg = 0 then checkMemorySize F jit else Done jit) = Done jit"
  by (auto simp: no_reset_def checkMemorySize_def)

text \<open>The state after a message was rejected.\<close>

definition after_reject :: "'h evmc_host \<Rightarrow> evmc_message \<Rightarrow> string \<Rightarrow> ('h, 'fs, 'o, 'f) jit \<Rightarrow> ('h, 'fs, 'o, 'f) jit" where
  "after_reject host msg ident jit =
     (if jit_host jit = None then jit\<lparr> jit_host := Some host \<rparr> else jit)
       \<lparr> currentMsg := Some msg,
         m_codeMap := (m_codeMap jit)(ident \<mapsto> \<lparr> func = None, hits = hits (map_entry ident jit) + 1 \<rparr>) \<rparr>"

lemma execute_in_reject:
  assumes "no_reset msg jit" "destination msg = Some dest" "msg_code_hash msg = Some codeHash"
    and ident: "ident = makeCodeId codeHash r (msg_flags msg)"
    and new: "func (map_entry ident jit) = None" "hits (map_entry ident jit) + 1 \<le> hitThreshold jit"
  shows "execute_in cur fuel F E mc host h r msg code jit = Some (Done (early_result EVMC_REJECTED h, after_reject host msg ident jit))"
proof -
  define jit3 where "jit3 = (if jit_host jit = None then jit\<lparr> jit_host := Some host \<rparr> else jit)\<lparr> currentMsg := Some msg \<rparr>"
  have entry: "map_entry ident jit3 = map_entry ident jit" "hitThreshold jit3 = hitThreshold jit" "m_codeMap jit3 = m_codeMap jit"
    by (simp_all add: jit3_def map_entry_def)
  have hit: "(map_entry ident jit)\<lparr> hits := n \<rparr> = \<lparr> func = None, hits = n \<rparr>" for n using new(1) by (cases "map_entry ident jit") simp
  have "find_function F E r msg code ident jit3 = Done (Inl EVMC_REJECTED, after_reject host msg ident jit)"
    using new entry by (simp add: find_function_def getExecFunc_def Let_def hit) (simp add: jit3_def after_reject_def)
  then show ?thesis
    unfolding execute_in_def no_reset_start [OF assms(1)] assms(2,3) prod.case option.case outcome.case Let_def jit3_def [symmetric]
      ident [symmetric] by simp
qed

lemmas execute_reject = execute_in_reject [where cur = "\<lambda>msg h. msg", folded execute_def]

lemma after_reject_simps [simp]:
  "map_entry ident (after_reject host msg ident jit) = \<lparr> func = None, hits = hits (map_entry ident jit) + 1 \<rparr>"
  "hitThreshold (after_reject host msg ident jit) = hitThreshold jit"
  "m_totalMemorySize (after_reject host msg ident jit) = m_totalMemorySize jit"
  "currentMsg (after_reject host msg ident jit) = Some msg"
  "jit_host (after_reject host msg ident jit) = (if jit_host jit = None then Some host else jit_host jit)"
  "no_reset msg' (after_reject host msg ident jit) = no_reset msg' jit"
  by (simp_all add: after_reject_def map_entry_def no_reset_def)

lemma after_reject_sound: "jit_sound F E program jit \<Longrightarrow> jit_sound F E program (after_reject host msg ident jit)"
  by (auto simp: jit_sound_def after_reject_def split: if_splits)

text \<open>The same message again and again, the host's state being the same each time.\<close>

fun execute_times ::
    "nat \<Rightarrow> nat \<Rightarrow> ('fs, 'o) file_system \<Rightarrow> ('h, 'fs, 'o, 'f) engine \<Rightarrow> machine \<Rightarrow> 'h evmc_host \<Rightarrow> 'h \<Rightarrow> evmc_revision \<Rightarrow>
     evmc_message \<Rightarrow> byte list \<Rightarrow> ('h, 'fs, 'o, 'f) jit \<Rightarrow> ('h exec_result list \<times> ('h, 'fs, 'o, 'f) jit) outcome option" where
  "execute_times 0 fuel F E mc host h r msg code jit = Some (Done ([], jit))"
| "execute_times (Suc n) fuel F E mc host h r msg code jit =
     (case execute fuel F E mc host h r msg code jit of
        Some (Done (x, jit1)) \<Rightarrow>
          map_option (\<lambda>t. obind t (\<lambda>(xs, jit2). Done (x # xs, jit2))) (execute_times n fuel F E mc host h r msg code jit1)
      | Some LongJmp \<Rightarrow> Some LongJmp
      | Some Undefined \<Rightarrow> Some Undefined
      | None \<Rightarrow> None)"

lemma execute_times_reject:
  fixes jit :: "('h, 'fs, 'o, 'f) jit"
  assumes "no_reset msg jit" "destination msg = Some dest" "msg_code_hash msg = Some codeHash"
    and ident: "ident = makeCodeId codeHash r (msg_flags msg)"
    and "func (map_entry ident jit) = None" "unat (hits (map_entry ident jit)) + n \<le> unat (hitThreshold jit)"
    and "jit_sound F E program jit" "jit_host jit = None \<or> jit_host jit = Some host"
  shows "\<exists>jit'. execute_times n fuel F E mc host h r msg code jit = Some (Done (replicate n (early_result EVMC_REJECTED h), jit')) \<and>
    no_reset msg jit' \<and> func (map_entry ident jit') = None \<and>
    unat (hits (map_entry ident jit')) = unat (hits (map_entry ident jit)) + n \<and> hitThreshold jit' = hitThreshold jit \<and>
    jit_sound F E program jit' \<and> (jit_host jit' = None \<or> jit_host jit' = Some host)"
  using assms(1,5-)
proof (induction n arbitrary: jit)
  case (Suc n)
  let ?jit = "after_reject host msg ident jit"
  have u: "unat (hits (map_entry ident jit) + 1) = unat (hits (map_entry ident jit)) + 1"
    using Suc.prems(3) unat_lt_exp [of "hitThreshold jit"] by (subst unat_add_no_wrap) simp_all
  then have "hits (map_entry ident jit) + 1 \<le> hitThreshold jit" using Suc.prems(3) by (simp add: word_le_nat_alt)
  note x = execute_reject [OF Suc.prems(1) assms(2,3) ident Suc.prems(2) this]
  have "\<exists>jit'. execute_times n fuel F E mc host h r msg code ?jit = Some (Done (replicate n (early_result EVMC_REJECTED h), jit')) \<and>
    no_reset msg jit' \<and> func (map_entry ident jit') = None \<and>
    unat (hits (map_entry ident jit')) = unat (hits (map_entry ident ?jit)) + n \<and> hitThreshold jit' = hitThreshold ?jit \<and>
    jit_sound F E program jit' \<and> (jit_host jit' = None \<or> jit_host jit' = Some host)"
    using Suc.prems u by (intro Suc.IH after_reject_sound) auto
  then show ?case using u by (auto simp: x)
qed simp

section \<open>A concrete engine\<close>

definition sample_engine :: "('h, (string \<times> jit_module) list, jit_module, jit_module) engine" where
  "sample_engine =
     \<lparr> eng_fold = (\<lambda>_ _. None), eng_generate = Some, eng_sections = (\<lambda>_. [4096, 512]), eng_load = (\<lambda>m. m),
       eng_address = (\<lambda>hasCache ident m (c, amount).
         obind (if hasCache then objectCache_getObject c else Done (None, c)) (\<lambda>(ob, c1).
           case ob of
             Some x \<Rightarrow> Done (Some x, c1, fold reportMemorySize [4096, 512] amount)
           | None \<Rightarrow> (case m of
               FakeModule \<Rightarrow> Done (None, c1, amount)
             | CompiledModule x \<Rightarrow> obind (if hasCache then notifyObjectCompiled map_fs ident x c1 else Done ((), c1)) (\<lambda>(_, c2).
                 Done (Some x, c2, fold reportMemorySize [4096, 512] amount))))),
       eng_run = (\<lambda>fuel m e h. run_main fuel (module_env m e) (mod_main m) 0 (replicate 1024 0, 0) (init_runtime e h)) \<rparr>"

lemma sample_engine_ok: "engine_ok map_fs (sample_engine :: ('h, _, _, _) engine)"
proof -
  have "mcjit_ok map_fs (sample_engine :: ('h, _, _, _) engine)"
    unfolding mcjit_ok_def by (auto simp: sample_engine_def)
  moreover have "codegen_ok (sample_engine :: ('h, _, _, _) engine)"
    by (simp add: codegen_ok_def sample_engine_def implements_def stackSizeLimit_def)
  moreover have "folder_ok e (\<lambda>_ _. None)" for e :: "'h env" by (simp add: folder_ok_def)
  ultimately show ?thesis by (simp add: engine_ok_def map_fs_ok) (simp add: sample_engine_def)
qed

section \<open>A new instance\<close>

lemma JITImpl_sound:
  assumes "cache_idle c" "mode \<noteq> Mode_clear" "cache_sound (\<lambda>ident x. good E program ident (eng_load E x)) F c"
  obtains jit where "JITImpl F opt mode c = Done jit" "jit_sound F E program jit" "jit_host jit = None" "hitThreshold jit = 0"
    "m_codeMap jit = Map.empty" "m_totalMemorySize jit = 0" "currentMsg jit = None"
proof -
  let ?mode = "if mode = Mode_preload then Mode_on else mode"
  have free: "\<not> x_cacheMutex c" using assms(1) by (simp add: cache_idle_def)
  show ?thesis
    using assms
    by (intro that [of "\<lparr> m_codeMap = Map.empty, m_totalMemorySize = 0, m_hasCache = ?mode \<noteq> Mode_off,
          m_cache = c\<lparr> g_mode := ?mode, g_listener := None, x_cacheMutex := False \<rparr>, jit_host = None, currentMsg = None,
          hitThreshold = 0, g_optimize = opt, g_cache = ?mode \<rparr>"])
      (auto simp: JITImpl_def createEngine_def cache_init_eq [OF free] jit_sound_def cache_idle_def cache_sound_def)
qed

section \<open>A concrete instance\<close>

definition sample_jit :: "i64 \<Rightarrow> ('h, (string \<times> jit_module) list, jit_module, jit_module) jit" where
  "sample_jit threshold =
     \<lparr> m_codeMap = Map.empty, m_totalMemorySize = 0, m_hasCache = True, m_cache = empty_cache Mode_on [], jit_host = None,
       currentMsg = None, hitThreshold = threshold, g_optimize = False, g_cache = Mode_on \<rparr>"

abbreviation sample_frame_env :: "nat env" where
  "sample_frame_env \<equiv>
     make_env (e_machine sample_frame) sample_host EVMC_BYZANTIUM (sample_msg False 1) (replicate 20 2) sample_code"

abbreviation sample_fuel :: nat where
  "sample_fuel \<equiv> enough_fuel sample_code 0 (init_runtime sample_frame_env 0)"

abbreviation sample_result :: "nat exec_result" where
  "sample_result \<equiv> \<lparr> res_status = EVMC_SUCCESS, res_gas = 99985, res_output = [], res_host = Some 0 \<rparr>"

lemma sample_jit_sound: "jit_sound map_fs sample_engine (\<lambda>_. sample_code) (sample_jit threshold)"
  by (simp add: jit_sound_def sample_jit_def cache_idle_def empty_cache_def cache_sound_def map_fs_def)

lemma sample_jit_simps [simp]:
  "jit_host (sample_jit t) = None" "hitThreshold (sample_jit t) = t" "map_entry ident (sample_jit t) = new_entry"
  "m_codeMap (sample_jit t) = Map.empty" "no_reset msg (sample_jit t)" "currentMsg (sample_jit t) = None"
  by (simp_all add: sample_jit_def map_entry_def no_reset_def)

lemma sample_frame_run:
  "evm_run sample_fuel sample_frame_env sample_code 0 [] (init_runtime sample_frame_env 0) =
     Some (Done (Stop, (init_runtime sample_frame_env 0)\<lparr> rt_gas := 99985 \<rparr>))"
  by (rule evm_run_more_fuel [OF sample_run_any])
    (simp_all add: init_runtime_def make_env_def make_runtime_data_def sample_msg_def enough_fuel_def)

lemma sample_frame_result: "frame_result (Done (Stop, (init_runtime sample_frame_env 0)\<lparr> rt_gas := 99985 \<rparr>)) = Done sample_result"
  by (simp add: frame_result_def init_runtime_def)

section \<open>Properties\<close>

text \<open>A message the host may send: a destination, the hash of the code, gas below the price of 8 GiB of
  memory, and input of a size that fits.\<close>

definition message_ok :: "evmc_message \<Rightarrow> byte list \<Rightarrow> byte list \<Rightarrow> bool" where
  "message_ok msg dest codeHash \<longleftrightarrow>
     destination msg = Some dest \<and> msg_code_hash msg = Some codeHash \<and> length codeHash = 32 \<and>
     unat (msg_gas msg) < 2 ^ 47 \<and> length (input_data msg) < 2 ^ 63"

lemma sample_msg_ok: "message_ok (sample_msg False 1) (replicate 20 2) (replicate 32 9)"
  by (simp add: message_ok_def sample_msg_def)

lemma execute_ready_result:
  fixes jit :: "('h, 'fs, 'o, 'f) jit"
  assumes "engine_ok F E" "jit_sound F E program jit1" "jit_host jit1 = None \<or> jit_host jit1 = Some host"
    and "(if msg_depth msg = 0 then checkMemorySize F jit else Done jit) = Done jit1"
    and "message_ok msg dest codeHash" "code = program codeHash" "length code < 2 ^ 48"
    and "host_ok host" "2 ^ 33 \<le> heap_limit mc" "ready (makeCodeId codeHash r (msg_flags msg)) jit1"
    and e: "e = make_env mc host r msg dest code" and "enough_fuel code 0 (init_runtime e h) \<le> fuel"
  shows "\<exists>res x jit'. evm_run fuel e code 0 [] (init_runtime e h) = Some res \<and>
    (res \<noteq> Undefined \<longrightarrow> frame_result res = Done x \<and> execute fuel F E mc host h r msg code jit = Some (Done (x, jit'))) \<and>
    jit_sound F E program jit' \<and> currentMsg jit' = currentMsg jit1 \<and> jit_host jit' = Some host"
proof -
  note msg = assms(5) [unfolded message_ok_def]
  obtain res jit' where r: "evm_run fuel e code 0 [] (init_runtime e h) = Some res"
    "res \<noteq> Undefined \<longrightarrow> execute fuel F E mc host h r msg code jit = Some (obind (frame_result res) (\<lambda>x. Done (x, jit')))"
    "jit_sound F E program jit'" "currentMsg jit' = currentMsg jit1" "jit_host jit' = Some host"
    using execute_ready [OF assms(1-4) _ _ _ _ _ assms(6-12)] msg by blast
  have "env_ok e" unfolding e using msg by (intro make_env_ok assms) simp_all
  moreover have "rt_ok (init_runtime e h)" using msg by (intro init_runtime_ok) (simp add: e make_env_def make_runtime_data_def)
  ultimately have "res \<noteq> Undefined \<Longrightarrow> \<exists>x. frame_result res = Done x" using frame_result_defined r(1) by blast
  then show ?thesis using r by (cases "res = Undefined") auto
qed

text \<open>
  C6. Executing a message runs its code.  With an engine that keeps LLVM's promises, a sound code map and
  object cache, hashes that identify code, and the default threshold: whatever the interpreter returns
  for the message's frame, \<^verbatim>\<open>execute\<close> returns the result of that run, however the function was found
  (in the code map, in the object cache, or compiled), with its output taken from the memory; it
  restores the current message, and the code map and the cache stay sound for the next message.
\<close>

theorem execute_runs_the_code:
  fixes jit :: "('h, 'fs, 'o, 'f) jit"
  assumes "engine_ok F E" "jit_sound F E program jit" "jit_host jit = None \<or> jit_host jit = Some host"
    and "message_ok msg dest codeHash" "code = program codeHash" "length code < 2 ^ 48"
    and "host_ok host" "2 ^ 33 \<le> heap_limit mc"
    and "hitThreshold jit = 0" "hits (map_entry (makeCodeId codeHash r (msg_flags msg)) jit) \<noteq> - 1"
    and "e = make_env mc host r msg dest code" "enough_fuel code 0 (init_runtime e h) \<le> fuel"
  shows "\<exists>res x jit'. evm_run fuel e code 0 [] (init_runtime e h) = Some res \<and>
    (res \<noteq> Undefined \<longrightarrow> frame_result res = Done x \<and> execute fuel F E mc host h r msg code jit = Some (Done (x, jit'))) \<and>
    jit_sound F E program jit' \<and> currentMsg jit' = currentMsg jit \<and> jit_host jit' = Some host"
proof -
  let ?ident = "makeCodeId codeHash r (msg_flags msg)"
  obtain jit1 where start: "(if msg_depth msg = 0 then checkMemorySize F jit else Done jit) = Done jit1" "jit_sound F E program jit1"
    and same: "jit_host jit1 = jit_host jit" "currentMsg jit1 = currentMsg jit" "hitThreshold jit1 = hitThreshold jit"
    and "map_entry ?ident jit1 = map_entry ?ident jit \<or> map_entry ?ident jit1 = new_entry"
    using checked_jit [OF assms(2)] by metis
  then have "hits (map_entry ?ident jit1) \<noteq> - 1" using assms(10) by (auto simp: new_entry_def)
  then have "ready ?ident jit1"
    using same(3) assms(9) by (simp add: ready_def word_neq_0_conv [symmetric] add_eq_0_iff2)
  then show ?thesis
    using execute_ready_result [OF assms(1) start(2) _ start(1) assms(4-8) _ assms(11,12)] assms(3) same by metis
qed

theorem execute_runs_the_code_witness:
  "\<exists>jit'. execute sample_fuel map_fs sample_engine (e_machine sample_frame) sample_host 0 EVMC_BYZANTIUM (sample_msg False 1)
     sample_code (sample_jit 0) = Some (Done (sample_result, jit')) \<and> currentMsg jit' = None"
proof -
  have "2 ^ 33 \<le> heap_limit (e_machine sample_frame)" by simp
  note run = execute_runs_the_code [where jit = "sample_jit 0" and r = EVMC_BYZANTIUM and h = 0, OF sample_engine_ok
      sample_jit_sound disjI1 sample_msg_ok refl sample_short sample_host_ok this _ _ refl order_refl]
  show ?thesis using run by (auto simp: sample_frame_run sample_frame_result new_entry_def)
qed

text \<open>
  C15. Code gets compiled once it is hot.  Under a threshold \<open>t\<close> the first \<open>t\<close> executions of a program that is
  not in the code map are rejected, each without an effect on the host, and the next one runs it.
\<close>

theorem hot_code_is_compiled:
  fixes jit :: "('h, 'fs, 'o, 'f) jit"
  assumes "engine_ok F E" "jit_sound F E program jit" "jit_host jit = None \<or> jit_host jit = Some host"
    and "message_ok msg dest codeHash" "code = program codeHash" "length code < 2 ^ 48"
    and "host_ok host" "2 ^ 33 \<le> heap_limit mc" "no_reset msg jit"
    and "m_codeMap jit (makeCodeId codeHash r (msg_flags msg)) = None" "unat (hitThreshold jit) < 2 ^ 64 - 1"
    and "e = make_env mc host r msg dest code" "enough_fuel code 0 (init_runtime e h) \<le> fuel"
  shows "\<exists>jit1 res x jit2.
    execute_times (unat (hitThreshold jit)) fuel F E mc host h r msg code jit =
      Some (Done (replicate (unat (hitThreshold jit)) (early_result EVMC_REJECTED h), jit1)) \<and>
    evm_run fuel e code 0 [] (init_runtime e h) = Some res \<and>
    (res \<noteq> Undefined \<longrightarrow> frame_result res = Done x \<and> execute fuel F E mc host h r msg code jit1 = Some (Done (x, jit2)))"
proof -
  let ?ident = "makeCodeId codeHash r (msg_flags msg)" and ?n = "unat (hitThreshold jit)"
  have new: "map_entry ?ident jit = new_entry" using assms(10) by (simp add: map_entry_def)
  note msg = assms(4) [unfolded message_ok_def]
  obtain jit1 where t: "execute_times ?n fuel F E mc host h r msg code jit = Some (Done (replicate ?n (early_result EVMC_REJECTED h), jit1))"
    "no_reset msg jit1" "func (map_entry ?ident jit1) = None" "unat (hits (map_entry ?ident jit1)) = ?n"
    "hitThreshold jit1 = hitThreshold jit" "jit_sound F E program jit1" "jit_host jit1 = None \<or> jit_host jit1 = Some host"
    using execute_times_reject [OF assms(9) _ _ refl _ _ assms(2,3), of dest codeHash r ?n, where fuel = fuel and mc = mc and h = h and code = code]
      msg by (auto simp: new new_entry_def)
  have "unat (hits (map_entry ?ident jit1) + 1) = ?n + 1" using t(4) assms(11) by (subst unat_add_no_wrap) simp_all
  then have "ready ?ident jit1" using t(5) by (simp add: ready_def word_less_nat_alt)
  then show ?thesis
    using execute_ready_result [OF assms(1) t(6,7) no_reset_start [OF t(2)] assms(4-8) _ assms(12,13)] t(1) by blast
qed

theorem hot_code_is_compiled_witness:
  "\<exists>jit1 jit2. execute_times 2 sample_fuel map_fs sample_engine (e_machine sample_frame) sample_host 0 EVMC_BYZANTIUM
      (sample_msg False 1) sample_code (sample_jit 2) =
      Some (Done (replicate 2 (early_result EVMC_REJECTED 0), jit1)) \<and>
    execute sample_fuel map_fs sample_engine (e_machine sample_frame) sample_host 0 EVMC_BYZANTIUM (sample_msg False 1)
      sample_code jit1 = Some (Done (sample_result, jit2))"
proof -
  have "2 ^ 33 \<le> heap_limit (e_machine sample_frame)" by simp
  note run = hot_code_is_compiled [where jit = "sample_jit 2" and r = EVMC_BYZANTIUM and h = 0, OF sample_engine_ok
      sample_jit_sound disjI1 sample_msg_ok refl sample_short sample_host_ok this _ _ _ refl order_refl]
  show ?thesis using run by (auto simp: sample_frame_run sample_frame_result)
qed

text \<open>
  C17. A rejected message stays the current one.  Below the threshold \<^verbatim>\<open>execute\<close> answers EVMC_REJECTED, counts
  the hit and leaves the host alone, but it returns without restoring the current message: a frame
  whose call was rejected goes on with the message of its callee, from which its later calls take
  sender, value, depth and flags.
\<close>

theorem rejected_message_stays_current:
  assumes "no_reset msg jit" "destination msg = Some dest" "msg_code_hash msg = Some codeHash"
    and "ident = makeCodeId codeHash r (msg_flags msg)"
    and "func (map_entry ident jit) = None" "hits (map_entry ident jit) + 1 \<le> hitThreshold jit"
  shows "\<exists>jit'. execute fuel F E mc host h r msg code jit = Some (Done (early_result EVMC_REJECTED h, jit')) \<and>
    currentMsg jit' = Some msg \<and> hits (map_entry ident jit') = hits (map_entry ident jit) + 1 \<and>
    func (map_entry ident jit') = None \<and> (\<forall>other. other \<noteq> ident \<longrightarrow> m_codeMap jit' other = m_codeMap jit other) \<and>
    m_cache jit' = m_cache jit"
  using execute_reject [OF assms] by (intro exI [of _ "after_reject host msg ident jit"]) (simp add: after_reject_def map_entry_def)

theorem rejected_message_stays_current_witness:
  "\<exists>jit'. execute 0 map_fs sample_engine (e_machine sample_frame) sample_host 0 EVMC_BYZANTIUM (sample_msg True 1)
     sample_code ((sample_jit 1)\<lparr> currentMsg := Some (sample_msg False 0) \<rparr>) = Some (Done (early_result EVMC_REJECTED 0, jit')) \<and>
   currentMsg jit' = Some (sample_msg True 1)"
proof -
  have "no_reset (sample_msg True 1) ((sample_jit 1)\<lparr> currentMsg := Some (sample_msg False 0) \<rparr>)"
    by (simp add: no_reset_def sample_msg_def)
  from rejected_message_stays_current [OF this _ _ refl, of "replicate 20 2" "replicate 32 9" EVMC_BYZANTIUM 0 map_fs sample_engine
      "e_machine sample_frame" sample_host 0 sample_code]
  show ?thesis by (auto simp: sample_msg_def sample_jit_def map_entry_def new_entry_def)
qed

lemma of_be_zeros: "of_be (replicate n 0 @ bs) = of_be bs"
proof -
  have "be_value (replicate n 0 @ bs) = be_value bs" by (induction n) simp_all
  then show ?thesis by (simp add: of_be_def)
qed

lemma sint_extend: "signed_take_bit 63 (sint (w :: 32 word)) = sint w"
  using sint_greater_eq [of w] sint_less [of w] by (intro signed_take_bit_int_eq_self) simp_all

text \<open>
  The compiled code sees the message: on either byte order the address, the caller and the value that the
  code pushes are the big-endian numbers of the message's bytes, and the depth is the message's.
\<close>

lemma frame_sees_the_message:
  assumes "length dest = 20" "length (sender msg) = 20" "length (msg_value msg) = 32" "e = make_env mc host r msg dest code"
  shows "env_value e ADDRESS s = (of_be dest, s) \<and> env_value e CALLER s = (of_be (sender msg), s) \<and>
    env_value e CALLVALUE s = (of_be (msg_value msg), s) \<and> getCallData e = input_data msg \<and>
    sint (getDepth e) = sint (msg_depth msg) \<and> length (e_sha3 e bs) = 32"
  using assms(1-3)
  by (simp add: assms(4) env_value_def getAddress_def getSender_def getValue_def getCallData_def getDepth_def make_env_def
      make_runtime_data_def of_be_zeros signed_scast_eq sint_extend)

end
