(* ===== verification/Lifecycle.thy ===== *)
theory Lifecycle
  imports Driver
begin

text \<open>
  The life of the JIT instance: it is created, executes messages in any order, interleaved with changes
  of its options.  Its states are those reachable by these steps; their invariant is the soundness of
  the code map and the object cache, whatever was rejected, compiled, loaded or reset before.
\<close>

section \<open>Reachable states\<close>

inductive jit_reachable ::
    "('fs, 'o) file_system \<Rightarrow> ('h, 'fs, 'o, 'f) engine \<Rightarrow> (byte list \<Rightarrow> byte list) \<Rightarrow> machine \<Rightarrow> 'h evmc_host \<Rightarrow>
     ('h, 'fs, 'o, 'f) jit \<Rightarrow> bool"
  for F E program mc host where
  Reach_new:
    "cache_idle c \<Longrightarrow> cache_sound (\<lambda>ident x. good E program ident (eng_load E x)) F c \<Longrightarrow> mode \<noteq> Mode_clear \<Longrightarrow>
     JITImpl F opt mode c = Done jit \<Longrightarrow> jit_reachable F E program mc host jit"
| Reach_execute:
    "jit_reachable F E program mc host jit \<Longrightarrow> message_ok msg dest codeHash \<Longrightarrow>
     execute fuel F E mc host h r msg (program codeHash) jit = Some (Done (x, jit')) \<Longrightarrow>
     jit_reachable F E program mc host jit'"
| Reach_option:
    "jit_reachable F E program mc host jit \<Longrightarrow> setOption stoul name val jit = (ret, jit') \<Longrightarrow>
     jit_reachable F E program mc host jit'"

definition jit_inv ::
    "('fs, 'o) file_system \<Rightarrow> ('h, 'fs, 'o, 'f) engine \<Rightarrow> (byte list \<Rightarrow> byte list) \<Rightarrow> 'h evmc_host \<Rightarrow> ('h, 'fs, 'o, 'f) jit \<Rightarrow> bool" where
  "jit_inv F E program host jit \<longleftrightarrow> jit_sound F E program jit \<and> (jit_host jit = None \<or> jit_host jit = Some host)"

section \<open>The steps keep the invariant\<close>

lemma not_ready:
  assumes "\<not> ready ident jit"
  shows "func (map_entry ident jit) = None" "hits (map_entry ident jit) + 1 \<le> hitThreshold jit"
  using assms by (auto simp: ready_def not_less)

lemma find_function_rejects:
  assumes "\<not> ready ident jit" "getExecFunc ident jit = (entry, jit1)"
  shows "find_function F E r msg code ident jit = Done (Inl EVMC_REJECTED, jit1)"
  using not_ready [OF assms(1)] getExecFunc_fields [OF assms(2)] assms(2) by (simp add: find_function_def)

lemma rejected_execute:
  assumes "(if msg_depth msg = 0 then checkMemorySize F jit else Done jit) = Done jit1"
    and "\<not> ready (makeCodeId codeHash r (msg_flags msg)) jit1" "destination msg = Some dest" "msg_code_hash msg = Some codeHash"
  shows "\<exists>jit'. execute fuel F E mc host h r msg code jit = Some (Done (early_result EVMC_REJECTED h, jit'))"
proof -
  let ?ident = "makeCodeId codeHash r (msg_flags msg)"
  define jit3 where "jit3 = (if jit_host jit1 = None then jit1\<lparr> jit_host := Some host \<rparr> else jit1)\<lparr> currentMsg := Some msg \<rparr>"
  have "\<not> ready ?ident jit3" using assms(2) by (simp add: jit3_def ready_def map_entry_def)
  moreover obtain entry jit4 where "getExecFunc ?ident jit3 = (entry, jit4)" by fastforce
  ultimately have "find_function F E r msg code ?ident jit3 = Done (Inl EVMC_REJECTED, jit4)" by (rule find_function_rejects)
  then show ?thesis
    unfolding execute_def execute_in_def assms(1,3,4) prod.case option.case outcome.case Let_def jit3_def [symmetric] by simp
qed

lemma find_function_keeps:
  assumes "engine_ok F E" "jit_sound F E program jit" "length codeHash = 32"
    and "find_function F E r msg (program codeHash) (makeCodeId codeHash r (msg_flags msg)) jit = Done (res, jit')"
  shows "jit_sound F E program jit' \<and> jit_host jit' = jit_host jit"
proof (cases "ready (makeCodeId codeHash r (msg_flags msg)) jit")
  case True
  from find_function_ready [OF assms(1,2) this assms(3) refl refl]
  show ?thesis using assms(4) by (metis outcome.inject(1) prod.inject)
next
  case False
  obtain entry jit1 where get: "getExecFunc (makeCodeId codeHash r (msg_flags msg)) jit = (entry, jit1)" by fastforce
  have "jit' = jit1" using find_function_rejects [OF False get] assms(4) by simp
  moreover have "jit_host jit1 = jit_host jit" using getExecFunc_fields [OF get] by simp
  ultimately show ?thesis using sound_getExecFunc(1) [OF assms(2) get] by simp
qed

lemma execute_keeps:
  assumes "engine_ok F E" "jit_inv F E program host jit" "message_ok msg dest codeHash"
    and x: "execute fuel F E mc host h r msg (program codeHash) jit = Some (Done (x, jit'))"
  shows "jit_inv F E program host jit'"
proof -
  note msg = assms(3) [unfolded message_ok_def]
  let ?ident = "makeCodeId codeHash r (msg_flags msg)"
  have sound: "jit_sound F E program jit" using assms(2) by (simp add: jit_inv_def)
  obtain jit1 where start: "(if msg_depth msg = 0 then checkMemorySize F jit else Done jit) = Done jit1"
    "jit_sound F E program jit1" "jit_host jit1 = jit_host jit"
    using checked_jit [OF sound] by metis
  define jit3 where "jit3 = (if jit_host jit1 = None then jit1\<lparr> jit_host := Some host \<rparr> else jit1)\<lparr> currentMsg := Some msg \<rparr>"
  have jit3: "jit_sound F E program jit3" "jit_host jit3 = Some host"
    using start(2,3) assms(2) by (auto simp: jit3_def jit_sound_def jit_inv_def)
  have keep: "jit_inv F E program host jit4" if "find_function F E r msg (program codeHash) ?ident jit3 = Done (res, jit4)" for res jit4
    using find_function_keeps [OF assms(1) jit3(1) _ that] msg jit3(2) by (simp add: jit_inv_def)
  have upd: "jit_inv F E program host (jit4\<lparr> currentMsg := m \<rparr>) = jit_inv F E program host jit4" for jit4 m
    by (simp add: jit_inv_def jit_sound_def)
  note run = x [unfolded execute_def execute_in_def start(1) msg [THEN conjunct1] msg [THEN conjunct2, THEN conjunct1] prod.case option.case
      outcome.case Let_def jit3_def [symmetric]]
  show ?thesis
  proof (cases "find_function F E r msg (program codeHash) ?ident jit3")
    case (Done y)
    obtain res jit4 where y: "y = (res, jit4)" by fastforce
    have "jit' = jit4 \<or> (\<exists>m. jit' = jit4\<lparr> currentMsg := m \<rparr>)"
      using run by (auto simp: Done y obind_eq_Done_iff split: sum.splits option.splits)
    then show ?thesis using keep [OF Done [unfolded y]] upd by auto
  qed (use run in simp_all)
qed

lemma setOption_keeps: "setOption stoul name val jit = (ret, jit') \<Longrightarrow> jit_inv F E program host jit \<Longrightarrow> jit_inv F E program host jit'"
  by (auto simp: setOption_def jit_inv_def jit_sound_def split: if_splits option.splits)

lemma reachable_inv:
  assumes "engine_ok F E"
  shows "jit_reachable F E program mc host jit \<Longrightarrow> jit_inv F E program host jit"
proof (induction rule: jit_reachable.induct)
  case (Reach_new c mode opt jit)
  then show ?case using JITImpl_sound [OF Reach_new(1,3,2), of opt] by (auto simp: jit_inv_def)
next
  case (Reach_execute jit msg dest codeHash fuel h r x jit')
  then show ?case using execute_keeps [OF assms] by blast
next
  case (Reach_option jit stoul name val ret jit')
  then show ?case using setOption_keeps by blast
qed

lemma reachable_execution:
  fixes jit :: "('h, 'fs, 'o, 'f) jit"
  assumes "jit_reachable F E program mc host jit" "engine_ok F E"
    and "message_ok msg dest codeHash" "code = program codeHash" "length code < 2 ^ 48"
    and "host_ok host" "2 ^ 33 \<le> heap_limit mc"
    and "e = make_env mc host r msg dest code" "enough_fuel code 0 (init_runtime e h) \<le> fuel"
    and "evm_run fuel e code 0 [] (init_runtime e h) \<noteq> Some Undefined"
  shows "\<exists>res x jit'. evm_run fuel e code 0 [] (init_runtime e h) = Some res \<and>
    execute fuel F E mc host h r msg code jit = Some (Done (x, jit')) \<and>
    (x = early_result EVMC_REJECTED h \<or> frame_result res = Done x) \<and> jit_reachable F E program mc host jit'"
proof -
  note msg = assms(3) [unfolded message_ok_def]
  let ?ident = "makeCodeId codeHash r (msg_flags msg)"
  have inv: "jit_sound F E program jit" "jit_host jit = None \<or> jit_host jit = Some host"
    using reachable_inv [OF assms(2,1)] by (simp_all add: jit_inv_def)
  obtain jit1 where start: "(if msg_depth msg = 0 then checkMemorySize F jit else Done jit) = Done jit1"
    "jit_sound F E program jit1" "jit_host jit1 = jit_host jit"
    using checked_jit [OF inv(1)] by metis
  have host1: "jit_host jit1 = None \<or> jit_host jit1 = Some host" using inv(2) start(3) by simp
  have env: "env_ok e" unfolding assms(8) using msg by (intro make_env_ok assms) simp_all
  have "rt_ok (init_runtime e h)" using msg by (intro init_runtime_ok) (simp add: assms(8) make_env_def make_runtime_data_def)
  then obtain res where res: "evm_run fuel e code 0 [] (init_runtime e h) = Some res"
    using evm_run_returns [OF env _ assms(9), of "[]"] by auto
  have "\<exists>x jit'. execute fuel F E mc host h r msg code jit = Some (Done (x, jit')) \<and>
      (x = early_result EVMC_REJECTED h \<or> frame_result res = Done x)"
  proof (cases "ready ?ident jit1")
    case True
    then show ?thesis
      using execute_ready_result [OF assms(2) start(2) host1 start(1) assms(3-7) _ assms(8,9)] assms(10) res by auto
  next
    case False
    obtain x jit' where "execute fuel F E mc host h r msg code jit = Some (Done (x, jit'))" "x = early_result EVMC_REJECTED h"
      using rejected_execute [OF start(1) False] msg by blast
    then show ?thesis by blast
  qed
  then obtain x jit' where x: "execute fuel F E mc host h r msg code jit = Some (Done (x, jit'))"
    "x = early_result EVMC_REJECTED h \<or> frame_result res = Done x" by blast
  have "jit_reachable F E program mc host jit'" using Reach_execute [OF assms(1,3)] x(1) assms(4) by blast
  then show ?thesis using res x by blast
qed

lemma sample_jit_reachable: "jit_reachable map_fs sample_engine (\<lambda>_. sample_code) mc host (sample_jit 0)"
proof (rule Reach_new)
  show "JITImpl map_fs False Mode_on (empty_cache Mode_off []) = Done (sample_jit 0)"
    by (simp add: JITImpl_def createEngine_def cache_init_eq sample_jit_def empty_cache_def)
qed (simp_all add: cache_idle_def empty_cache_def cache_sound_def map_fs_def)

section \<open>Properties\<close>

text \<open>
  C5. Every execution is right, in every state the instance can get into.  However it was created and
  whatever messages it has executed, rejected or compiled and options it was given, the next message
  is either rejected, with no effect on the host, or answered with the result of the interpreter's run
  of its code; the state after it is reachable again.
\<close>

theorem every_execution_is_right:
  fixes jit :: "('h, 'fs, 'o, 'f) jit"
  assumes "jit_reachable F E program mc host jit" "engine_ok F E"
    and "message_ok msg dest codeHash" "code = program codeHash" "length code < 2 ^ 48"
    and "host_ok host" "2 ^ 33 \<le> heap_limit mc"
    and "e = make_env mc host r msg dest code" "enough_fuel code 0 (init_runtime e h) \<le> fuel"
    and "evm_run fuel e code 0 [] (init_runtime e h) \<noteq> Some Undefined"
  shows "\<exists>res x jit'. evm_run fuel e code 0 [] (init_runtime e h) = Some res \<and>
    execute fuel F E mc host h r msg code jit = Some (Done (x, jit')) \<and>
    (x = early_result EVMC_REJECTED h \<or> frame_result res = Done x) \<and> jit_reachable F E program mc host jit'"
  by (rule reachable_execution [OF assms])

theorem every_execution_is_right_witness:
  "\<exists>x jit'. execute sample_fuel map_fs sample_engine (e_machine sample_frame) sample_host 0 EVMC_BYZANTIUM (sample_msg False 1)
     sample_code (sample_jit 0) = Some (Done (x, jit')) \<and> (x = early_result EVMC_REJECTED 0 \<or> x = sample_result)"
proof -
  have "2 ^ 33 \<le> heap_limit (e_machine sample_frame)" by simp
  from every_execution_is_right [OF sample_jit_reachable sample_engine_ok sample_msg_ok refl sample_short sample_host_ok this refl
      order_refl, where r = EVMC_BYZANTIUM and h = 0]
  show ?thesis by (auto simp: sample_frame_run sample_frame_result)
qed

end
