(* ===== verification/YellowRun.thy ===== *)
theory YellowRun
  imports YellowSim Lifecycle
begin

text \<open>
  The JIT implements the EVM: every run of the interpreter that LLVM gives a meaning to, and so of the
  compiled code, is a run of the machine of \<open>Yellow\<close>, and the results that \<^verbatim>\<open>execute\<close> answers messages with
  are the machine's.
\<close>

section \<open>Steps and runs\<close>

text \<open>What an interpreter's step returns, as the machine returns it; the undefined halt of the interpreter is
  the exceptional one.\<close>

definition output_of :: "'h rt_state \<Rightarrow> byte list" where
  "output_of s = (case getReturnData s of Done out \<Rightarrow> out | _ \<Rightarrow> [])"

definition abs_step :: "evm_next \<times> word256 list \<times> 'h rt_state \<Rightarrow> (y_next \<times> word256 list \<times> 'h machine_state) option" where
  "abs_step = (\<lambda>(nxt, S, s).
     (case nxt of
        Fall \<Rightarrow> Some (YFall, S, yabs s)
      | Goto d \<Rightarrow> Some (YGoto d, S, yabs s)
      | Halt rc \<Rightarrow> if rc = OutOfGas then None
                   else Some (YHalt rc (if rc = Return \<or> rc = Revert then output_of s else []), S, yabs s)))"

definition agrees_step :: "'h evm_result \<Rightarrow> 'h y_result \<Rightarrow> bool" where
  "agrees_step r y \<longleftrightarrow> (case r of Done x \<Rightarrow> y = abs_step x | LongJmp \<Rightarrow> y = None | Undefined \<Rightarrow> True)"

lemma agrees_step_simps [simp]:
  "agrees_step (Done x) y \<longleftrightarrow> y = abs_step x" "agrees_step LongJmp y \<longleftrightarrow> y = None" "agrees_step Undefined y"
  by (simp_all add: agrees_step_def)

lemma agrees_step_bind:
  assumes "agrees f r y" "\<And>x. r = Done x \<Longrightarrow> agrees_step (k x) (l (f x))"
  shows "agrees_step (obind r k) (Option.bind y l)"
  using assms by (cases r) simp_all

lemma agrees_on_stack: "agrees_step (on_stack T s) (y_on_stack T (yabs s))"
  by (cases T) (simp_all add: on_stack_def y_on_stack_def abs_step_def)

lemma agrees_jump: "agrees_step (Done (jump_to code d, S, s)) (y_jump code d S (yabs s))"
  by (simp add: jump_to_def y_jump_def abs_step_def)

lemma exit_y:
  assumes "env_ok e" "rt_ok s" "inst \<in> {RETURN, REVERT}" "length a = 2" "exec_effect e inst (map Inst a) s = Done s'"
  shows "output_of s' = y_read (a ! 0) (a ! 1) (yabs s')"
proof -
  have arg: "arg (map Inst a) 0 = a ! 0" "arg (map Inst a) 1 = a ! 1" using assms(4) by simp_all
  have r: "code_RETURN e (map Inst a) s = Done s'" using assms(3,5) by (auto simp: exec_effect_def)
  then obtain s1 where r1: "rt_require (a ! 0) (a ! 1) s = Done s1" and s': "s' = registerReturnData (a ! 0) (a ! 1) s1"
    unfolding code_RETURN_eq [OF assms(1,2)] arg by (auto simp: obind_eq_Done_iff)
  have "output_of s' = read_mem (unat (a ! 0)) (unat (a ! 1)) (rt_mem s')"
    using return_data_in_memory [OF assms(1,2) r] unfolding arg by (simp add: output_of_def read_mem_def)
  also have "\<dots> = y_read (a ! 0) (a ! 1) (yabs s')"
    using rt_require_Done(4) [OF assms(2) r1] by (intro yabs_read) (simp add: s' registerReturnData_def)
  finally show ?thesis .
qed

lemma effect_step:
  assumes e: "env_ok e" "frame_of e fr" and s: "rt_ok s" and inst: "effect_insts inst"
    and nxt: "effect_exit inst = Some nxt" and len: "pops inst \<le> length S"
  shows "agrees_step (evm_effect e inst nxt S s)
    (map_option (\<lambda>y1. (y_exit inst (take (pops inst) S) y1, drop (pops inst) S, y1)) (y_effect fr inst (take (pops inst) S) (yabs s)))"
proof -
  let ?a = "take (pops inst) S"
  have a: "length ?a = pops inst" using len by simp
  have ag: "agrees yabs (exec_effect e inst (map Inst ?a) s) (y_effect fr inst ?a (yabs s))" by (rule effect_y [OF e s inst a])
  have ev: "evm_effect e inst nxt S s = obind (exec_effect e inst (map Inst ?a) s) (\<lambda>s1. Done (nxt, drop (pops inst) S, s1))"
    using len by (simp add: evm_effect_def)
  show ?thesis
  proof (cases "exec_effect e inst (map Inst ?a) s")
    case (Done s1)
    have "abs_step (nxt, drop (pops inst) S, s1) = Some (y_exit inst ?a (yabs s1), drop (pops inst) S, yabs s1)"
    proof (cases "inst \<in> {RETURN, REVERT}")
      case True
      then have "length ?a = 2" using a by (auto simp: pops_def)
      from exit_y [OF e(1) s True this Done] show ?thesis
        using True nxt by (auto simp: abs_step_def y_exit_def effect_exit_def)
    next
      case False
      then show ?thesis using nxt by (cases inst) (auto simp: abs_step_def y_exit_def effect_exit_def)
    qed
    then show ?thesis using ag by (simp add: ev Done)
  qed (use ag in \<open>simp_all add: ev\<close>)
qed

lemma value_step:
  assumes e: "env_ok e" "frame_of e fr" and s: "rt_ok s" "tx_known fr s" and inst: "inst \<in> value_insts" and len: "pops inst \<le> length S"
  shows "agrees_step (evm_value e inst S s)
    (if length (drop (pops inst) S) < stackSizeLimit
     then map_option (\<lambda>(w, y1). (YFall, w # drop (pops inst) S, y1)) (y_value fr inst (take (pops inst) S) (yabs s)) else None)"
  using value_y [OF e s inst, of "take (pops inst) S"] len
  by (cases "evm_compute e inst (take (pops inst) S) s") (auto simp: evm_value_def abs_step_def)

text \<open>The machine's dispatch on the two large groups of instructions.\<close>

lemma effect_insts_exit: "effect_insts inst \<longleftrightarrow> effect_exit inst \<noteq> None"
  by (cases inst) (simp_all add: effect_insts_def effect_exit_def)

lemma value_insts_iff: "inst \<in> value_insts \<longleftrightarrow> \<not> special inst \<and> effect_exit inst = None"
  by (cases inst) (auto simp: value_insts_def word_insts_def arith_insts_def bit_insts_def env_insts_def special_def effect_exit_def)

lemma y_exec_effect:
  "effect_exit inst \<noteq> None \<Longrightarrow> y_exec fr pc inst S y =
     (if length S < pops inst then None
      else map_option (\<lambda>y1. (y_exit inst (take (pops inst) S) y1, drop (pops inst) S, y1)) (y_effect fr inst (take (pops inst) S) y))"
  by (cases inst) (simp_all add: effect_exit_def y_exec_def effect_insts_def Let_def)

lemma y_exec_value:
  "\<not> special inst \<Longrightarrow> effect_exit inst = None \<Longrightarrow> y_exec fr pc inst S y =
     (if length S < pops inst then None
      else if length (drop (pops inst) S) < stackSizeLimit
      then map_option (\<lambda>(w, y1). (YFall, w # drop (pops inst) S, y1)) (y_value fr inst (take (pops inst) S) y) else None)"
  by (cases inst) (simp_all add: effect_exit_def special_def y_exec_def effect_insts_def Let_def)

lemma exec_step:
  assumes e: "env_ok e" "frame_of e fr" and s: "rt_ok s" "tx_known fr s"
  shows "agrees_step (evm_exec e (fr_code fr) pc inst S s) (y_exec fr pc inst S (yabs s))"
proof (cases inst rule: instr_cases)
  case 1
  have push: "push_bytes code (length code) n p = y_window code p n" for code n p
    by (simp add: push_bytes_def y_window_def)
  have pops: "pops POP = 1" "pops JUMP = 1" "pops JUMPI = 2" by (simp_all add: pops_def)
  have pop: "agrees_step (evm_exec e (fr_code fr) pc POP S s) (y_exec fr pc POP S (yabs s))"
    by (cases S) (simp_all add: evm_exec_def y_exec_def pops on_stack_def evm_pop_def abs_step_def)
  have jump: "agrees_step (evm_exec e (fr_code fr) pc JUMP S s) (y_exec fr pc JUMP S (yabs s))"
    using agrees_jump by (cases S) (simp_all add: evm_exec_def y_exec_def pops)
  have jumpi: "agrees_step (evm_exec e (fr_code fr) pc JUMPI S s) (y_exec fr pc JUMPI S (yabs s))"
  proof (cases "2 \<le> length S")
    case True
    then obtain d c S1 where S: "S = d # c # S1" by (auto simp: numeral_2_eq_2 Suc_le_length_iff)
    then show ?thesis
      using agrees_jump [of "fr_code fr" d S1 s]
      by (simp add: S evm_exec_def y_exec_def pops) (simp add: abs_step_def)
  next
    case False
    then show ?thesis by (cases S; cases "tl S") (simp_all add: evm_exec_def y_exec_def pops)
  qed
  show ?thesis
    using 1 pop jump jumpi
    by (cases inst) (simp_all add: special_def evm_exec_def y_exec_def agrees_on_stack push, simp_all add: abs_step_def)
next
  case (2 nxt)
  then have "effect_insts inst" "effect_exit inst \<noteq> None" by (simp_all add: effect_insts_exit)
  then show ?thesis
    using effect_step [OF e s(1) _ 2, of S] by (auto simp: evm_exec_effect [OF 2] y_exec_effect evm_effect_def not_le)
next
  case 3
  then have "inst \<in> value_insts" by (simp add: value_insts_iff)
  then show ?thesis
    using value_step [OF e s, of inst S] by (auto simp: evm_exec_value [OF 3] y_exec_value [OF 3] evm_value_def not_le)
qed

lemma step_y:
  assumes e: "env_ok e" "frame_of e fr" and s: "rt_ok s" "tx_known fr s"
  shows "agrees_step (evm_step e (fr_code fr) pc S s) (y_step fr pc S (yabs s))"
proof -
  note f = frame_ofD [OF e(2)]
  show ?thesis
  proof (cases "\<exists>inst. instr_at (fr_code fr) pc = Some inst \<and> enabled (fr_rev fr) (fr_static fr) inst")
    case True
    then obtain inst where i: "instr_at (fr_code fr) pc = Some inst" "enabled (fr_rev fr) (fr_static fr) inst" by blast
    then have "evm_step e (fr_code fr) pc S s =
        obind (pay (nat (getStepCost (fr_rev fr) (Some inst))) s) (evm_exec e (fr_code fr) pc inst S)"
      by (simp add: evm_step_def evm_instr_def [abs_def] f)
    moreover have "tx_known fr s1" if "pay n s = Done s1" for n s1
      using that s(2) by (auto simp: pay_eq tx_known_def split: if_split_asm)
    ultimately show ?thesis
      using i by (auto simp: y_step_def intro!: agrees_step_bind [OF agrees_pay] exec_step [OF e] dest: pay_ok(1) [OF s(1)])
  next
    case False
    then have "y_step fr pc S (yabs s) = None" by (auto simp: y_step_def split: option.split)
    moreover have "evm_instr e (fr_code fr) pc S s1 = Done (Halt OutOfGas, S, s1)" for s1
      using False by (auto simp: evm_instr_def f split: option.split)
    ultimately show ?thesis
      by (cases "pay (nat (getStepCost (e_rev e) (instr_at (fr_code fr) pc))) s") (simp_all add: evm_step_def abs_step_def)
  qed
qed

lemma evm_step_tx:
  assumes e: "env_ok e" "frame_of e fr" and s: "rt_ok s" "tx_known fr s"
    and r: "evm_step e code pc S s = Done (nxt, S', s')"
  shows "tx_known fr s'"
proof -
  obtain s1 where p: "pay (nat (getStepCost (e_rev e) (instr_at code pc))) s = Done s1" and x: "evm_instr e code pc S s1 = Done (nxt, S', s')"
    using r by (auto simp: evm_step_def obind_eq_Done_iff)
  have s1: "rt_ok s1" "tx_known fr s1" using pay_ok(1) [OF s(1) p] p s(2) by (auto simp: pay_eq tx_known_def split: if_split_asm)
  have dyn: "rt_txCtx s3 = rt_txCtx s2" if "evm_pay_dynamic e inst args s2 = Done s3" for inst args s2 s3
    using that by (cases inst) (auto simp: evm_pay_dynamic_def dest: on_tx)
  have val: "tx_known fr s3" if v: "evm_compute e inst args s1 = Done (w, s3)" for inst args w s3
  proof (cases "inst \<in> set env_insts")
    case True
    then have "evm_compute e inst args s1 = Done (env_value e inst s1)"
      by (auto simp: env_insts_def evm_compute_def evm_pay_dynamic_def exec_value_def)
    then show ?thesis using env_value_y(3) [OF e s1 True] v by (simp add: prod_eq_iff)
  next
    case False
    obtain s2 where "evm_pay_dynamic e inst args s1 = Done s2" "exec_value e inst (map Inst args) s2 = Done (w, s3)"
      using v by (auto simp: evm_compute_def obind_eq_Done_iff)
    then show ?thesis using dyn exec_value_tx False s1(2) by (metis tx_known_def)
  qed
  show ?thesis
  proof (cases "\<exists>inst. evm_exec e code pc inst S s1 = Done (nxt, S', s')")
    case True
    then obtain inst where i: "evm_exec e code pc inst S s1 = Done (nxt, S', s')" by blast
    show ?thesis
    proof (cases inst rule: instr_cases)
      case 1
      then have "s' = s1"
        using i by (cases inst) (auto simp: special_def evm_exec_def on_stack_def split: option.splits list.splits)
      then show ?thesis using s1(2) by simp
    next
      case (2 k)
      then show ?thesis
        using i s1(2) by (auto simp: evm_exec_effect evm_effect_def obind_eq_Done_iff tx_known_def dest!: exec_effect_tx split: if_split_asm)
    next
      case 3
      then show ?thesis using i val by (auto simp: evm_exec_value evm_value_def obind_eq_Done_iff split: if_split_asm)
    qed
  next
    case False
    then have "s' = s1" using x by (auto simp: evm_instr_def split: option.splits if_split_asm)
    then show ?thesis using s1(2) by simp
  qed
qed

text \<open>What a run returns, as the machine returns it.\<close>

definition abs_result :: "(return_code \<times> 'h rt_state) outcome \<Rightarrow> (return_code \<times> byte list \<times> 'h machine_state) option" where
  "abs_result r =
     (case r of
        Done (rc, s) \<Rightarrow> if rc = OutOfGas then None
                        else Some (rc, if rc = Return \<or> rc = Revert then output_of s else [], yabs s)
      | _ \<Rightarrow> None)"

lemma run_y:
  assumes e: "env_ok e" "frame_of e fr"
  shows "rt_ok s \<Longrightarrow> tx_known fr s \<Longrightarrow> evm_run fuel e (fr_code fr) pc S s = Some r \<Longrightarrow> r \<noteq> Undefined \<Longrightarrow>
    y_run fuel fr pc S (yabs s) = Some (abs_result r)"
proof (induction fuel arbitrary: pc S s)
  case (Suc fuel)
  note step = step_y [OF e Suc.prems(1,2), of pc S]
  show ?case
  proof (cases "pc < length (fr_code fr)")
    case True
    show ?thesis
    proof (cases "evm_step e (fr_code fr) pc S s")
      case (Done x)
      obtain nxt S1 s1 where x: "x = (nxt, S1, s1)" by (cases x)
      note st = Done [unfolded x]
      have keep: "rt_ok s1" "tx_known fr s1"
        using evm_step_Done(1) [OF e(1) Suc.prems(1) st] evm_step_tx [OF e Suc.prems(1,2) st] .
      show ?thesis
        using True Suc.prems(3,4) step Suc.IH [OF keep] by (cases nxt) (auto simp: st abs_step_def abs_result_def)
    qed (use True Suc.prems step in \<open>simp_all add: abs_result_def\<close>)
  qed (use Suc.prems in \<open>auto simp: abs_result_def\<close>)
qed simp

lemma new_array_abs: "mem_fun new_array = (\<lambda>_. 0)" "mem_words new_array = 0"
  by (simp_all add: mem_fun_def [abs_def] new_array_def mem_words_def)

lemma yabs_init: "unat (rd_gas (e_data e)) = unat (msg_gas (fr_msg fr)) \<Longrightarrow> yabs (init_runtime e h) = y_init fr h"
  by (simp add: yabs_def init_runtime_def y_init_def new_array_abs)

lemma tx_known_init: "tx_known fr (init_runtime e h)"
  by (simp add: tx_known_def init_runtime_def)

section \<open>Messages and answers\<close>

text \<open>The frame of a message, with Keccak-256 for the hash.\<close>

definition message_frame ::
    "'h evmc_host \<Rightarrow> evmc_revision \<Rightarrow> evmc_message \<Rightarrow> byte list \<Rightarrow> byte list \<Rightarrow> tx_context \<Rightarrow> 'h frame" where
  "message_frame host r msg dest code tx =
     \<lparr> fr_host = host, fr_hash = fips_keccak_256, fr_rev = r, fr_msg = msg, fr_self = dest, fr_code = code, fr_tx = tx \<rparr>"

text \<open>What a frame tells the host; after an exceptional halt the host's state is thrown away.\<close>

definition y_answer :: "(return_code \<times> byte list \<times> 'h machine_state) option \<Rightarrow> 'h exec_result" where
  "y_answer r =
     (case r of
        None \<Rightarrow> \<lparr> res_status = EVMC_FAILURE, res_gas = 0, res_output = [], res_host = None \<rparr>
      | Some (rc, out, y) \<Rightarrow>
          \<lparr> res_status = (if rc = Revert then EVMC_REVERT else EVMC_SUCCESS), res_gas = of_nat (y_gas y), res_output = out,
            res_host = Some (y_host y) \<rparr>)"

definition host_view :: "'h exec_result \<Rightarrow> 'h exec_result" where
  "host_view x = (if res_status x = EVMC_FAILURE then x\<lparr> res_host := None \<rparr> else x)"

lemma frame_result_y: "frame_result res = Done x \<Longrightarrow> host_view x = y_answer (abs_result res)"
  by (cases res)
    (auto simp: frame_result_def abs_result_def y_answer_def host_view_def output_of_def obind_eq_Done_iff Let_def split: if_splits)

lemma message_frame_of:
  assumes "little_endian mc" "destination msg = Some dest" "length dest = 20" "length (sender msg) = 20" "length (msg_value msg) = 32"
    and "\<forall>h. get_tx_context host h = tx"
  shows "frame_of (make_env mc host r msg dest code) (message_frame host r msg dest code tx)"
proof -
  let ?e = "make_env mc host r msg dest code"
  have "keccak True (replicate 32 0) = fips_keccak_256" by (rule ext) (rule keccak_spec)
  moreover have "length (fips_keccak_256 bs) = 32" for bs using length_keccak [of True "[]" bs] by (simp add: keccak_spec)
  ultimately show ?thesis
    using assms frame_sees_the_message [OF assms(3-5) refl, of mc host r code "init_runtime ?e undefined"]
    by (simp add: frame_of_def message_frame_def env_value_def) (simp add: make_env_def make_runtime_data_def is_static_def)
qed

lemma frame_of_lowered: "frame_of e fr \<Longrightarrow> frame_of (e\<lparr> e_division := lowered_division \<rparr>) fr"
  by (simp add: frame_of_def getCallData_def getAddress_def getSender_def getValue_def getDepth_def)

text \<open>The frame of the sample message.\<close>

abbreviation sample_tx :: tx_context where
  "sample_tx \<equiv> get_tx_context sample_host 0"

abbreviation sample_message_frame :: "nat frame" where
  "sample_message_frame \<equiv> message_frame sample_host EVMC_BYZANTIUM (sample_msg False 1) (replicate 20 2) sample_code sample_tx"

lemma sample_constant_tx: "\<forall>h. get_tx_context sample_host h = sample_tx"
  by (simp add: sample_host_def)

lemma sample_sizes: "length (sender (sample_msg False 1)) = 20" "length (msg_value (sample_msg False 1)) = 32"
  by (simp_all add: sample_msg_def)

lemma sample_frame_of: "frame_of sample_frame_env sample_message_frame"
  by (rule message_frame_of [OF _ _ length_replicate sample_sizes sample_constant_tx]) (simp_all add: sample_msg_def)

section \<open>Properties\<close>



text \<open>
  C3. Compiled code is the EVM.  The main function compiled from a program without ADDMOD, MULMOD and
  RETURNDATACOPY, with the divisions lowered, returns on every input, and what it returns (an
  exceptional halt, or a return code with the output, the gas, the memory, the RETURNDATA and the
  host's state) is what the machine of \<open>Yellow\<close> returns.
\<close>

theorem compiled_code_is_the_evm:
  assumes "env_ok e" "config_ok e (fr_code fr) cfg" "length (fr_code fr) < 2 ^ 48" "length base = stackSizeLimit" "rt_ok s"
    and "e_division e = lowered_division" "\<forall>p \<in> positions (fr_code fr). \<not> risky (instr_at (fr_code fr) p)"
    and "enough_fuel (fr_code fr) 0 s \<le> fuel" "frame_of e fr" "tx_known fr s"
  shows "\<exists>r. run_main fuel e (compile cfg (fr_code fr)) 0 (base, 0) s = Some r \<and> r \<noteq> Undefined \<and>
    y_run fuel fr 0 [] (yabs s) = Some (abs_result r)"
proof -
  obtain r where r: "evm_run fuel e (fr_code fr) 0 [] s = Some r" using evm_run_returns [OF assms(1,5,8), of "[]"] by auto
  have "r \<noteq> Undefined" using evm_run_defined [OF assms(1,6,7) boundary_0 assms(5), of fuel "[]"] r by auto
  then show ?thesis using compiled_code_sim [OF assms(1-5) r] run_y [OF assms(1,9,5,10) r] by blast
qed

theorem compiled_code_is_the_evm_witness:
  "\<exists>y. y_run sample_fuel sample_message_frame 0 [] (y_init sample_message_frame 0) = Some (Some (Stop, [], y)) \<and> y_gas y = 99985"
proof -
  let ?e = "sample_frame_env\<lparr> e_division := lowered_division \<rparr>" and ?s = "init_runtime sample_frame_env 0"
  have code: "fr_code sample_message_frame = sample_code" by (simp add: message_frame_def)
  have env: "env_ok ?e" by (simp add: env_ok_def make_env_def make_runtime_data_def sample_host_ok) (simp add: sample_msg_def)
  have s: "rt_ok ?s" by (rule init_runtime_ok) (simp add: make_env_def make_runtime_data_def sample_msg_def)
  have cfg: "config_ok ?e sample_code sample_config"
    by (simp add: config_ok_def sample_config_def folder_ok_def make_env_def sample_msg_def is_static_def)
  have run: "evm_run sample_fuel ?e sample_code 0 [] ?s = Some (Done (Stop, ?s\<lparr> rt_gas := 99985 \<rparr>))"
    by (rule evm_run_more_fuel [OF sample_run_any])
      (simp_all add: init_runtime_def make_env_def make_runtime_data_def sample_msg_def enough_fuel_def)
  have init: "yabs ?s = y_init sample_message_frame 0"
    by (rule yabs_init) (simp add: make_env_def make_runtime_data_def message_frame_def)
  obtain r where r: "run_main sample_fuel ?e (compile sample_config sample_code) 0 (replicate 1024 0, 0) ?s = Some r"
    "y_run sample_fuel sample_message_frame 0 [] (yabs ?s) = Some (abs_result r)"
    using compiled_code_is_the_evm [of ?e sample_message_frame, unfolded code, OF env cfg sample_short sample_base s _ sample_not_risky order_refl
        frame_of_lowered [OF sample_frame_of] tx_known_init] by auto
  moreover have "run_main sample_fuel ?e (compile sample_config sample_code) 0 (replicate 1024 0, 0) ?s = Some (Done (Stop, ?s\<lparr> rt_gas := 99985 \<rparr>))"
    by (rule compiled_code_sim [OF env cfg sample_short sample_base s run]) simp
  ultimately show ?thesis by (auto simp: init abs_result_def)
qed

end
