(* ===== verification/Nested.thy ===== *)
theory Nested
  imports Embedding YellowRun
begin

text \<open>
  Executions inside executions.  The host answers many of the calls a frame makes by executing code itself,
  with the same instance of the JIT: \<^verbatim>\<open>execute\<close> runs again while it runs, and \<^verbatim>\<open>jit.currentMsg\<close>, which all
  executions share, is what tells \<open>call\<close> on whose behalf it speaks.  Here the host is a client that does
  so, the world holds the current message beside the client's state, and the whole tree of executions
  is compared with the machine of \<open>Yellow\<close> that calls itself.
\<close>

section \<open>A client of the JIT\<close>

text \<open>
  \<open>cl_runs\<close> decides whether a call has code to execute; if so it gives the world in which the execution
  starts (the transfer done), the message with the address and the hash filled in, the revision and the
  code.  \<open>cl_return\<close> makes the answer to the call of what the execution returns, of nothing if that
  has no meaning, and of the world before the call, so that it can undo what failed.  A call without
  code, and every other request, is answered by \<open>cl_host\<close>.
\<close>

record 'w client =
  cl_host :: "'w evmc_host"
  cl_runs :: "'w \<Rightarrow> evmc_message \<Rightarrow> ('w \<times> evmc_message \<times> evmc_revision \<times> byte list) option"
  cl_return :: "'w \<Rightarrow> evmc_message \<Rightarrow> 'w exec_result option \<Rightarrow> evmc_result \<times> 'w"

text \<open>The fuel of an execution: the bound of \<open>enough_fuel\<close> for a new frame.\<close>

definition frame_fuel :: "evmc_message \<Rightarrow> byte list \<Rightarrow> nat" where
  "frame_fuel msg code = unat (msg_gas msg) * (length code + 1) + length code + 1"

section \<open>The JIT under a client\<close>

text \<open>The client's host in a world that also holds the current message: it neither sees nor changes it.\<close>

definition with_cell :: "'w evmc_host \<Rightarrow> ('w \<times> evmc_message) evmc_host" where
  "with_cell H =
     \<lparr> account_exists = (\<lambda>h. account_exists H (fst h)), get_storage = (\<lambda>h. get_storage H (fst h)),
       set_storage = (\<lambda>(w, c) a k v. (set_storage H w a k v, c)), get_balance = (\<lambda>h. get_balance H (fst h)),
       get_code_size = (\<lambda>h. get_code_size H (fst h)), copy_code = (\<lambda>h. copy_code H (fst h)),
       host_selfdestruct = (\<lambda>(w, c) a b. (host_selfdestruct H w a b, c)),
       host_call = (\<lambda>(w, c) m. (let (r, w') = host_call H w m in (r, (w', c)))),
       get_tx_context = (\<lambda>h. get_tx_context H (fst h)), get_block_hash = (\<lambda>h. get_block_hash H (fst h)),
       emit_log = (\<lambda>(w, c) a d ts. (emit_log H w a d ts, c)) \<rparr>"

text \<open>What the client sees of a result: its own part of the world, unless the frame failed.\<close>

definition map_world :: "('h \<Rightarrow> 'w) \<Rightarrow> 'h exec_result \<Rightarrow> 'w exec_result" where
  "map_world g x = \<lparr> res_status = res_status x, res_gas = res_gas x, res_output = res_output x, res_host = map_option g (res_host x) \<rparr>"

definition client_view :: "('w \<times> evmc_message) exec_result \<Rightarrow> 'w exec_result" where
  "client_view x = map_world fst (host_view x)"

text \<open>
  A call by a frame, while \<open>cur\<close> is the current message.  \<open>J\<close> is the JIT instance as the execution finds it:
  whatever messages it has executed, its code map and caches are in some state.
\<close>

definition nested_call ::
    "('fs, 'o) file_system \<Rightarrow> ('w \<times> evmc_message, 'fs, 'o, 'f) engine \<Rightarrow> machine \<Rightarrow>
     ('w \<Rightarrow> evmc_message \<Rightarrow> ('w \<times> evmc_message, 'fs, 'o, 'f) jit) \<Rightarrow> 'w client \<Rightarrow> ('w \<times> evmc_message) evmc_host \<Rightarrow>
     'w \<times> evmc_message \<Rightarrow> evmc_message \<Rightarrow> evmc_result \<times> ('w \<times> evmc_message)" where
  "nested_call F E mc J C host h msg =
     (let (w, cur) = h
      in case cl_runs C w msg of
           None \<Rightarrow> host_call (with_cell (cl_host C)) h msg
         | Some (w1, msg1, r, code) \<Rightarrow>
             (let jit = (J w1 msg1)\<lparr> jit_host := Some host, currentMsg := Some cur \<rparr>;
                  (result, cur1) =
                    (case execute_in (\<lambda>_. snd) (frame_fuel msg1 code) F E mc host (w1, msg1) r msg1 code jit of
                       Some (Done (x, jit1)) \<Rightarrow> (Some (client_view x), the (currentMsg jit1))
                     | _ \<Rightarrow> (None, cur));
                  (answer, w2) = cl_return C w msg result
              in (answer, (w2, cur1))))"

text \<open>The host of the frames that may call \<open>n\<close> levels deep; below the last one code has no meaning.\<close>

definition last_host :: "'w client \<Rightarrow> 'w evmc_host" where
  "last_host C = (cl_host C)\<lparr> host_call := (\<lambda>w msg. if cl_runs C w msg = None then host_call (cl_host C) w msg
     else cl_return C w msg None) \<rparr>"

primrec nested_host ::
    "('fs, 'o) file_system \<Rightarrow> ('w \<times> evmc_message, 'fs, 'o, 'f) engine \<Rightarrow> machine \<Rightarrow>
     ('w \<Rightarrow> evmc_message \<Rightarrow> ('w \<times> evmc_message, 'fs, 'o, 'f) jit) \<Rightarrow> 'w client \<Rightarrow> nat \<Rightarrow> ('w \<times> evmc_message) evmc_host" where
  "nested_host F E mc J C 0 = with_cell (last_host C)"
| "nested_host F E mc J C (Suc n) = (with_cell (cl_host C))\<lparr> host_call := nested_call F E mc J C (nested_host F E mc J C n) \<rparr>"

section \<open>The EVM under a client\<close>

text \<open>The same client with the machine of \<open>Yellow\<close> in the place of the JIT: no current message, no code map.\<close>

definition evm_call :: "'w client \<Rightarrow> 'w evmc_host \<Rightarrow> 'w \<Rightarrow> evmc_message \<Rightarrow> evmc_result \<times> 'w" where
  "evm_call C host w msg =
     (case cl_runs C w msg of
        None \<Rightarrow> host_call (cl_host C) w msg
      | Some (w1, msg1, r, code) \<Rightarrow>
          (let fr = message_frame host r msg1 (the (destination msg1)) code (get_tx_context host w1)
           in cl_return C w msg (map_option y_answer (y_run (frame_fuel msg1 code) fr 0 [] (y_init fr w1)))))"

primrec evm_host :: "'w client \<Rightarrow> nat \<Rightarrow> 'w evmc_host" where
  "evm_host C 0 = last_host C"
| "evm_host C (Suc n) = (cl_host C)\<lparr> host_call := evm_call C (evm_host C n) \<rparr>"

section \<open>What the client promises\<close>

text \<open>A message that may be executed for a call: well-formed, with the gas and the depth of the call, of code
  without the instructions that the IR does not always give a meaning to.\<close>

definition runnable :: "(byte list \<Rightarrow> byte list) \<Rightarrow> evmc_message \<Rightarrow> evmc_message \<Rightarrow> byte list \<Rightarrow> bool" where
  "runnable program msg msg1 code \<longleftrightarrow>
     (\<exists>dest codeHash. message_ok msg1 dest codeHash \<and> code = program codeHash \<and> length dest = 20) \<and>
     length code < 2 ^ 48 \<and> length (sender msg1) = 20 \<and> length (msg_value msg1) = 32 \<and>
     unat (msg_gas msg1) \<le> unat (msg_gas msg) \<and> msg_depth msg1 = msg_depth msg \<and>
     (\<forall>p \<in> positions code. \<not> risky (instr_at code p))"

definition answer_ok :: "evmc_message \<Rightarrow> evmc_result \<Rightarrow> bool" where
  "answer_ok msg r \<longleftrightarrow> unat (gas_left r) \<le> unat (msg_gas msg) \<and> length (create_address r) = 20 \<and> length (output_data r) < 2 ^ 63"

definition client_ok :: "(byte list \<Rightarrow> byte list) \<Rightarrow> 'w client \<Rightarrow> bool" where
  "client_ok program C \<longleftrightarrow>
     host_ok (cl_host C) \<and> (\<forall>w w'. get_tx_context (cl_host C) w = get_tx_context (cl_host C) w') \<and>
     (\<forall>w msg w1 msg1 r code. cl_runs C w msg = Some (w1, msg1, r, code) \<longrightarrow> runnable program msg msg1 code) \<and>
     (\<forall>w msg x. (\<forall>y. x = Some y \<longrightarrow> unat (res_gas y) \<le> unat (msg_gas msg)) \<longrightarrow> answer_ok msg (fst (cl_return C w msg x)))"

text \<open>An instance that rejects nothing.\<close>

definition warm :: "('fs, 'o) file_system \<Rightarrow> ('h, 'fs, 'o, 'f) engine \<Rightarrow> (byte list \<Rightarrow> byte list) \<Rightarrow> ('h, 'fs, 'o, 'f) jit \<Rightarrow> bool" where
  "warm F E program jit \<longleftrightarrow>
     jit_sound F E program jit \<and> hitThreshold jit = 0 \<and> (\<forall>ident. hits (map_entry ident jit) \<noteq> - 1)"

section \<open>A frame does not see the current message of others\<close>

interpretation cell: frame_embedding "\<lambda>w. (w, msg)"
    "with_division B ((make_env mc (with_cell H) r msg dest code)\<lparr> e_msg := snd \<rparr>)" "with_division B (make_env mc H r msg dest code)"
    for msg B mc H r dest code
  by unfold_locales (auto simp: make_env_def with_cell_def call_def Let_def case_prod_beta)

section \<open>One execution\<close>

lemma with_cell_simps [simp]:
  "host_call (with_cell H) (w, c) m = (let (r, w') = host_call H w m in (r, (w', c)))"
  "get_tx_context (with_cell H) h = get_tx_context H (fst h)"
  by (simp_all add: with_cell_def)

lemma with_cell_ok: "host_ok H \<Longrightarrow> host_ok (with_cell H)"
  by (auto simp: host_ok_def with_cell_def Let_def split: prod.splits)

lemma frame_result_embed: "frame_result (on_result i res) = map_outcome (map_world i) (frame_result res)"
proof -
  have "getReturnData (embed_state i s) = getReturnData s" for s
    unfolding getReturnData_def embed_simps by (rule refl)
  then show ?thesis by (cases res) (auto simp: frame_result_def map_world_def Let_def)
qed

lemma client_view_map: "client_view (map_world (\<lambda>w. (w, c)) x) = host_view x"
  by (simp add: client_view_def map_world_def host_view_def option.map_comp comp_def option.map_ident)

lemma make_env_fields [simp]:
  "e_rev (make_env mc host r msg dest code) = r" "e_static (make_env mc host r msg dest code) = is_static (msg_flags msg)"
  "rd_code (e_data (make_env mc host r msg dest code)) = code" "rd_gas (e_data (make_env mc host r msg dest code)) = msg_gas msg"
  "e_division (make_env mc host r msg dest code) = llvm_division"
  by (simp_all add: make_env_def make_runtime_data_def)

lemma frame_fuel_enough:
  assumes "unat (msg_gas msg) < 2 ^ 47" "rd_gas (e_data e) = msg_gas msg"
  shows "enough_fuel code 0 (init_runtime e h) = frame_fuel msg code"
  using init_runtime_ok(2) [of e h] assms by (simp add: enough_fuel_def frame_fuel_def)

text \<open>The reference machine's answer for a frame on a sound host, as what the interpreter returns.\<close>

lemma frame_answer:
  assumes H: "host_ok H" "2 ^ 33 \<le> heap_limit mc" "little_endian mc" "\<forall>w. get_tx_context H w = tx"
    and run: "runnable program msg0 msg code" "destination msg = Some dest"
    and e: "e = with_division lowered_division (make_env mc H r msg dest code)"
    and fr: "fr = message_frame H r msg dest code tx"
  obtains res x where "evm_run (frame_fuel msg code) e code 0 [] (init_runtime e w) = Some res" "res \<noteq> Undefined"
    "frame_result res = Done x" "y_run (frame_fuel msg code) fr 0 [] (y_init fr w) = Some (abs_result res)"
    "host_view x = y_answer (abs_result res)" "unat (res_gas (y_answer (abs_result res))) \<le> unat (msg_gas msg)"
proof -
  note run = run [unfolded runnable_def message_ok_def]
  let ?fuel = "frame_fuel msg code" and ?s = "init_runtime e w"
  have gas: "unat (msg_gas msg) < 2 ^ 47" "rd_gas (e_data e) = msg_gas msg" using run(1) by (auto simp: e)
  have env: "env_ok e" using make_env_ok [OF H(1,2)] run by (auto simp: e env_ok_def)
  have s: "rt_ok ?s" "rt_budget ?s = unat (msg_gas msg)" using init_runtime_ok [of e w] gas by simp_all
  have fuel: "enough_fuel code 0 ?s = ?fuel" by (rule frame_fuel_enough [OF gas])
  obtain res where res: "evm_run ?fuel e code 0 [] ?s = Some res"
    using evm_run_returns [OF env s(1), of code 0 ?fuel "[]"] fuel by auto
  have "evm_run ?fuel e code 0 [] ?s \<noteq> Some Undefined"
    using run(1) by (intro evm_run_defined [OF env _ _ boundary_0 s(1)]) (simp_all add: e)
  then have def: "res \<noteq> Undefined" using res by auto
  obtain x where x: "frame_result res = Done x" using frame_result_defined [OF env s(1) res def] by blast
  have "frame_of (make_env mc H r msg dest code) fr"
    unfolding fr using run H by (intro message_frame_of) auto
  then have frame: "frame_of e fr" unfolding e by (rule frame_of_lowered)
  have code: "fr_code fr = code" "yabs ?s = y_init fr w" using gas by (simp_all add: fr message_frame_def yabs_init)
  have y: "y_run ?fuel fr 0 [] (y_init fr w) = Some (abs_result res)"
    using run_y [OF env frame s(1) tx_known_init, of ?fuel 0 "[]" res] res def by (simp add: code)
  have "unat (rt_gas s') \<le> unat (msg_gas msg)" if "res = Done (rc, s')" for rc s'
    using evm_run_keeps [OF env s(1), of ?fuel code 0 "[]" rc s'] res that s(2) by (simp add: rt_budget_def budget_def)
  then have "unat (res_gas (y_answer (abs_result res))) \<le> unat (msg_gas msg)"
    by (cases res) (auto simp: y_answer_def abs_result_def)
  then show ?thesis using that [OF res def x y frame_result_y [OF x]] by blast
qed

text \<open>In the world with the current message, the JIT gives the client that answer, and leaves the message.\<close>

lemma nested_execution:
  fixes jit :: "('w \<times> evmc_message, 'fs, 'o, 'f) jit" and H :: "'w evmc_host"
  assumes H: "host_ok H" "2 ^ 33 \<le> heap_limit mc" "little_endian mc" "\<forall>w. get_tx_context H w = tx"
    and eng: "engine_ok F E" and jit: "warm F E program jit" "jit_host jit = None \<or> jit_host jit = Some (with_cell H)"
    and run: "runnable program msg0 msg code"
    and fr: "fr = message_frame H r msg (the (destination msg)) code tx"
  obtains x jit' y where
    "execute_in (\<lambda>_. snd) (frame_fuel msg code) F E mc (with_cell H) (w, msg) r msg code jit = Some (Done (x, jit'))"
    "currentMsg jit' = currentMsg jit" "y_run (frame_fuel msg code) fr 0 [] (y_init fr w) = Some y" "client_view x = y_answer y"
    "unat (res_gas (y_answer y)) \<le> unat (msg_gas msg)"
proof -
  obtain dest codeHash where msg: "message_ok msg dest codeHash" "code = program codeHash"
    and len: "length code < 2 ^ 48" using run by (auto simp: runnable_def)
  note m = msg(1) [unfolded message_ok_def]
  let ?ident = "makeCodeId codeHash r (msg_flags msg)" and ?fuel = "frame_fuel msg code" and ?i = "\<lambda>w. (w, msg)"
  define e2 where "e2 = make_env mc H r msg dest code"
  define e1 where "e1 = (make_env mc (with_cell H) r msg dest code)\<lparr> e_msg := snd \<rparr>"
  have sound: "jit_sound F E program jit" "hitThreshold jit = 0" "hits (map_entry ?ident jit) \<noteq> - 1"
    using jit(1) by (simp_all add: warm_def)
  obtain jit1 where start: "(if msg_depth msg = 0 then checkMemorySize F jit else Done jit) = Done jit1" "jit_sound F E program jit1"
    and same: "jit_host jit1 = jit_host jit" "currentMsg jit1 = currentMsg jit" "hitThreshold jit1 = hitThreshold jit"
    and "map_entry ?ident jit1 = map_entry ?ident jit \<or> map_entry ?ident jit1 = new_entry"
    using checked_jit [OF sound(1)] by metis
  then have "hits (map_entry ?ident jit1) \<noteq> - 1" using sound(3) by (auto simp: new_entry_def)
  then have ready: "ready ?ident jit1"
    using same(3) sound(2) by (simp add: ready_def word_neq_0_conv [symmetric] add_eq_0_iff2)
  have host: "jit_host jit1 = None \<or> jit_host jit1 = Some (with_cell H)" using jit(2) same(1) by simp
  obtain f jit' where f: "implements E f (final_module E r (is_static (msg_flags msg)) code)"
    and x: "execute_in (\<lambda>_. snd) ?fuel F E mc (with_cell H) (w, msg) r msg code jit =
       map_option (\<lambda>res. obind (frame_result res) (\<lambda>x. Done (x, jit'))) (eng_run E ?fuel f e1 (w, msg))"
    and cur: "currentMsg jit' = currentMsg jit1"
    using execute_good [where cur = "\<lambda>_. snd" and e = e1 and mc = mc and fuel = ?fuel and h = "(w, msg)", OF eng start(2) host
        start(1) m [THEN conjunct1] m [THEN conjunct2, THEN conjunct1] m [THEN conjunct2, THEN conjunct2, THEN conjunct1] msg(2) ready e1_def]
    by blast
  have dest: "destination msg = Some dest" "the (destination msg) = dest" using m by simp_all
  obtain res z where a: "evm_run ?fuel (with_division lowered_division e2) code 0 [] (init_runtime e2 w) = Some res" "res \<noteq> Undefined"
    "frame_result res = Done z" "y_run ?fuel fr 0 [] (y_init fr w) = Some (abs_result res)"
    "host_view z = y_answer (abs_result res)" "unat (res_gas (y_answer (abs_result res))) \<le> unat (msg_gas msg)"
    using frame_answer [where w = w, OF H run dest(1) refl fr [unfolded dest(2)]] by (auto simp: e2_def init_runtime_def)
  have "evm_run ?fuel (with_division lowered_division e1) code 0 [] (embed_state ?i (init_runtime e2 w)) = Some (on_result ?i res)"
    unfolding e1_def cell.run using a(1) by (simp add: e2_def)
  moreover have "embed_state ?i (init_runtime e2 w) = init_runtime e1 (w, msg)" by (simp add: embed_state_def init_runtime_def e1_def e2_def)
  moreover have "env_ok e1" using make_env_ok [OF with_cell_ok [OF H(1)] H(2)] m len by (simp add: e1_def env_ok_def)
  moreover have "on_result ?i res \<noteq> Undefined" using a(2) by (cases res) simp_all
  ultimately have "eng_run E ?fuel f e1 (w, msg) = Some (on_result ?i res)"
    using m by (intro good_runs_lowered [OF f eng _ _ _ _ len]) (auto simp: e1_def)
  then have "execute_in (\<lambda>_. snd) ?fuel F E mc (with_cell H) (w, msg) r msg code jit = Some (Done (map_world ?i z, jit'))"
    by (simp add: x frame_result_embed a(3))
  then show ?thesis using cur same(2) a(4-6) by (intro that [of "map_world ?i z" jit' "abs_result res"]) (simp_all add: client_view_map)
qed

section \<open>All executions\<close>

lemma last_host_fields [simp]:
  "get_tx_context (last_host C) = get_tx_context (cl_host C)" "get_tx_context (evm_host C n) = get_tx_context (cl_host C)"
proof -
  show *: "get_tx_context (last_host C) = get_tx_context (cl_host C)" by (simp add: last_host_def)
  show "get_tx_context (evm_host C n) = get_tx_context (cl_host C)" by (cases n) (simp_all add: *)
qed

lemma client_okD:
  assumes "client_ok program C"
  shows "host_ok (cl_host C)" "get_tx_context (cl_host C) w = get_tx_context (cl_host C) w'"
    "cl_runs C w msg = Some (w1, msg1, r, code) \<Longrightarrow> runnable program msg msg1 code"
    "(\<And>y. x = Some y \<Longrightarrow> unat (res_gas y) \<le> unat (msg_gas msg)) \<Longrightarrow> answer_ok msg (fst (cl_return C w msg x))"
  using assms unfolding client_ok_def by blast+

lemma host_ok_calls:
  assumes "host_ok H" "\<And>w msg. answer_ok msg (fst (f w msg))"
  shows "host_ok (H\<lparr> host_call := f \<rparr>)"
proof -
  have "answer_ok msg r" if "f w msg = (r, w')" for w msg r w' using assms(2) [of msg w] that by simp
  then show ?thesis using assms(1) by (simp add: host_ok_def answer_ok_def)
qed

lemma host_ok_answers: "host_ok H \<Longrightarrow> answer_ok msg (fst (host_call H w msg))"
  using host_ok_call [of H w msg] by (cases "host_call H w msg") (auto simp: answer_ok_def)

lemma last_host_ok: "client_ok program C \<Longrightarrow> host_ok (last_host C)"
  unfolding last_host_def by (intro host_ok_calls) (auto simp: client_okD intro!: host_ok_answers client_okD(4))

lemma with_cell_calls:
  "(with_cell H)\<lparr> host_call := (\<lambda>h m. let (r, w) = f (fst h) m in (r, (w, snd h))) \<rparr> = with_cell (H\<lparr> host_call := f \<rparr>)"
  by (simp add: with_cell_def case_prod_beta fun_eq_iff)

lemma nested_step:
  fixes J :: "'w \<Rightarrow> evmc_message \<Rightarrow> ('w \<times> evmc_message, 'fs, 'o, 'f) jit"
  assumes C: "client_ok program C" and H: "host_ok H" "get_tx_context H = get_tx_context (cl_host C)"
    and mc: "2 ^ 33 \<le> heap_limit mc" "little_endian mc" and eng: "engine_ok F E" and J: "\<And>w msg. warm F E program (J w msg)"
  shows "nested_call F E mc J C (with_cell H) h msg = (let (r, w) = evm_call C H (fst h) msg in (r, (w, snd h))) \<and>
    answer_ok msg (fst (evm_call C H (fst h) msg))"
proof (cases "cl_runs C (fst h) msg")
  case None
  then show ?thesis
    using host_ok_answers [OF client_okD(1) [OF C]] by (cases h) (simp add: nested_call_def evm_call_def)
next
  case (Some q)
  obtain w1 msg1 r code where q: "q = (w1, msg1, r, code)" by (cases q)
  note runs = Some [unfolded q] and run = client_okD(3) [OF C Some [unfolded q]]
  let ?fr = "message_frame H r msg1 (the (destination msg1)) code (get_tx_context H w1)"
    and ?jit = "(J w1 msg1)\<lparr> jit_host := Some (with_cell H), currentMsg := Some (snd h) \<rparr>"
  have warm: "warm F E program ?jit" using J [of w1 msg1] by (simp add: warm_def jit_sound_def map_entry_def)
  have tx: "\<forall>w. get_tx_context H w = get_tx_context H w1" unfolding H(2) using client_okD(2) [OF C] by blast
  have host: "jit_host ?jit = None \<or> jit_host ?jit = Some (with_cell H)" by simp
  obtain x jit' y where x: "execute_in (\<lambda>_. snd) (frame_fuel msg1 code) F E mc (with_cell H) (w1, msg1) r msg1 code ?jit = Some (Done (x, jit'))"
    "currentMsg jit' = currentMsg ?jit" and y: "y_run (frame_fuel msg1 code) ?fr 0 [] (y_init ?fr w1) = Some y" "client_view x = y_answer y"
    and gas: "unat (res_gas (y_answer y)) \<le> unat (msg_gas msg1)"
    by (rule nested_execution [where w = w1, OF H(1) mc tx eng warm host run refl])
  have "unat (msg_gas msg1) \<le> unat (msg_gas msg)" using run by (simp add: runnable_def)
  then have "answer_ok msg (fst (cl_return C (fst h) msg (Some (y_answer y))))" using gas by (intro client_okD(4) [OF C]) simp
  then show ?thesis using runs x y by (cases h) (simp add: nested_call_def evm_call_def Let_def)
qed

lemma nested_hosts:
  fixes J :: "'w \<Rightarrow> evmc_message \<Rightarrow> ('w \<times> evmc_message, 'fs, 'o, 'f) jit"
  assumes "client_ok program C" "2 ^ 33 \<le> heap_limit mc" "little_endian mc" "engine_ok F E" "\<And>w msg. warm F E program (J w msg)"
  shows "host_ok (evm_host C n) \<and> nested_host F E mc J C n = with_cell (evm_host C n)"
proof (induction n)
  case 0
  then show ?case using last_host_ok [OF assms(1)] by simp
next
  case (Suc n)
  then have host: "host_ok (evm_host C n)" and eq: "nested_host F E mc J C n = with_cell (evm_host C n)" by simp_all
  have step: "nested_call F E mc J C (with_cell (evm_host C n)) h msg =
      (let (r, w) = evm_call C (evm_host C n) (fst h) msg in (r, (w, snd h))) \<and>
    answer_ok msg (fst (evm_call C (evm_host C n) (fst h) msg))" for h msg
    by (rule nested_step [OF assms(1) host last_host_fields(2) assms(2-5)])
  have "nested_host F E mc J C (Suc n) = with_cell (evm_host C (Suc n))"
    using step by (simp add: eq with_cell_calls [symmetric] fun_eq_iff)
  moreover have "answer_ok msg (fst (evm_call C (evm_host C n) w msg))" for w msg using step [of "(w, msg)" msg] by simp
  ultimately show ?case using host_ok_calls [OF client_okD(1) [OF assms(1)]] by simp
qed

end
