(* ===== verification/Reentrancy.thy ===== *)
theory Reentrancy
  imports Nested
begin

text \<open>
  What re-entering the JIT comes to: a client under which nothing is rejected cannot tell it from the
  machine of \<open>Yellow\<close> that calls itself, to whatever depth; the depth check of the emitted code bounds the
  nesting; and where an instance does reject messages, a frame goes on with its callee's message.
\<close>

section \<open>The depth of calls\<close>

text \<open>A frame asks its host only for calls one level down, and for none at the limit.\<close>

definition same_calls :: "'w frame \<Rightarrow> ('w \<Rightarrow> evmc_message \<Rightarrow> evmc_result \<times> 'w) \<Rightarrow> bool" where
  "same_calls fr f \<longleftrightarrow>
     (\<forall>w m. sint (msg_depth (fr_msg fr)) < 1024 \<longrightarrow> msg_depth m = msg_depth (fr_msg fr) + 1 \<longrightarrow> f w m = host_call (fr_host fr) w m)"

abbreviation with_calls :: "'w frame \<Rightarrow> ('w \<Rightarrow> evmc_message \<Rightarrow> evmc_result \<times> 'w) \<Rightarrow> 'w frame" where
  "with_calls fr f \<equiv> fr\<lparr> fr_host := (fr_host fr)\<lparr> host_call := f \<rparr> \<rparr>"

lemma with_calls_fields:
  "fr_rev (with_calls fr f) = fr_rev fr" "fr_msg (with_calls fr f) = fr_msg fr" "fr_self (with_calls fr f) = fr_self fr"
  "fr_code (with_calls fr f) = fr_code fr" "fr_tx (with_calls fr f) = fr_tx fr" "fr_hash (with_calls fr f) = fr_hash fr"
  "account_exists (fr_host (with_calls fr f)) = account_exists (fr_host fr)" "get_storage (fr_host (with_calls fr f)) = get_storage (fr_host fr)"
  "set_storage (fr_host (with_calls fr f)) = set_storage (fr_host fr)" "get_balance (fr_host (with_calls fr f)) = get_balance (fr_host fr)"
  "get_code_size (fr_host (with_calls fr f)) = get_code_size (fr_host fr)" "copy_code (fr_host (with_calls fr f)) = copy_code (fr_host fr)"
  "host_selfdestruct (fr_host (with_calls fr f)) = host_selfdestruct (fr_host fr)" "emit_log (fr_host (with_calls fr f)) = emit_log (fr_host fr)"
  "get_block_hash (fr_host (with_calls fr f)) = get_block_hash (fr_host fr)" "host_call (fr_host (with_calls fr f)) = f"
  by simp_all

lemma with_calls_access:
  "y_balance (with_calls fr f) = y_balance fr" "y_exists (with_calls fr f) = y_exists fr" "y_storage (with_calls fr f) = y_storage fr"
  "y_code (with_calls fr f) = y_code fr" "y_env (with_calls fr f) = y_env fr" "y_message (with_calls fr f) = y_message fr"
  "y_account_cost (with_calls fr f) = y_account_cost fr" "y_call_gas (with_calls fr f) = y_call_gas fr"
proof -
  show access: "y_balance (with_calls fr f) = y_balance fr" "y_exists (with_calls fr f) = y_exists fr"
    by (intro ext, simp only: y_balance_def y_exists_def with_calls_fields)+
  show "y_storage (with_calls fr f) = y_storage fr" "y_code (with_calls fr f) = y_code fr" "y_env (with_calls fr f) = y_env fr"
    "y_message (with_calls fr f) = y_message fr" "y_account_cost (with_calls fr f) = y_account_cost fr"
    "y_call_gas (with_calls fr f) = y_call_gas fr"
    by (intro ext, simp only: y_storage_def y_code_def y_env_def y_message_def y_account_cost_def y_call_gas_def access with_calls_fields)+
qed

lemma with_calls_send:
  assumes "same_calls fr f"
  shows "y_send (with_calls fr f) = y_send fr"
proof (intro ext)
  fix inst gas addr amount input and y :: "'a machine_state"
  have "f (y_host y) (y_message fr inst gas addr amount input) = host_call (fr_host fr) (y_host y) (y_message fr inst gas addr amount input)"
    if "sint (msg_depth (fr_msg fr)) < 1024"
    using assms that by (simp add: same_calls_def y_message_def Let_def)
  then show "y_send (with_calls fr f) inst gas addr amount input y = y_send fr inst gas addr amount input y"
    by (simp only: y_send_def with_calls_fields with_calls_access if_True if_False cong: conj_cong if_cong)
qed

lemma with_calls_step:
  assumes "same_calls fr f"
  shows "y_step (with_calls fr f) = y_step fr"
proof -
  note same = with_calls_send [OF assms] with_calls_access with_calls_fields
  have calls: "y_create (with_calls fr f) = y_create fr" "y_call (with_calls fr f) = y_call fr"
    by (intro ext, simp only: y_create_def y_call_def same)+
  have "y_value (with_calls fr f) = y_value fr"
    by (intro ext) (simp only: y_value_def calls same)
  moreover have "y_suicide_cost (with_calls fr f) = y_suicide_cost fr"
    by (intro ext) (simp only: y_suicide_cost_def same)
  then have "y_effect (with_calls fr f) = y_effect fr"
    by (intro ext) (simp only: y_effect_def same)
  ultimately have "y_exec (with_calls fr f) = y_exec fr"
    by (intro ext) (simp only: y_exec_def same)
  then show ?thesis by (intro ext) (simp only: y_step_def same)
qed

lemma with_calls_run:
  assumes "same_calls fr f"
  shows "y_run fuel (with_calls fr f) pc S y = y_run fuel fr pc S y"
  by (induction fuel arbitrary: pc S y) (simp_all add: with_calls_step [OF assms] split: option.split y_next.split)

lemma depth_successor: "0 \<le> sint d \<Longrightarrow> sint d < 1024 \<Longrightarrow> sint (d + 1) = sint d + 1" for d :: "32 word"
  by (simp add: sint_word_ariths signed_take_bit_int_eq_self)

lemma evm_host_calls: "(evm_host C n)\<lparr> host_call := host_call (evm_host C m) \<rparr> = evm_host C m"
  by (cases n; cases m) (simp_all add: last_host_def)

lemma evm_host_settles:
  assumes C: "client_ok program C"
  shows "0 \<le> sint (msg_depth msg) \<Longrightarrow> 1 \<le> n \<Longrightarrow> 1025 \<le> int n + sint (msg_depth msg) \<Longrightarrow>
    host_call (evm_host C (n + k)) w msg = host_call (evm_host C n) w msg"
proof (induction n arbitrary: w msg)
  case (Suc n)
  show ?case
  proof (cases "cl_runs C w msg")
    case None
    then show ?thesis by (simp add: evm_call_def)
  next
    case (Some q)
    obtain w1 msg1 r code where q: "q = (w1, msg1, r, code)" by (cases q)
    have depth: "msg_depth msg1 = msg_depth msg" using client_okD(3) [OF C Some [unfolded q]] by (simp add: runnable_def)
    let ?fr = "\<lambda>n. message_frame (evm_host C n) r msg1 (the (destination msg1)) code (get_tx_context (cl_host C) w1)"
    have "same_calls (?fr n) (host_call (evm_host C (n + k)))"
      unfolding same_calls_def
    proof (intro allI impI)
      fix w' and m :: evmc_message
      assume "sint (msg_depth (fr_msg (?fr n))) < 1024" "msg_depth m = msg_depth (fr_msg (?fr n)) + 1"
      then have "sint (msg_depth msg) < 1024" "sint (msg_depth m) = sint (msg_depth msg) + 1"
        using depth_successor Suc.prems(1) by (simp_all add: message_frame_def depth)
      then show "host_call (evm_host C (n + k)) w' m = host_call (fr_host (?fr n)) w' m"
        using Suc.IH [of m w'] Suc.prems by (simp add: message_frame_def)
    qed
    moreover have "with_calls (?fr n) (host_call (evm_host C (n + k))) = ?fr (n + k)"
      by (simp add: message_frame_def evm_host_calls)
    ultimately have "y_run fuel (?fr (n + k)) pc S y = y_run fuel (?fr n) pc S y" for fuel pc S y
      using with_calls_run by metis
    moreover have "y_init (?fr (n + k)) w1 = y_init (?fr n) w1" by (simp add: y_init_def message_frame_def)
    ultimately show ?thesis using Some by (simp add: evm_call_def q Let_def)
  qed
qed simp

section \<open>Rejected messages\<close>

text \<open>An instance that has not seen the code of a message often enough rejects it; then the message stays.\<close>

definition rejects :: "evmc_message \<Rightarrow> evmc_revision \<Rightarrow> ('h, 'fs, 'o, 'f) jit \<Rightarrow> bool" where
  "rejects msg r jit \<longleftrightarrow> no_reset msg jit \<and>
     (\<exists>codeHash. msg_code_hash msg = Some codeHash \<and> \<not> ready (makeCodeId codeHash r (msg_flags msg)) jit)"

lemma rejected_call:
  assumes runs: "cl_runs C w msg = Some (w1, msg1, r, code)" "destination msg1 = Some dest" "rejects msg1 r (J w1 msg1)"
  shows "nested_call F E mc J C host (w, cur) msg =
    (let (answer, w2) = cl_return C w msg (Some (early_result EVMC_REJECTED w1)) in (answer, (w2, msg1)))"
proof -
  let ?jit = "(J w1 msg1)\<lparr> jit_host := Some host, currentMsg := Some cur \<rparr>"
  obtain codeHash where hash: "msg_code_hash msg1 = Some codeHash" and r: "\<not> ready (makeCodeId codeHash r (msg_flags msg1)) (J w1 msg1)"
    and reset: "no_reset msg1 (J w1 msg1)"
    using runs(3) by (auto simp: rejects_def)
  let ?ident = "makeCodeId codeHash r (msg_flags msg1)"
  have "\<not> ready ?ident ?jit" and start: "no_reset msg1 ?jit" using r reset by (simp_all add: ready_def map_entry_def no_reset_def)
  note new = not_ready [OF this(1)]
  have "execute_in (\<lambda>_. snd) (frame_fuel msg1 code) F E mc host (w1, msg1) r msg1 code ?jit =
      Some (Done (early_result EVMC_REJECTED (w1, msg1), after_reject host msg1 ?ident ?jit))"
    by (rule execute_in_reject [OF start runs(2) hash refl new])
  moreover have "client_view (early_result EVMC_REJECTED (w1, msg1)) = early_result EVMC_REJECTED w1"
    by (simp add: client_view_def map_world_def host_view_def early_result_def)
  ultimately show ?thesis using runs(1) by (simp add: nested_call_def Let_def case_prod_beta)
qed

section \<open>A concrete client\<close>

text \<open>It executes the sample program for every call that is well-formed, and undoes what fails.\<close>

definition sample_client :: "nat client" where
  "sample_client =
     \<lparr> cl_host = sample_host,
       cl_runs = (\<lambda>w msg.
         if length (sender msg) = 20 \<and> length (msg_value msg) = 32 \<and> unat (msg_gas msg) < 2 ^ 47 \<and> length (input_data msg) < 2 ^ 63
         then Some (w + 1, msg\<lparr> destination := Some (replicate 20 2), msg_code_hash := Some (replicate 32 9) \<rparr>, EVMC_BYZANTIUM, sample_code)
         else None),
       cl_return = (\<lambda>w msg x.
         case x of
           Some y \<Rightarrow> (\<lparr> status_code = res_status y, gas_left = res_gas y,
                       output_data = (if length (res_output y) < 2 ^ 63 then res_output y else []), create_address = replicate 20 1 \<rparr>,
                     case res_host y of Some w' \<Rightarrow> w' | None \<Rightarrow> w)
         | None \<Rightarrow> (\<lparr> status_code = EVMC_INTERNAL_ERROR, gas_left = 0, output_data = [], create_address = replicate 20 1 \<rparr>, w)) \<rparr>"

lemma sample_client_ok: "client_ok (\<lambda>_. sample_code) sample_client"
proof -
  have "host_ok (cl_host sample_client)" "\<forall>w w'. get_tx_context (cl_host sample_client) w = get_tx_context (cl_host sample_client) w'"
    by (simp_all add: sample_client_def sample_host_ok) (simp add: sample_host_def)
  moreover have "answer_ok msg (fst (cl_return sample_client w msg x))"
    if "\<forall>y. x = Some y \<longrightarrow> unat (res_gas y) \<le> unat (msg_gas msg)" for w msg x
    using that by (cases x) (simp_all add: sample_client_def answer_ok_def)
  moreover have "runnable (\<lambda>_. sample_code) msg msg1 code" if "cl_runs sample_client w msg = Some (w1, msg1, r, code)" for w msg w1 msg1 r code
  proof -
    have r: "msg1 = msg\<lparr> destination := Some (replicate 20 2), msg_code_hash := Some (replicate 32 9) \<rparr>" "code = sample_code"
      and msg: "length (sender msg) = 20" "length (msg_value msg) = 32" "unat (msg_gas msg) < 2 ^ 47" "length (input_data msg) < 2 ^ 63"
      using that by (auto simp: sample_client_def split: if_splits)
    have "message_ok msg1 (replicate 20 2) (replicate 32 9)" using msg by (simp add: message_ok_def r(1))
    then show ?thesis
      unfolding runnable_def r(2) using msg sample_short sample_not_risky by (intro conjI exI [of _ "replicate 20 2"] exI [of _ "replicate 32 9"]) (simp_all add: r(1))
  qed
  ultimately show ?thesis by (simp add: client_ok_def)
qed

lemma sample_jit_warm: "warm map_fs sample_engine (\<lambda>_. sample_code) (sample_jit 0)"
  by (simp add: warm_def sample_jit_sound new_entry_def)

lemma sample_runnable: "runnable (\<lambda>_. sample_code) (sample_msg False 1) (sample_msg False 1) sample_code"
  unfolding runnable_def using sample_msg_ok sample_short sample_not_risky sample_sizes
  by (intro conjI exI [of _ "replicate 20 2"] exI [of _ "replicate 32 9"]) simp_all

section \<open>Properties\<close>



text \<open>
  C14. The depth check bounds the nesting.  A call is not made from depth 1024 on, so a client answers a message
  of depth \<open>d\<close> in the same way however many more than \<open>1025 - d\<close> levels of executions it could start: the
  executions that a message brings about are never more than that deep.
\<close>

theorem call_depth_is_enough:
  assumes "client_ok program C" "engine_ok F E" "\<And>w msg. warm F E program (J w msg)"
    and "2 ^ 33 \<le> heap_limit mc" "little_endian mc"
    and "0 \<le> sint (msg_depth msg)" "1 \<le> n" "1025 \<le> int n + sint (msg_depth msg)"
  shows "host_call (nested_host F E mc J C (n + k)) h msg = host_call (nested_host F E mc J C n) h msg"
  using nested_hosts [OF assms(1,4,5,2,3)] evm_host_settles [OF assms(1,6-8)] by (cases h) simp

theorem call_depth_is_enough_witness:
  "host_call (nested_host map_fs sample_engine (e_machine sample_frame) (\<lambda>_ _. sample_jit 0) sample_client (1024 + 1000))
     (0, sample_msg False 0) (sample_msg False 1) =
   host_call (nested_host map_fs sample_engine (e_machine sample_frame) (\<lambda>_ _. sample_jit 0) sample_client 1024)
     (0, sample_msg False 0) (sample_msg False 1)"
proof -
  have mc: "2 ^ 33 \<le> heap_limit (e_machine sample_frame)" "little_endian (e_machine sample_frame)" by simp_all
  have depth: "sint (msg_depth (sample_msg False 1)) = 1" by (simp add: sample_msg_def)
  show ?thesis
    by (rule call_depth_is_enough [OF sample_client_ok sample_engine_ok sample_jit_warm mc]) (simp_all add: depth)
qed

text \<open>
  C18. A rejected callee takes its caller's place.  If the instance rejects the message of a call, the callee's
  message is still the current one when the caller goes on: the caller's later calls come from the
  callee's address, a DELEGATECALL carries the callee's caller and value, the depth is one too deep, and the
  flags, so also the one for static calls, are the callee's.
\<close>

theorem rejected_callee_takes_over:
  assumes "cl_runs C w msg = Some (w1, msg1, r, code)" "destination msg1 = Some dest" "rejects msg1 r (J w1 msg1)"
    and "e = (make_env mc (nested_host F E mc J C (Suc n)) r0 own self code0)\<lparr> e_msg := snd \<rparr>"
    and "host_call (e_host e) (w, own) msg = (answer, h)"
    and "m = call_message (e_msg e h) kind gas address amount input"
  shows "h = (snd (cl_return C w msg (Some (early_result EVMC_REJECTED w1))), msg1) \<and>
    msg_depth m = msg_depth msg1 + 1 \<and>
    (kind = EVMC_DELEGATECALL \<longrightarrow> sender m = sender msg1 \<and> msg_value m = msg_value msg1) \<and>
    (kind \<noteq> EVMC_DELEGATECALL \<longrightarrow> sender m = dest) \<and>
    msg_flags m = (if kind = EVM_STATICCALL then msg_flags msg1 OR EVMC_STATIC else msg_flags msg1)"
proof -
  have "host_call (e_host e) (w, own) msg = nested_call F E mc J C (nested_host F E mc J C n) (w, own) msg"
    by (simp add: assms(4) make_env_def)
  then have h: "h = (snd (cl_return C w msg (Some (early_result EVMC_REJECTED w1))), msg1)"
    using assms(5) by (simp add: rejected_call [where J = J, OF assms(1-3)] Let_def case_prod_beta)
  then have "e_msg e h = msg1" by (simp add: assms(4))
  then show ?thesis using h assms(2) by (simp add: assms(6) call_message_def)
qed

theorem rejected_callee_takes_over_witness:
  "\<exists>answer w2. host_call (nested_host map_fs sample_engine (e_machine sample_frame) (\<lambda>_ _. sample_jit 1) sample_client 1)
      (0, (sample_msg False 0)\<lparr> destination := Some (replicate 20 7) \<rparr>) (sample_msg True 1) = (answer, (w2, sample_msg True 1)) \<and>
    sender (call_message (sample_msg True 1) EVMC_CALL 0 None [] []) = replicate 20 2 \<and>
    msg_flags (call_message (sample_msg True 1) EVMC_CALL 0 None [] []) = EVMC_STATIC"
proof -
  let ?own = "(sample_msg False 0)\<lparr> destination := Some (replicate 20 7) \<rparr>"
    and ?host = "nested_host map_fs sample_engine (e_machine sample_frame) (\<lambda>_ _. sample_jit 1) sample_client (Suc 0)"
  have runs: "cl_runs sample_client 0 (sample_msg True 1) = Some (1, sample_msg True 1, EVMC_BYZANTIUM, sample_code)"
    by (simp add: sample_client_def sample_msg_def)
  have rej: "rejects (sample_msg True 1) EVMC_BYZANTIUM (sample_jit 1)"
    by (simp add: rejects_def ready_def new_entry_def) (simp add: sample_msg_def)
  have dest: "destination (sample_msg True 1) = Some (replicate 20 2)" by (simp add: sample_msg_def)
  obtain answer h where c: "host_call ?host (0, ?own) (sample_msg True 1) = (answer, h)" by (rule prod.exhaust)
  have "host_call (e_host ((make_env (e_machine sample_frame) ?host EVMC_BYZANTIUM ?own [] [])\<lparr> e_msg := snd \<rparr>)) (0, ?own) (sample_msg True 1) = (answer, h)"
    using c by (simp only: make_env_def env.simps)
  note t = rejected_callee_takes_over [where J = "\<lambda>_ _. sample_jit 1" and kind = EVMC_CALL and gas = 0 and address = None and amount = "[]" and input = "[]",
      OF runs dest rej refl this refl]
  let ?w2 = "snd (cl_return sample_client 0 (sample_msg True 1) (Some (early_result EVMC_REJECTED 1)))"
  have h: "h = (?w2, sample_msg True 1)" using t by blast
  have "snd h = sample_msg True 1" by (simp only: h snd_conv)
  then have "sender (call_message (sample_msg True 1) EVMC_CALL 0 None [] []) = replicate 20 2"
    "msg_flags (call_message (sample_msg True 1) EVMC_CALL 0 None [] []) = msg_flags (sample_msg True 1)"
    using t by auto
  moreover have "msg_flags (sample_msg True 1) = EVMC_STATIC" by (simp add: sample_msg_def)
  moreover have "host_call ?host (0, ?own) (sample_msg True 1) = (answer, (?w2, sample_msg True 1))" unfolding c h ..
  ultimately show ?thesis unfolding One_nat_def by metis
qed

end
