(* ===== verification/Abi.thy ===== *)
theory Abi
  imports Prelude
begin

text \<open>
  The binary interface between compiled code and its surroundings: the LLVM types of
  \<^verbatim>\<open>libevmjit/Type.cpp\<close>, the struct types of \<^verbatim>\<open>RuntimeManager.cpp\<close> against the C++ structs of \<^verbatim>\<open>JIT.h\<close>,
  the external functions that \<^verbatim>\<open>Ext.cpp\<close> declares and calls, and the symbols that
  \<^verbatim>\<open>SymbolResolver::findSymbol\<close> of \<^verbatim>\<open>JIT.cpp\<close> gives them.
\<close>

section \<open>Types\<close>

datatype lltype = IntT nat | PtrT lltype | ArrT nat lltype | VecT nat lltype | StructT string "lltype list" | VoidT

definition Type_Word :: lltype where "Type_Word = IntT 256"
definition Type_WordPtr :: lltype where "Type_WordPtr = PtrT Type_Word"
definition Type_Bool :: lltype where "Type_Bool = IntT 1"
definition Type_Size :: lltype where "Type_Size = IntT 64"
definition Type_Gas :: lltype where "Type_Gas = Type_Size"
definition Type_GasPtr :: lltype where "Type_GasPtr = PtrT Type_Gas"
definition Type_Byte :: lltype where "Type_Byte = IntT 8"
definition Type_BytePtr :: lltype where "Type_BytePtr = PtrT Type_Byte"
definition Type_MainReturn :: lltype where "Type_MainReturn = IntT 32"
definition Type_EnvPtr :: lltype where "Type_EnvPtr = PtrT (StructT ''Env'' [])"

definition getRuntimeDataType :: lltype where
  "getRuntimeDataType = StructT ''RuntimeData''
     [Type_Size, Type_Size, Type_BytePtr, Type_Size, Type_Word, Type_BytePtr, Type_Size, Type_Word, Type_Word, Type_Size]"

definition Array_getType :: lltype where
  "Array_getType = StructT ''Array'' [Type_WordPtr, Type_Size, Type_Size]"

definition Type_RuntimeDataPtr :: lltype where "Type_RuntimeDataPtr = PtrT getRuntimeDataType"

definition getRuntimeType :: lltype where
  "getRuntimeType = StructT ''Runtime'' [Type_RuntimeDataPtr, Type_EnvPtr, Array_getType]"

definition getTxContextType :: lltype where
  "getTxContextType = StructT ''evm.txctx''
     [IntT 256, ArrT 20 (IntT 8), ArrT 20 (IntT 8), IntT 64, IntT 64, IntT 64, IntT 256]"

lemmas type_defs = Type_Word_def Type_WordPtr_def Type_Bool_def Type_Size_def Type_Gas_def Type_GasPtr_def Type_Byte_def
  Type_BytePtr_def Type_MainReturn_def Type_EnvPtr_def Type_RuntimeDataPtr_def

section \<open>Layout\<close>

text \<open>Where a struct's fields are: each at the next multiple of its alignment.\<close>

definition align_up :: "nat \<Rightarrow> nat \<Rightarrow> nat" where
  "align_up pos a = (pos + a - 1) div a * a"

fun offsets :: "nat \<Rightarrow> (nat \<times> nat) list \<Rightarrow> nat list" where
  "offsets pos [] = []"
| "offsets pos ((sz, al) # fs) = align_up pos al # offsets (align_up pos al + sz) fs"

definition struct_align :: "(nat \<times> nat) list \<Rightarrow> nat" where
  "struct_align fs = fold max (map snd fs) 1"

fun struct_end :: "nat \<Rightarrow> (nat \<times> nat) list \<Rightarrow> nat" where
  "struct_end pos [] = pos"
| "struct_end pos ((sz, al) # fs) = struct_end (align_up pos al + sz) fs"

definition struct_shape :: "(nat \<times> nat) list \<Rightarrow> nat \<times> nat" where
  "struct_shape fs = (align_up (struct_end 0 fs) (struct_align fs), struct_align fs)"

text \<open>Size and alignment of an LLVM type in the target's data layout: \<open>ia\<close> is the alignment of integers by
  their width, pointers have 8 bytes.\<close>

fun ll_shape :: "(nat \<Rightarrow> nat) \<Rightarrow> lltype \<Rightarrow> nat \<times> nat" where
  "ll_shape ia (IntT w) = (align_up ((w + 7) div 8) (ia w), ia w)"
| "ll_shape ia (PtrT t) = (8, 8)"
| "ll_shape ia (ArrT n t) = (n * fst (ll_shape ia t), snd (ll_shape ia t))"
| "ll_shape ia (VecT n t) = (n * fst (ll_shape ia t), n * fst (ll_shape ia t))"
| "ll_shape ia (StructT name ts) = struct_shape (map (ll_shape ia) ts)"
| "ll_shape ia VoidT = (0, 1)"

text \<open>C++ types on a 64-bit target: integers by their bytes.\<close>

datatype ctype = CInt nat | CPtr | CArr nat ctype | CStruct "ctype list"

fun c_shape :: "ctype \<Rightarrow> nat \<times> nat" where
  "c_shape (CInt n) = (n, n)"
| "c_shape CPtr = (8, 8)"
| "c_shape (CArr n t) = (n * fst (c_shape t), snd (c_shape t))"
| "c_shape (CStruct ts) = struct_shape (map c_shape ts)"

definition c_i256 :: ctype where
  "c_i256 = CStruct [CArr 4 (CInt 8)]"

text \<open>\<^verbatim>\<open>struct RuntimeData\<close>: gas, gasPrice, callData, callDataSize, apparentValue, code, codeSize, address,
  caller, depth.\<close>

definition c_RuntimeData :: "ctype list" where
  "c_RuntimeData = [CInt 8, CInt 8, CPtr, CInt 8, c_i256, CPtr, CInt 8, CArr 32 (CInt 1), CArr 32 (CInt 1), CInt 8]"

text \<open>The fields of \<^verbatim>\<open>class ExecutionContext\<close> that compiled code expects: m_data, m_ctx, and the memory's
  data, size and capacity.\<close>

definition c_ExecutionContext :: "ctype list" where
  "c_ExecutionContext = [CPtr, CPtr, CPtr, CInt 8, CInt 8]"

text \<open>\<^verbatim>\<open>RuntimeData::Index\<close>.\<close>

definition RuntimeData_Index :: "string list" where
  "RuntimeData_Index = [''Gas'', ''GasPrice'', ''CallData'', ''CallDataSize'', ''Value'', ''Code'', ''CodeSize'', ''Address'',
     ''Sender'', ''Depth'']"

definition elements :: "lltype \<Rightarrow> lltype list" where
  "elements t = (case t of StructT name ts \<Rightarrow> ts | _ \<Rightarrow> [])"

section \<open>External functions\<close>

datatype attribute = ReadOnly | NoAlias | NoCapture

record func_decl =
  fd_name :: string
  fd_ret :: lltype
  fd_params :: "lltype list"
  fd_attrs :: "(nat \<times> attribute) list"
  fd_external :: bool

definition addrPtrTy :: lltype where
  "addrPtrTy = PtrT (IntT 160)"

text \<open>The attributes of a pointer that is only read, and of one that is written; parameters count from 1.\<close>

definition read_only :: "nat \<Rightarrow> (nat \<times> attribute) list" where
  "read_only i = [(i, ReadOnly), (i, NoAlias), (i, NoCapture)]"

definition unaliased :: "nat \<Rightarrow> (nat \<times> attribute) list" where
  "unaliased i = [(i, NoAlias), (i, NoCapture)]"

definition account_exists_func :: func_decl where
  "account_exists_func = \<lparr> fd_name = ''evm.exists'', fd_ret = IntT 32, fd_params = [Type_EnvPtr, addrPtrTy], fd_attrs = [],
     fd_external = True \<rparr>"

definition get_storage_func :: func_decl where
  "get_storage_func = \<lparr> fd_name = ''evm.sload'', fd_ret = VoidT,
     fd_params = [Type_WordPtr, Type_EnvPtr, addrPtrTy, Type_WordPtr],
     fd_attrs = unaliased 1 @ read_only 3 @ read_only 4, fd_external = True \<rparr>"

definition set_storage_func :: func_decl where
  "set_storage_func = \<lparr> fd_name = ''evm.sstore'', fd_ret = VoidT,
     fd_params = [Type_EnvPtr, addrPtrTy, Type_WordPtr, Type_WordPtr],
     fd_attrs = read_only 2 @ read_only 3, fd_external = True \<rparr>"

definition get_balance_func :: func_decl where
  "get_balance_func = \<lparr> fd_name = ''evm.balance'', fd_ret = VoidT, fd_params = [Type_WordPtr, Type_EnvPtr, addrPtrTy],
     fd_attrs = unaliased 1 @ read_only 3, fd_external = True \<rparr>"

definition get_code_size_func :: func_decl where
  "get_code_size_func = \<lparr> fd_name = ''evm.codesize'', fd_ret = Type_Size, fd_params = [Type_EnvPtr, addrPtrTy],
     fd_attrs = read_only 2, fd_external = True \<rparr>"

definition get_code_func :: func_decl where
  "get_code_func = \<lparr> fd_name = ''evm.code'', fd_ret = Type_Size, fd_params = [PtrT Type_BytePtr, Type_EnvPtr, addrPtrTy],
     fd_attrs = unaliased 1 @ read_only 3, fd_external = True \<rparr>"

definition selfdestruct_func :: func_decl where
  "selfdestruct_func = \<lparr> fd_name = ''evm.selfdestruct'', fd_ret = VoidT, fd_params = [Type_EnvPtr, addrPtrTy, addrPtrTy],
     fd_attrs = read_only 2 @ read_only 3, fd_external = True \<rparr>"

definition log_func :: func_decl where
  "log_func = \<lparr> fd_name = ''evm.log'', fd_ret = VoidT,
     fd_params = [Type_EnvPtr, addrPtrTy, Type_BytePtr, Type_Size, Type_WordPtr, Type_Size],
     fd_attrs = read_only 3 @ read_only 5, fd_external = True \<rparr>"

definition call_params :: "lltype list" where
  "call_params = [Type_EnvPtr, IntT 32, Type_Gas, addrPtrTy, Type_WordPtr, Type_BytePtr, Type_Size, Type_BytePtr, Type_Size,
     PtrT Type_BytePtr, PtrT Type_Size]"

definition call_attrs :: "(nat \<times> attribute) list" where
  "call_attrs = read_only 4 @ read_only 5 @ [(6, ReadOnly), (6, NoCapture), (8, NoCapture)]"

definition call_func :: func_decl where
  "call_func = \<lparr> fd_name = ''evm.call'', fd_ret = Type_Gas, fd_params = call_params, fd_attrs = call_attrs, fd_external = True \<rparr>"

definition call_wrapper_func :: func_decl where
  "call_wrapper_func = \<lparr> fd_name = ''call'', fd_ret = Type_Gas, fd_params = call_params @ [IntT 160, Type_Size],
     fd_attrs = call_attrs, fd_external = False \<rparr>"

definition block_hash_func :: func_decl where
  "block_hash_func = \<lparr> fd_name = ''evm.blockhash'', fd_ret = VoidT, fd_params = [Type_WordPtr, Type_EnvPtr, IntT 64],
     fd_attrs = unaliased 1, fd_external = True \<rparr>"

definition get_tx_context_func :: func_decl where
  "get_tx_context_func = \<lparr> fd_name = ''evm.get_tx_context'', fd_ret = VoidT, fd_params = [PtrT getTxContextType, Type_EnvPtr],
     fd_attrs = [], fd_external = True \<rparr>"

text \<open>\<^verbatim>\<open>getEnvFuncDescs\<close>, of which only \<^verbatim>\<open>sha3\<close> is still used.\<close>

datatype env_func = EF_sload | EF_sstore | EF_sha3 | EF_balance | EF_create | EF_call | EF_log | EF_blockhash | EF_extcode

definition env_desc :: "string \<Rightarrow> lltype \<Rightarrow> lltype list \<Rightarrow> func_decl" where
  "env_desc name ret params = \<lparr> fd_name = name, fd_ret = ret, fd_params = params, fd_attrs = [], fd_external = True \<rparr>"

definition createFunc :: "env_func \<Rightarrow> func_decl" where
  "createFunc f =
     (case f of
        EF_sload \<Rightarrow> env_desc ''env_sload'' VoidT [Type_EnvPtr, Type_WordPtr, Type_WordPtr]
      | EF_sstore \<Rightarrow> env_desc ''env_sstore'' VoidT [Type_EnvPtr, Type_WordPtr, Type_WordPtr]
      | EF_sha3 \<Rightarrow> env_desc ''env_sha3'' VoidT [Type_BytePtr, Type_Size, Type_WordPtr]
      | EF_balance \<Rightarrow> env_desc ''env_balance'' VoidT [Type_WordPtr, Type_EnvPtr, Type_WordPtr]
      | EF_create \<Rightarrow> env_desc ''env_create'' VoidT
          [Type_EnvPtr, Type_GasPtr, Type_WordPtr, Type_BytePtr, Type_Size, Type_WordPtr]
      | EF_call \<Rightarrow> env_desc ''env_call'' Type_Bool
          [Type_EnvPtr, Type_GasPtr, Type_Gas, Type_WordPtr, Type_WordPtr, Type_WordPtr, Type_WordPtr, Type_WordPtr,
           Type_BytePtr, Type_Size, Type_BytePtr, Type_Size]
      | EF_log \<Rightarrow> env_desc ''env_log'' VoidT
          [Type_EnvPtr, Type_BytePtr, Type_Size, Type_WordPtr, Type_WordPtr, Type_WordPtr, Type_WordPtr]
      | EF_blockhash \<Rightarrow> env_desc ''env_blockhash'' VoidT [Type_EnvPtr, Type_WordPtr, Type_WordPtr]
      | EF_extcode \<Rightarrow> env_desc ''env_extcode'' Type_BytePtr [Type_EnvPtr, Type_WordPtr, PtrT Type_Size])"

section \<open>Declaring them in a module\<close>

text \<open>The functions of a module in order; creating one under a name that is taken would rename it.\<close>

definition has_function :: "string \<Rightarrow> func_decl list \<Rightarrow> bool" where
  "has_function name fs \<longleftrightarrow> name \<in> set (map fd_name fs)"

definition get_or_create :: "func_decl \<Rightarrow> func_decl list \<Rightarrow> func_decl list" where
  "get_or_create d fs = (if has_function (fd_name d) fs then fs else fs @ [d])"

definition getCallFunc :: "func_decl list \<Rightarrow> func_decl list" where
  "getCallFunc fs =
     (if has_function ''call'' fs then fs else get_or_create get_balance_func (fs @ [call_func, call_wrapper_func]))"

definition getters :: "(func_decl list \<Rightarrow> func_decl list) list" where
  "getters = getCallFunc #
     map get_or_create [account_exists_func, get_storage_func, set_storage_func, get_balance_func, get_code_size_func,
       get_code_func, selfdestruct_func, log_func, block_hash_func]"

definition names_ok :: "func_decl list \<Rightarrow> bool" where
  "names_ok fs \<longleftrightarrow> distinct (map fd_name fs) \<and> (has_function ''evm.call'' fs \<longleftrightarrow> has_function ''call'' fs)"

section \<open>Calling them\<close>

definition is_ptr :: "lltype \<Rightarrow> bool" where
  "is_ptr t = (case t of PtrT _ \<Rightarrow> True | _ \<Rightarrow> False)"

text \<open>\<^verbatim>\<open>createCABICall\<close>: a value for a pointer parameter is stored in the next argument alloca; \<open>k\<close> counts the
  allocas in use.\<close>

fun createCABICall :: "lltype list \<Rightarrow> lltype list \<Rightarrow> nat \<Rightarrow> lltype list \<times> nat" where
  "createCABICall (p # ps) (a # as) k =
     (if is_ptr p \<and> \<not> is_ptr a
      then (let (ts, k1) = createCABICall ps as (k + 1) in (PtrT a # ts, k1))
      else (let (ts, k1) = createCABICall ps as k in (a # ts, k1)))"
| "createCABICall ps as k = (as, k)"

definition max_argAllocas :: nat where
  "max_argAllocas = 8"

text \<open>The calls of \<^verbatim>\<open>class Ext\<close>: the function, the types of the arguments, the allocas taken before.\<close>

definition ext_calls :: "(func_decl \<times> lltype list \<times> nat) list" where
  "ext_calls =
     [(get_storage_func, [Type_WordPtr, Type_EnvPtr, addrPtrTy, Type_Word], 2),
      (set_storage_func, [Type_EnvPtr, IntT 160, Type_Word, Type_Word], 0),
      (selfdestruct_func, [Type_EnvPtr, IntT 160, IntT 160], 0),
      (get_balance_func, [Type_WordPtr, Type_EnvPtr, addrPtrTy], 2),
      (account_exists_func, [Type_EnvPtr, addrPtrTy], 1),
      (block_hash_func, [Type_WordPtr, Type_EnvPtr, IntT 64], 1),
      (createFunc EF_sha3, [Type_BytePtr, Type_Size, Type_WordPtr], 1),
      (get_code_func, [PtrT Type_BytePtr, Type_EnvPtr, addrPtrTy], 2),
      (get_code_size_func, [Type_EnvPtr, addrPtrTy], 1),
      (log_func, [Type_EnvPtr, IntT 160, Type_BytePtr, Type_Size, Type_WordPtr, Type_Size], 0),
      (call_wrapper_func, [Type_EnvPtr, IntT 32, Type_Size, IntT 160, Type_WordPtr, Type_BytePtr, Type_Size, Type_BytePtr, Type_Size,
         PtrT Type_BytePtr, PtrT Type_Size, IntT 160, Type_Size], 1),
      (call_wrapper_func, [Type_EnvPtr, IntT 32, Type_Gas, IntT 160, Type_WordPtr, Type_BytePtr, Type_Size, Type_BytePtr, Type_Size,
         PtrT Type_BytePtr, PtrT Type_Size, IntT 160, Type_Size], 2)]"

section \<open>Resolving them\<close>

text \<open>What an external symbol is bound to: a function of the host's table, or one of the JIT.\<close>

datatype target = HostFunction string | Keccak_function | Call_function | GetCode_function

definition symbol_table :: "(string \<times> target) list" where
  "symbol_table =
     [(''env_sha3'', Keccak_function),
      (''evm.exists'', HostFunction ''account_exists''),
      (''evm.sload'', HostFunction ''get_storage''),
      (''evm.sstore'', HostFunction ''set_storage''),
      (''evm.balance'', HostFunction ''get_balance''),
      (''evm.codesize'', HostFunction ''get_code_size''),
      (''evm.code'', GetCode_function),
      (''evm.selfdestruct'', HostFunction ''selfdestruct''),
      (''evm.call'', Call_function),
      (''evm.get_tx_context'', HostFunction ''get_tx_context''),
      (''evm.blockhash'', HostFunction ''get_block_hash''),
      (''evm.log'', HostFunction ''emit_log'')]"

text \<open>\<^verbatim>\<open>findSymbol\<close> under the data layout's global prefix; \<open>null\<close> holds of the functions the host does not have,
  \<open>None\<close> is the search in the process.\<close>

definition findSymbol :: "char option \<Rightarrow> (target \<Rightarrow> bool) \<Rightarrow> string \<Rightarrow> target option" where
  "findSymbol prefix null name =
     (let unprefixedName = (case prefix of Some c \<Rightarrow> if name \<noteq> [] \<and> hd name = c then tl name else name | None \<Rightarrow> name)
      in case map_of symbol_table unprefixedName of
           Some t \<Rightarrow> if null t then None else Some t
         | None \<Rightarrow> None)"

text \<open>LLVM puts the prefix before the name of a global.\<close>

definition mangle :: "char option \<Rightarrow> string \<Rightarrow> string" where
  "mangle prefix name = (case prefix of Some c \<Rightarrow> c # name | None \<Rightarrow> name)"

text \<open>The functions that emitted code can call.\<close>

definition emitted_externals :: "(func_decl \<times> target) list" where
  "emitted_externals =
     [(account_exists_func, HostFunction ''account_exists''), (get_storage_func, HostFunction ''get_storage''),
      (set_storage_func, HostFunction ''set_storage''), (get_balance_func, HostFunction ''get_balance''),
      (get_code_size_func, HostFunction ''get_code_size''), (get_code_func, GetCode_function),
      (selfdestruct_func, HostFunction ''selfdestruct''), (log_func, HostFunction ''emit_log''),
      (call_func, Call_function), (block_hash_func, HostFunction ''get_block_hash''),
      (get_tx_context_func, HostFunction ''get_tx_context''), (createFunc EF_sha3, Keccak_function)]"

lemmas decl_defs = account_exists_func_def get_storage_func_def set_storage_func_def get_balance_func_def get_code_size_func_def
  get_code_func_def selfdestruct_func_def log_func_def call_func_def call_wrapper_func_def block_hash_func_def
  get_tx_context_func_def createFunc_def env_desc_def

section \<open>Lemmas\<close>

text \<open>The alignment of \<^verbatim>\<open>i256\<close> is 8 on x86-64 in the LLVM version of the repository, 16 in later ones.\<close>

definition layout_ok :: "(nat \<Rightarrow> nat) \<Rightarrow> bool" where
  "layout_ok ia \<longleftrightarrow> ia 64 = 8 \<and> ia 256 \<in> {1, 2, 4, 8, 16}"

lemma align_up_numeral [simp]: "align_up 0 a = (a - 1) div a * a"
  by (simp add: align_up_def)

lemma shapes:
  assumes "layout_ok ia"
  shows "map (ll_shape ia) (elements getRuntimeDataType) =
      [(8, 8), (8, 8), (8, 8), (8, 8), (32, ia 256), (8, 8), (8, 8), (32, ia 256), (32, ia 256), (8, 8)]"
    "map (ll_shape ia) (elements Array_getType) = [(8, 8), (8, 8), (8, 8)]"
    "map (ll_shape ia) (elements getRuntimeType) = [(8, 8), (8, 8), (24, 8)]"
  using assms
  by (auto simp: layout_ok_def elements_def getRuntimeDataType_def getRuntimeType_def Array_getType_def type_defs align_up_def
      struct_shape_def struct_align_def)

lemma c_shapes:
  "map c_shape c_RuntimeData =
     [(8, 8), (8, 8), (8, 8), (8, 8), (32, 8), (8, 8), (8, 8), (32, 1), (32, 1), (8, 8)]"
  "map c_shape c_ExecutionContext = [(8, 8), (8, 8), (8, 8), (8, 8), (8, 8)]"
  by (simp_all add: c_RuntimeData_def c_ExecutionContext_def c_i256_def align_up_def struct_shape_def struct_align_def)

lemma get_or_create_names_ok:
  assumes "names_ok fs" "fd_name d \<noteq> ''evm.call''" "fd_name d \<noteq> ''call''"
  shows "names_ok (get_or_create d fs)"
  using assms by (auto simp: get_or_create_def names_ok_def has_function_def)

lemma getCallFunc_names_ok: "names_ok fs \<Longrightarrow> names_ok (getCallFunc fs)"
proof (cases "has_function ''call'' fs")
  case False
  assume "names_ok fs"
  then have "names_ok (fs @ [call_func, call_wrapper_func])"
    using False by (auto simp: names_ok_def has_function_def decl_defs)
  then show ?thesis using False by (simp add: getCallFunc_def get_or_create_names_ok decl_defs)
qed (simp add: getCallFunc_def)

section \<open>Properties\<close>

text \<open>
  C19. Compiled code and C++ agree on the layout of the data they share.  The fields of \<^verbatim>\<open>RuntimeData\<close> have
  the same offsets and sizes in the LLVM struct as in the C++ struct, with an index for each; and the
  LLVM struct \<^verbatim>\<open>Runtime\<close>, with the array of the memory inside, lies over the first fields of
  \<^verbatim>\<open>ExecutionContext\<close>.
\<close>

theorem runtime_layouts_agree:
  assumes "layout_ok ia"
  shows "offsets 0 (map (ll_shape ia) (elements getRuntimeDataType)) = offsets 0 (map c_shape c_RuntimeData) \<and>
    map fst (map (ll_shape ia) (elements getRuntimeDataType)) = map fst (map c_shape c_RuntimeData) \<and>
    length RuntimeData_Index = length (elements getRuntimeDataType) \<and>
    take 2 (offsets 0 (map (ll_shape ia) (elements getRuntimeType))) @
      map (\<lambda>p. offsets 0 (map (ll_shape ia) (elements getRuntimeType)) ! 2 + p) (offsets 0 (map (ll_shape ia) (elements Array_getType))) =
      offsets 0 (map c_shape c_ExecutionContext)"
  unfolding shapes [OF assms] c_shapes using assms
  by (auto simp: layout_ok_def align_up_def RuntimeData_Index_def elements_def getRuntimeDataType_def)

theorem runtime_layouts_agree_witness:
  "offsets 0 (map (ll_shape (\<lambda>w. if w = 256 then 8 else w div 8)) (elements getRuntimeDataType)) =
     [0, 8, 16, 24, 32, 64, 72, 80, 112, 144]"
  using runtime_layouts_agree [of "\<lambda>w. if w = 256 then 8 else w div 8"]
  by (simp add: layout_ok_def c_shapes) (simp add: align_up_def)

text \<open>
  Every call of an external function is well typed.  After \<^verbatim>\<open>createCABICall\<close> has stored the values that are
  passed by pointer, the arguments have the types of the parameters, with at most the eight allocas
  there are; the call wrapper passes on what the function it guards expects; and attributes stand on
  pointers only.
\<close>

lemma external_calls_are_well_typed:
  "(\<forall>(d, args, k) \<in> set ext_calls. fst (createCABICall (fd_params d) args k) = fd_params d \<and>
      snd (createCABICall (fd_params d) args k) \<le> max_argAllocas) \<and>
   take 11 (fd_params call_wrapper_func) = fd_params call_func \<and> fd_ret call_wrapper_func = fd_ret call_func \<and>
   (\<forall>d \<in> set (call_wrapper_func # map fst emitted_externals). \<forall>(i, a) \<in> set (fd_attrs d).
      1 \<le> i \<and> i \<le> length (fd_params d) \<and> is_ptr (fd_params d ! (i - 1)))"
proof (intro conjI)
  show "\<forall>(d, args, k) \<in> set ext_calls. fst (createCABICall (fd_params d) args k) = fd_params d \<and>
      snd (createCABICall (fd_params d) args k) \<le> max_argAllocas"
    by (simp add: ext_calls_def decl_defs call_params_def addrPtrTy_def type_defs is_ptr_def max_argAllocas_def)
  show "\<forall>d \<in> set (call_wrapper_func # map fst emitted_externals). \<forall>(i, a) \<in> set (fd_attrs d).
      1 \<le> i \<and> i \<le> length (fd_params d) \<and> is_ptr (fd_params d ! (i - 1))"
    by (simp add: emitted_externals_def decl_defs call_params_def call_attrs_def read_only_def unaliased_def addrPtrTy_def
        type_defs is_ptr_def)
qed (simp_all add: decl_defs call_params_def)

lemma external_calls_example:
  "fst (createCABICall (fd_params set_storage_func) [Type_EnvPtr, IntT 160, Type_Word, Type_Word] 0) = fd_params set_storage_func"
  using external_calls_are_well_typed by (simp add: ext_calls_def)

text \<open>
  Every external function that emitted code calls is declared once and resolved.  Whatever prefix the
  target puts before global names, the resolver binds each to the function of the host's table, to
  \<^verbatim>\<open>keccak\<close>, \<open>call\<close> or \<open>getCode\<close>, unless the host has none; and no order of the getters declares a name
  twice in a module.
\<close>

lemma externals_are_resolved:
  "(\<forall>(d, t) \<in> set emitted_externals. fd_external d \<and>
      (\<not> null t \<longrightarrow> findSymbol prefix null (mangle prefix (fd_name d)) = Some t)) \<and>
   (names_ok fs \<longrightarrow> (\<forall>get \<in> set getters. names_ok (get fs)))"
proof (intro conjI)
  have strip: "findSymbol prefix null (mangle prefix name) = findSymbol None null name" for name
    by (cases prefix) (simp_all add: findSymbol_def mangle_def)
  show "\<forall>(d, t) \<in> set emitted_externals. fd_external d \<and>
      (\<not> null t \<longrightarrow> findSymbol prefix null (mangle prefix (fd_name d)) = Some t)"
    unfolding strip by (simp add: emitted_externals_def decl_defs findSymbol_def symbol_table_def)
  show "names_ok fs \<longrightarrow> (\<forall>get \<in> set getters. names_ok (get fs))"
    by (simp add: getters_def getCallFunc_names_ok get_or_create_names_ok decl_defs)
qed

lemma externals_example:
  "findSymbol (Some CHR ''_'') (\<lambda>_. False) ''_evm.call'' = Some Call_function \<and> names_ok (getCallFunc [])"
  using externals_are_resolved [of "\<lambda>_. False" "Some CHR ''_''" "[]"]
  by (simp add: emitted_externals_def mangle_def decl_defs getters_def names_ok_def has_function_def)

end
