(* ===== verification/Helpers.thy ===== *)
theory Helpers
  imports Abi Driver
begin

text \<open>
  The helper functions of emitted code.  \<^verbatim>\<open>Array.cpp\<close>, \<^verbatim>\<open>Memory.cpp\<close> and \<^verbatim>\<open>Arith256.cpp\<close> create them in the module
  when they are first needed: some are remembered in a member of the compiler's object (\<^verbatim>\<open>LazyFunction\<close>,
  \<^verbatim>\<open>m_loadWord\<close>), others are looked up by their name in the module.  Creating one asks for the helpers that
  its body calls.
\<close>

section \<open>Helpers and their declarations\<close>

datatype helper =
    H_loadWord | H_storeWord | H_storeByte | H_require | H_push | H_set | H_getPtr | H_get | H_extend | H_realloc | H_exp
  | H_udivrem256 | H_udivrem512 | H_udiv256 | H_urem256 | H_urem512 | H_sdivrem256 | H_sdiv256 | H_srem256

definition private_func :: "string \<Rightarrow> lltype \<Rightarrow> lltype list \<Rightarrow> (nat \<times> attribute) list \<Rightarrow> func_decl" where
  "private_func name ret params attrs =
     \<lparr> fd_name = name, fd_ret = ret, fd_params = params, fd_attrs = attrs, fd_external = False \<rparr>"

text \<open>\<^verbatim>\<open>Memory::createFunc\<close>.\<close>

definition memory_func :: "bool \<Rightarrow> lltype \<Rightarrow> func_decl" where
  "memory_func isStore valueType =
     (let isWord = (valueType = Type_Word);
          storeArgs = [PtrT Array_getType, Type_Word, valueType];
          loadArgs = [PtrT Array_getType, Type_Word];
          name = (if isStore then if isWord then ''mstore'' else ''mstore8'' else ''mload'')
      in if isStore then private_func name VoidT storeArgs [] else private_func name Type_Word loadArgs [])"

definition require_decl :: func_decl where
  "require_decl = private_func ''mem.require'' VoidT [PtrT Array_getType, Type_Word, Type_Word, Type_BytePtr, Type_GasPtr] []"

text \<open>\<^verbatim>\<open>Array.cpp\<close>.\<close>

definition push_decl :: func_decl where
  "push_decl = private_func ''array.push'' VoidT [PtrT Array_getType, Type_Word] [(1, NoCapture)]"

definition set_decl :: func_decl where
  "set_decl = private_func ''array.set'' VoidT [PtrT Array_getType, Type_Size, Type_Word] [(1, NoCapture)]"

definition get_decl :: func_decl where
  "get_decl = private_func ''array.get'' Type_Word [PtrT Array_getType, Type_Size] [(1, NoCapture)]"

definition getPtr_decl :: func_decl where
  "getPtr_decl = private_func ''array.getPtr'' Type_WordPtr [PtrT Array_getType, Type_Size] [(1, NoCapture)]"

definition extend_decl :: func_decl where
  "extend_decl = private_func ''array.extend'' VoidT [PtrT Array_getType, Type_Size] [(1, NoCapture)]"

definition realloc_decl :: func_decl where
  "realloc_decl = \<lparr> fd_name = ''realloc'', fd_ret = Type_BytePtr, fd_params = [Type_BytePtr, Type_Size],
     fd_attrs = [(0, NoAlias), (1, NoCapture)], fd_external = True \<rparr>"

text \<open>\<^verbatim>\<open>Arith256.cpp\<close>.\<close>

definition udivrem_decl :: "lltype \<Rightarrow> string \<Rightarrow> func_decl" where
  "udivrem_decl t funcName = private_func funcName (VecT 2 t) [t, t] []"

definition urem_decl :: "lltype \<Rightarrow> string \<Rightarrow> func_decl" where
  "urem_decl t funcName = private_func funcName t [t, t] []"

definition udiv_decl :: func_decl where
  "udiv_decl = private_func ''evm.udiv.i256'' Type_Word [Type_Word, Type_Word] []"

definition sdivrem_decl :: func_decl where
  "sdivrem_decl = private_func ''evm.sdivrem.i256'' (VecT 2 Type_Word) [Type_Word, Type_Word] []"

definition sdiv_decl :: func_decl where
  "sdiv_decl = private_func ''evm.sdiv.i256'' Type_Word [Type_Word, Type_Word] []"

definition srem_decl :: func_decl where
  "srem_decl = private_func ''evm.srem.i256'' Type_Word [Type_Word, Type_Word] []"

definition exp_decl :: func_decl where
  "exp_decl = private_func ''exp'' Type_Word [Type_Word, Type_Word] []"

definition decl :: "helper \<Rightarrow> func_decl" where
  "decl h =
     (case h of
        H_loadWord \<Rightarrow> memory_func False Type_Word
      | H_storeWord \<Rightarrow> memory_func True Type_Word
      | H_storeByte \<Rightarrow> memory_func True Type_Byte
      | H_require \<Rightarrow> require_decl
      | H_push \<Rightarrow> push_decl
      | H_set \<Rightarrow> set_decl
      | H_getPtr \<Rightarrow> getPtr_decl
      | H_get \<Rightarrow> get_decl
      | H_extend \<Rightarrow> extend_decl
      | H_realloc \<Rightarrow> realloc_decl
      | H_exp \<Rightarrow> exp_decl
      | H_udivrem256 \<Rightarrow> udivrem_decl Type_Word ''evm.udivrem.i256''
      | H_udivrem512 \<Rightarrow> udivrem_decl (IntT 512) ''evm.udivrem.i512''
      | H_udiv256 \<Rightarrow> udiv_decl
      | H_urem256 \<Rightarrow> urem_decl Type_Word ''evm.urem.i256''
      | H_urem512 \<Rightarrow> urem_decl (IntT 512) ''evm.urem.i512''
      | H_sdivrem256 \<Rightarrow> sdivrem_decl
      | H_sdiv256 \<Rightarrow> sdiv_decl
      | H_srem256 \<Rightarrow> srem_decl)"

lemmas helper_decl_defs = decl_def memory_func_def private_func_def require_decl_def push_decl_def set_decl_def get_decl_def
  getPtr_decl_def extend_decl_def realloc_decl_def udivrem_decl_def urem_decl_def udiv_decl_def sdivrem_decl_def sdiv_decl_def
  srem_decl_def exp_decl_def

abbreviation hname :: "helper \<Rightarrow> string" where
  "hname h \<equiv> fd_name (decl h)"

text \<open>Array.free and the function \<^verbatim>\<open>free\<close> that it declares; the compiler does not use it.\<close>

definition array_free_func :: func_decl where
  "array_free_func = private_func ''array.free'' VoidT [PtrT Array_getType] [(1, NoCapture)]"

definition free_func :: "lltype \<Rightarrow> func_decl" where
  "free_func t = \<lparr> fd_name = ''free'', fd_ret = VoidT, fd_params = [t], fd_attrs = [(1, NoCapture)], fd_external = True \<rparr>"

section \<open>Creating them\<close>

record helper_state =
  hs_module :: "func_decl list"
  hs_slots :: "helper \<Rightarrow> func_decl option"

abbreviation names :: "helper_state \<Rightarrow> string set" where
  "names st \<equiv> fd_name ` set (hs_module st)"

text \<open>LLVM gives a function that is created under a taken name another one; \<open>uniq\<close> is its choice.\<close>

type_synonym naming = "string \<Rightarrow> string set \<Rightarrow> string"
type_synonym creator = "helper_state \<Rightarrow> func_decl \<times> helper_state"

definition create_function :: "naming \<Rightarrow> func_decl \<Rightarrow> creator" where
  "create_function uniq d st =
     (let d1 = d\<lparr> fd_name := uniq (fd_name d) (names st) \<rparr> in (d1, st\<lparr> hs_module := hs_module st @ [d1] \<rparr>))"

definition getFunction :: "string \<Rightarrow> helper_state \<Rightarrow> func_decl option" where
  "getFunction name st = List.find (\<lambda>d. fd_name d = name) (hs_module st)"

text \<open>\<^verbatim>\<open>LazyFunction::call\<close>, and the getters of \<^verbatim>\<open>Memory\<close>: a member holds the function once it is created.\<close>

definition lazy :: "helper \<Rightarrow> creator \<Rightarrow> creator" where
  "lazy h m_creator st =
     (case hs_slots st h of
        Some m_func \<Rightarrow> (m_func, st)
      | None \<Rightarrow> (let (m_func, st1) = m_creator st in (m_func, st1\<lparr> hs_slots := (hs_slots st1)(h := Some m_func) \<rparr>)))"

definition by_name :: "helper \<Rightarrow> creator \<Rightarrow> creator" where
  "by_name h creator st = (case getFunction (hname h) st of Some f \<Rightarrow> (f, st) | None \<Rightarrow> creator st)"

text \<open>A function whose body then asks for another, and one that asks for another before.\<close>

definition calling :: "creator \<Rightarrow> creator \<Rightarrow> creator" where
  "calling creator callee st = (let (f, st1) = creator st; (_, st2) = callee st1 in (f, st2))"

definition after_callee :: "creator \<Rightarrow> creator \<Rightarrow> creator" where
  "after_callee callee creator st = (let (_, st1) = callee st in creator st1)"

text \<open>\<^verbatim>\<open>Array.cpp\<close>.\<close>

definition getReallocFunc :: "naming \<Rightarrow> creator" where
  "getReallocFunc uniq = by_name H_realloc (create_function uniq realloc_decl)"

definition createGetPtrFunc :: "naming \<Rightarrow> creator" where
  "createGetPtrFunc uniq = create_function uniq getPtr_decl"

definition createExtendFunc :: "naming \<Rightarrow> creator" where
  "createExtendFunc uniq = calling (create_function uniq extend_decl) (lazy H_realloc (getReallocFunc uniq))"

definition createArrayPushFunc :: "naming \<Rightarrow> creator" where
  "createArrayPushFunc uniq = calling (create_function uniq push_decl) (lazy H_realloc (getReallocFunc uniq))"

definition createArraySetFunc :: "naming \<Rightarrow> creator" where
  "createArraySetFunc uniq = create_function uniq set_decl"

definition createArrayGetFunc :: "naming \<Rightarrow> creator" where
  "createArrayGetFunc uniq = create_function uniq get_decl"

definition createFreeFunc :: "naming \<Rightarrow> creator" where
  "createFreeFunc uniq = calling (create_function uniq array_free_func) (create_function uniq (free_func Type_BytePtr))"

text \<open>\<^verbatim>\<open>Memory.cpp\<close>.\<close>

definition memory_createFunc :: "naming \<Rightarrow> bool \<Rightarrow> lltype \<Rightarrow> creator" where
  "memory_createFunc uniq isStore valueType =
     calling (create_function uniq (memory_func isStore valueType)) (lazy H_getPtr (createGetPtrFunc uniq))"

definition getRequireFunc :: "naming \<Rightarrow> creator" where
  "getRequireFunc uniq = lazy H_require (calling (create_function uniq require_decl) (lazy H_extend (createExtendFunc uniq)))"

definition getLoadWordFunc :: "naming \<Rightarrow> creator" where
  "getLoadWordFunc uniq = lazy H_loadWord (memory_createFunc uniq False Type_Word)"

definition getStoreWordFunc :: "naming \<Rightarrow> creator" where
  "getStoreWordFunc uniq = lazy H_storeWord (memory_createFunc uniq True Type_Word)"

definition getStoreByteFunc :: "naming \<Rightarrow> creator" where
  "getStoreByteFunc uniq = lazy H_storeByte (memory_createFunc uniq True Type_Byte)"

text \<open>The getters of \<^verbatim>\<open>Arith256.cpp\<close>.\<close>

definition get_exp :: "naming \<Rightarrow> creator" where
  "get_exp uniq = lazy H_exp (create_function uniq exp_decl)"

definition get_udivrem256 :: "naming \<Rightarrow> creator" where
  "get_udivrem256 uniq = by_name H_udivrem256 (create_function uniq (udivrem_decl Type_Word ''evm.udivrem.i256''))"

definition get_udivrem512 :: "naming \<Rightarrow> creator" where
  "get_udivrem512 uniq = by_name H_udivrem512 (create_function uniq (udivrem_decl (IntT 512) ''evm.udivrem.i512''))"

definition get_udiv256 :: "naming \<Rightarrow> creator" where
  "get_udiv256 uniq = by_name H_udiv256 (after_callee (get_udivrem256 uniq) (create_function uniq udiv_decl))"

definition get_urem256 :: "naming \<Rightarrow> creator" where
  "get_urem256 uniq = by_name H_urem256 (after_callee (get_udivrem256 uniq) (create_function uniq (urem_decl Type_Word ''evm.urem.i256'')))"

definition get_urem512 :: "naming \<Rightarrow> creator" where
  "get_urem512 uniq = by_name H_urem512 (after_callee (get_udivrem512 uniq) (create_function uniq (urem_decl (IntT 512) ''evm.urem.i512'')))"

definition get_sdivrem256 :: "naming \<Rightarrow> creator" where
  "get_sdivrem256 uniq = by_name H_sdivrem256 (after_callee (get_udivrem256 uniq) (create_function uniq sdivrem_decl))"

definition get_sdiv256 :: "naming \<Rightarrow> creator" where
  "get_sdiv256 uniq = by_name H_sdiv256 (after_callee (get_sdivrem256 uniq) (create_function uniq sdiv_decl))"

definition get_srem256 :: "naming \<Rightarrow> creator" where
  "get_srem256 uniq = by_name H_srem256 (after_callee (get_sdivrem256 uniq) (create_function uniq srem_decl))"

definition request :: "naming \<Rightarrow> helper \<Rightarrow> creator" where
  "request uniq h =
     (case h of
        H_realloc \<Rightarrow> lazy H_realloc (getReallocFunc uniq)
      | H_getPtr \<Rightarrow> lazy H_getPtr (createGetPtrFunc uniq)
      | H_extend \<Rightarrow> lazy H_extend (createExtendFunc uniq)
      | H_push \<Rightarrow> lazy H_push (createArrayPushFunc uniq)
      | H_require \<Rightarrow> getRequireFunc uniq
      | H_loadWord \<Rightarrow> getLoadWordFunc uniq
      | H_storeWord \<Rightarrow> getStoreWordFunc uniq
      | H_storeByte \<Rightarrow> getStoreByteFunc uniq
      | H_udivrem256 \<Rightarrow> get_udivrem256 uniq
      | H_udivrem512 \<Rightarrow> get_udivrem512 uniq
      | H_udiv256 \<Rightarrow> get_udiv256 uniq
      | H_urem256 \<Rightarrow> get_urem256 uniq
      | H_urem512 \<Rightarrow> get_urem512 uniq
      | H_sdivrem256 \<Rightarrow> get_sdivrem256 uniq
      | H_sdiv256 \<Rightarrow> get_sdiv256 uniq
      | H_srem256 \<Rightarrow> get_srem256 uniq
      | H_exp \<Rightarrow> get_exp uniq
      | H_set \<Rightarrow> lazy H_set (createArraySetFunc uniq)
      | H_get \<Rightarrow> lazy H_get (createArrayGetFunc uniq))"

text \<open>A module in which the compiler starts: the main function under its identifier, and what the constructors of
  \<^verbatim>\<open>RuntimeManager\<close> and \<^verbatim>\<open>GasMeter\<close> declare.\<close>

definition main_func :: "string \<Rightarrow> func_decl" where
  "main_func ident = \<lparr> fd_name = ident, fd_ret = Type_MainReturn, fd_params = [PtrT getRuntimeType], fd_attrs = [], fd_external = True \<rparr>"

definition loadTxCtx_func :: func_decl where
  "loadTxCtx_func = private_func ''loadTxCtx'' VoidT [PtrT Type_Bool, PtrT getTxContextType, Type_EnvPtr] []"

definition malloc_func :: func_decl where
  "malloc_func = \<lparr> fd_name = ''malloc'', fd_ret = Type_WordPtr, fd_params = [Type_Size], fd_attrs = [(0, NoAlias)], fd_external = True \<rparr>"

definition gas_check_func :: func_decl where
  "gas_check_func = private_func ''gas.check'' VoidT [Type_GasPtr, Type_Gas, Type_BytePtr] [(1, NoCapture)]"

definition start_state :: "string \<Rightarrow> helper_state" where
  "start_state ident =
     \<lparr> hs_module = [main_func ident, get_tx_context_func, loadTxCtx_func, malloc_func, free_func Type_WordPtr, gas_check_func],
       hs_slots = (\<lambda>_. None) \<rparr>"

fun requests :: "naming \<Rightarrow> helper list \<Rightarrow> helper_state \<Rightarrow> helper_state" where
  "requests uniq [] st = st"
| "requests uniq (h # hs) st = requests uniq hs (snd (request uniq h st))"

section \<open>One function for each helper\<close>

definition lazy_helpers :: "helper set" where
  "lazy_helpers = {H_loadWord, H_storeWord, H_storeByte, H_require, H_push, H_set, H_getPtr, H_get, H_extend, H_realloc, H_exp}"

text \<open>The helpers that the body of a helper calls, and all that it needs.\<close>

fun callees :: "helper \<Rightarrow> helper list" where
  "callees H_loadWord = [H_getPtr]"
| "callees H_storeWord = [H_getPtr]"
| "callees H_storeByte = [H_getPtr]"
| "callees H_require = [H_extend]"
| "callees H_push = [H_realloc]"
| "callees H_extend = [H_realloc]"
| "callees H_udiv256 = [H_udivrem256]"
| "callees H_urem256 = [H_udivrem256]"
| "callees H_urem512 = [H_udivrem512]"
| "callees H_sdivrem256 = [H_udivrem256]"
| "callees H_sdiv256 = [H_sdivrem256]"
| "callees H_srem256 = [H_sdivrem256]"
| "callees _ = []"

definition needs :: "helper \<Rightarrow> helper list" where
  "needs h = h # callees h @ concat (map callees (callees h))"

lemma hname_inject: "hname h = hname h' \<longleftrightarrow> h = h'"
  by (cases h; cases h') (simp_all add: helper_decl_defs type_defs Let_def)

lemma decl_inject: "decl h = decl h' \<longleftrightarrow> h = h'"
  using hname_inject by metis

text \<open>\<open>P\<close> are the helpers that are being created.\<close>

definition helper_inv :: "helper set \<Rightarrow> helper_state \<Rightarrow> bool" where
  "helper_inv P st \<longleftrightarrow>
     distinct (map fd_name (hs_module st)) \<and>
     (\<forall>d \<in> set (hs_module st). \<forall>h. fd_name d = hname h \<longrightarrow> d = decl h) \<and>
     (\<forall>h d. hs_slots st h = Some d \<longrightarrow> d = decl h \<and> d \<in> set (hs_module st)) \<and>
     (\<forall>h \<in> lazy_helpers - P. hs_slots st h = None \<longrightarrow> hname h \<notin> names st) \<and>
     (\<forall>h. h \<notin> P \<longrightarrow> decl h \<in> set (hs_module st) \<longrightarrow> decl ` set (callees h) \<subseteq> set (hs_module st))"

definition uniq_ok :: "naming \<Rightarrow> bool" where
  "uniq_ok uniq \<longleftrightarrow> (\<forall>name N. name \<notin> N \<longrightarrow> uniq name N = name) \<and> (\<forall>name N. finite N \<longrightarrow> uniq name N \<notin> N)"

text \<open>A step that returns the function of \<open>h\<close>, with those of \<open>R\<close> declared at its end, and declares none but those
  of \<open>A\<close>.  It may rely on the functions of \<open>Q\<close>; \<open>new\<close> says that it is only taken if there is none for \<open>h\<close> yet.\<close>

definition made :: "helper set \<Rightarrow> helper set \<Rightarrow> helper set \<Rightarrow> helper \<Rightarrow> helper_state \<Rightarrow> func_decl \<times> helper_state \<Rightarrow> bool" where
  "made P R A h st r \<longleftrightarrow>
     fst r = decl h \<and> helper_inv P (snd r) \<and> decl ` R \<subseteq> set (hs_module (snd r)) \<and>
     set (hs_module st) \<subseteq> set (hs_module (snd r)) \<and> set (hs_module (snd r)) \<subseteq> set (hs_module st) \<union> decl ` A"

definition makes ::
    "bool \<Rightarrow> helper set \<Rightarrow> helper set \<Rightarrow> helper set \<Rightarrow> helper set \<Rightarrow> helper \<Rightarrow> creator \<Rightarrow> bool" where
  "makes new P Q R A h f \<longleftrightarrow>
     (\<forall>st. helper_inv P st \<longrightarrow> decl ` Q \<subseteq> set (hs_module st) \<longrightarrow> (new \<longrightarrow> hname h \<notin> names st) \<longrightarrow> made P R A h st (f st))"

lemma makesI:
  assumes "\<And>st. helper_inv P st \<Longrightarrow> decl ` Q \<subseteq> set (hs_module st) \<Longrightarrow> (new \<Longrightarrow> hname h \<notin> names st) \<Longrightarrow> made P R A h st (f st)"
  shows "makes new P Q R A h f"
  using assms by (auto simp: makes_def)

lemma makesE:
  assumes "makes new P Q R A h f" "helper_inv P st" "decl ` Q \<subseteq> set (hs_module st)" "new \<Longrightarrow> hname h \<notin> names st"
  shows "made P R A h st (f st)"
  using assms unfolding makes_def by blast

lemma makes_create:
  assumes "uniq_ok uniq" "h \<notin> lazy_helpers \<or> h \<in> P" "set (callees h) \<subseteq> Q \<or> h \<in> P"
  shows "makes True P Q {h} {h} h (create_function uniq (decl h))"
proof (rule makesI)
  fix st
  assume inv: "helper_inv P st" and Q: "decl ` Q \<subseteq> set (hs_module st)" and new: "True \<Longrightarrow> hname h \<notin> names st"
  then have u: "uniq (hname h) (names st) = hname h" using assms(1) by (simp add: uniq_ok_def)
  have d: "(decl h)\<lparr> fd_name := hname h \<rparr> = decl h" by simp
  have c: "h \<in> P \<or> decl ` set (callees h) \<subseteq> set (hs_module st)" using assms(3) Q by blast
  have "helper_inv P (st\<lparr> hs_module := hs_module st @ [decl h] \<rparr>)"
    using inv new [OF TrueI] assms(2) c unfolding helper_inv_def
    by (auto simp: hname_inject decl_inject image_subset_iff)
  then show "made P {h} {h} h st (create_function uniq (decl h) st)"
    by (auto simp: made_def create_function_def u d Let_def)
qed

lemma helper_inv_pop:
  assumes "helper_inv (insert h P) st" "decl h \<in> set (hs_module st)" "decl ` set (callees h) \<subseteq> set (hs_module st)"
  shows "helper_inv P (st\<lparr> hs_slots := (hs_slots st)(h := Some (decl h)) \<rparr>)"
proof -
  have "decl ` set (callees k) \<subseteq> set (hs_module st)" if "k \<notin> P" "decl k \<in> set (hs_module st)" for k
    using assms that by (cases "k = h") (simp_all add: helper_inv_def)
  then show ?thesis using assms(1,2) by (simp add: helper_inv_def)
qed

lemma makes_lazy:
  assumes "makes True (insert h P) Q R A h f" "h \<in> lazy_helpers" "h \<notin> P" "h \<in> R" "set (callees h) \<subseteq> R"
  shows "makes False P Q {h} A h (lazy h f)"
proof (rule makesI)
  fix st
  assume inv: "helper_inv P st" and Q: "decl ` Q \<subseteq> set (hs_module st)"
  show "made P {h} A h st (lazy h f st)"
  proof (cases "hs_slots st h")
    case None
    obtain d st1 where f: "f st = (d, st1)" by (rule prod.exhaust)
    have "helper_inv (insert h P) st" "hname h \<notin> names st" using inv None assms(2,3) by (auto simp: helper_inv_def)
    from makesE [OF assms(1) this(1) Q this(2)]
    have m: "made (insert h P) R A h st (d, st1)" by (simp add: f)
    then have "helper_inv (insert h P) st1" "decl h \<in> set (hs_module st1)" "decl ` set (callees h) \<subseteq> set (hs_module st1)" "d = decl h"
      using assms(4,5) by (auto simp: made_def)
    then have "helper_inv P (st1\<lparr> hs_slots := (hs_slots st1)(h := Some d) \<rparr>)"
      using helper_inv_pop by simp
    then show ?thesis using m assms(4) by (auto simp: lazy_def f None made_def)
  next
    case (Some d)
    then show ?thesis using inv by (auto simp: lazy_def helper_inv_def made_def)
  qed
qed

lemma makes_by_name:
  assumes "makes True P Q R A h f" "h \<in> R"
  shows "makes new P Q {h} A h (by_name h f)"
proof (rule makesI)
  fix st
  assume inv: "helper_inv P st" and Q: "decl ` Q \<subseteq> set (hs_module st)"
  show "made P {h} A h st (by_name h f st)"
  proof (cases "getFunction (hname h) st")
    case None
    then have "hname h \<notin> names st" by (auto simp: getFunction_def find_None_iff)
    from makesE [OF assms(1) inv Q this] show ?thesis using assms(2) by (auto simp: by_name_def None made_def)
  next
    case (Some d)
    then have "d \<in> set (hs_module st)" "fd_name d = hname h" by (auto simp: getFunction_def find_Some_iff)
    then show ?thesis using inv by (auto simp: by_name_def Some helper_inv_def made_def)
  qed
qed

lemma made_trans:
  assumes "made P R A h st (d, st1)" "made P S B k st1 (e, st2)"
  shows "made P (R \<union> S) (A \<union> B) h st (d, st2)" "made P (R \<union> S) (A \<union> B) k st (e, st2)"
  using assms unfolding made_def fst_conv snd_conv image_Un by blast+

lemma makes_calling:
  assumes "makes new P Q R A h f" "makes False P {} S B k g"
  shows "makes new P Q (R \<union> S) (A \<union> B) h (calling f g)"
proof (rule makesI)
  fix st
  assume inv: "helper_inv P st" and Q: "decl ` Q \<subseteq> set (hs_module st)" and new: "new \<Longrightarrow> hname h \<notin> names st"
  obtain d st1 where f: "f st = (d, st1)" by (rule prod.exhaust)
  obtain d2 st2 where g: "g st1 = (d2, st2)" by (rule prod.exhaust)
  have m: "made P R A h st (d, st1)" using makesE [OF assms(1) inv Q new] by (simp add: f)
  then have "helper_inv P st1" by (simp add: made_def)
  then have "made P S B k st1 (d2, st2)" using makesE [OF assms(2)] by (simp add: g [symmetric])
  from made_trans(1) [OF m this] show "made P (R \<union> S) (A \<union> B) h st (calling f g st)" by (simp add: calling_def f g)
qed

lemma makes_after:
  assumes "makes False P Q S A k g" "makes True P S R B h f" "h \<notin> A"
  shows "makes True P Q (S \<union> R) (A \<union> B) h (after_callee g f)"
proof (rule makesI)
  fix st
  assume inv: "helper_inv P st" and Q: "decl ` Q \<subseteq> set (hs_module st)" and new: "True \<Longrightarrow> hname h \<notin> names st"
  obtain d st1 where g: "g st = (d, st1)" by (rule prod.exhaust)
  obtain d2 st2 where f: "f st1 = (d2, st2)" by (rule prod.exhaust)
  have m: "made P S A k st (d, st1)" using makesE [OF assms(1) inv Q] by (simp add: g [symmetric])
  then have inv1: "helper_inv P st1" and S: "decl ` S \<subseteq> set (hs_module st1)" and "hname h \<notin> names st1"
    using new assms(3) by (auto simp: made_def hname_inject)
  from makesE [OF assms(2) inv1 S this(3)] have "made P R B h st1 (d2, st2)" by (simp add: f)
  from made_trans(2) [OF m this] show "made P (S \<union> R) (A \<union> B) h st (after_callee g f st)" by (simp add: after_callee_def f g)
qed

text \<open>Each request.\<close>

lemma makes_mono:
  assumes "makes new P Q R A h f" "A \<subseteq> set (needs h)"
  shows "makes new P Q R (set (needs h)) h f"
proof (rule makesI)
  fix st
  assume "helper_inv P st" "decl ` Q \<subseteq> set (hs_module st)" "new \<Longrightarrow> hname h \<notin> names st"
  from makesE [OF assms(1) this] image_mono [OF assms(2), of decl] show "made P R (set (needs h)) h st (f st)"
    unfolding made_def by blast
qed

lemma makes_lazy_leaf:
  assumes "uniq_ok uniq" "h \<notin> P" "h \<in> lazy_helpers" "callees h = []"
  shows "makes False P {} {h} (set (needs h)) h (lazy h (create_function uniq (decl h)))"
  by (rule makes_mono [OF makes_lazy [OF makes_create [OF assms(1)]]]) (use assms in \<open>simp_all add: needs_def\<close>)

lemma needs_self: "h \<in> set (needs h)"
  by (simp add: needs_def)

lemma makes_lazy_calling:
  assumes "uniq_ok uniq" "makes False (insert h P) {} {k} (set (needs k)) k g" "h \<notin> P" "h \<in> lazy_helpers" "callees h = [k]"
    "set (needs k) \<subseteq> set (needs h)"
  shows "makes False P {} {h} (set (needs h)) h (lazy h (calling (create_function uniq (decl h)) g))"
proof -
  have "makes True (insert h P) {} {h} {h} h (create_function uniq (decl h))"
    by (rule makes_create [OF assms(1)]) simp_all
  note m = makes_calling [OF this assms(2)]
  have "makes False P {} {h} ({h} \<union> set (needs k)) h (lazy h (calling (create_function uniq (decl h)) g))"
    by (rule makes_lazy [OF m assms(4,3)]) (simp_all add: assms(5))
  then show ?thesis by (rule makes_mono) (simp add: assms(6) needs_self)
qed

lemma makes_named_leaf:
  assumes "uniq_ok uniq" "h \<notin> lazy_helpers" "callees h = []"
  shows "makes False P {} {h} (set (needs h)) h (by_name h (create_function uniq (decl h)))"
  by (rule makes_mono [OF makes_by_name [OF makes_create [OF assms(1)]]]) (use assms in \<open>simp_all add: needs_def\<close>)

lemma makes_named_after:
  assumes "uniq_ok uniq" "makes False P {} {k} (set (needs k)) k g" "h \<notin> lazy_helpers" "callees h = [k]"
    "set (needs k) \<subseteq> set (needs h)" "h \<notin> set (needs k)"
  shows "makes False P {} {h} (set (needs h)) h (by_name h (after_callee g (create_function uniq (decl h))))"
proof -
  have "makes True P {k} {h} {h} h (create_function uniq (decl h))"
    by (rule makes_create [OF assms(1)]) (simp_all add: assms)
  note m = makes_after [OF assms(2) this assms(6)]
  have "makes False P {} {h} (set (needs k) \<union> {h}) h (by_name h (after_callee g (create_function uniq (decl h))))"
    by (rule makes_by_name [OF m]) simp
  then show ?thesis by (rule makes_mono) (simp add: assms(5) needs_self)
qed

lemma decl_folds:
  "memory_func False Type_Word = decl H_loadWord" "memory_func True Type_Word = decl H_storeWord"
  "memory_func True Type_Byte = decl H_storeByte" "require_decl = decl H_require" "push_decl = decl H_push" "set_decl = decl H_set"
  "getPtr_decl = decl H_getPtr" "get_decl = decl H_get" "extend_decl = decl H_extend" "realloc_decl = decl H_realloc"
  "exp_decl = decl H_exp" "udivrem_decl Type_Word ''evm.udivrem.i256'' = decl H_udivrem256"
  "udivrem_decl (IntT 512) ''evm.udivrem.i512'' = decl H_udivrem512" "udiv_decl = decl H_udiv256"
  "urem_decl Type_Word ''evm.urem.i256'' = decl H_urem256" "urem_decl (IntT 512) ''evm.urem.i512'' = decl H_urem512"
  "sdivrem_decl = decl H_sdivrem256" "sdiv_decl = decl H_sdiv256" "srem_decl = decl H_srem256"
  by (simp_all add: decl_def)

lemma makes_realloc:
  assumes "uniq_ok uniq" "H_realloc \<notin> P"
  shows "makes False P {} {H_realloc} (set (needs H_realloc)) H_realloc (lazy H_realloc (getReallocFunc uniq))"
  unfolding getReallocFunc_def decl_folds
  by (rule makes_mono [OF makes_lazy [OF makes_by_name [OF makes_create [OF assms(1)]]]])
    (use assms(2) in \<open>simp_all add: lazy_helpers_def needs_def\<close>)

lemma makes_request:
  assumes u: "uniq_ok uniq"
  shows "makes False {} {} {h} (set (needs h)) h (request uniq h)"
proof -
  note l = makes_lazy_leaf [OF u] makes_named_leaf [OF u]
  note c = makes_lazy_calling [OF u]
  note n = makes_named_after [OF u]
  have getPtr: "makes False P {} {H_getPtr} (set (needs H_getPtr)) H_getPtr (lazy H_getPtr (createGetPtrFunc uniq))"
    if "H_getPtr \<notin> P" for P
    unfolding createGetPtrFunc_def decl_folds by (rule l(1)) (simp_all add: that lazy_helpers_def)
  have extend: "makes False P {} {H_extend} (set (needs H_extend)) H_extend (lazy H_extend (createExtendFunc uniq))"
    if "H_extend \<notin> P" "H_realloc \<notin> P" for P
    unfolding createExtendFunc_def decl_folds by (rule c [OF makes_realloc [OF u]]) (simp_all add: that lazy_helpers_def needs_def)
  have udivrem: "makes False {} {} {H_udivrem256} (set (needs H_udivrem256)) H_udivrem256 (get_udivrem256 uniq)"
    unfolding get_udivrem256_def decl_folds by (rule l(2)) (simp_all add: lazy_helpers_def)
  have udivrem512: "makes False {} {} {H_udivrem512} (set (needs H_udivrem512)) H_udivrem512 (get_udivrem512 uniq)"
    unfolding get_udivrem512_def decl_folds by (rule l(2)) (simp_all add: lazy_helpers_def)
  have sdivrem: "makes False {} {} {H_sdivrem256} (set (needs H_sdivrem256)) H_sdivrem256 (get_sdivrem256 uniq)"
    unfolding get_sdivrem256_def decl_folds by (rule n [OF udivrem]) (simp_all add: lazy_helpers_def needs_def)
  note defs = request_def getLoadWordFunc_def getStoreWordFunc_def getStoreByteFunc_def memory_createFunc_def getRequireFunc_def get_exp_def createArraySetFunc_def createArrayGetFunc_def decl_folds
    createArrayPushFunc_def get_udiv256_def get_urem256_def get_urem512_def get_sdiv256_def get_srem256_def
  have sub: "set (needs H_getPtr) \<subseteq> set (needs H_loadWord)" "set (needs H_getPtr) \<subseteq> set (needs H_storeWord)"
    "set (needs H_getPtr) \<subseteq> set (needs H_storeByte)" "set (needs H_extend) \<subseteq> set (needs H_require)"
    "set (needs H_realloc) \<subseteq> set (needs H_push)" "set (needs H_udivrem256) \<subseteq> set (needs H_udiv256)"
    "set (needs H_udivrem256) \<subseteq> set (needs H_urem256)" "set (needs H_udivrem512) \<subseteq> set (needs H_urem512)"
    "set (needs H_sdivrem256) \<subseteq> set (needs H_sdiv256)" "set (needs H_sdivrem256) \<subseteq> set (needs H_srem256)"
    by (simp_all add: needs_def)
  have fresh: "h \<notin> set (needs H_udivrem256)" if "h \<noteq> H_udivrem256" for h using that by (simp add: needs_def)
  have fresh512: "h \<notin> set (needs H_udivrem512)" if "h \<noteq> H_udivrem512" for h using that by (simp add: needs_def)
  have freshs: "h \<notin> set (needs H_sdivrem256)" if "h \<noteq> H_sdivrem256" "h \<noteq> H_udivrem256" for h using that by (simp add: needs_def)
  show ?thesis
    by (cases h)
      (simp_all add: defs getPtr extend makes_realloc u udivrem udivrem512 sdivrem l c [OF getPtr] c [OF extend] c [OF makes_realloc [OF u]]
        n [OF udivrem] n [OF udivrem512] n [OF sdivrem] lazy_helpers_def sub fresh fresh512 freshs)
qed

text \<open>Sequences of requests.\<close>

lemma inv_needs:
  assumes "helper_inv {} st" "decl h \<in> set (hs_module st)"
  shows "decl ` set (needs h) \<subseteq> set (hs_module st)"
proof -
  have step: "decl ` set (callees k) \<subseteq> set (hs_module st)" if "decl k \<in> set (hs_module st)" for k
    using assms(1) that by (simp add: helper_inv_def)
  then have "decl k \<in> set (hs_module st)" if "k \<in> set (callees h)" for k using assms(2) that by blast
  then show ?thesis using step assms(2) by (auto simp: needs_def)
qed

lemma requests_made:
  assumes "uniq_ok uniq" "helper_inv {} st"
  shows "helper_inv {} (requests uniq hs st) \<and>
    set (hs_module (requests uniq hs st)) = set (hs_module st) \<union> decl ` (\<Union>h \<in> set hs. set (needs h))"
  using assms(2)
proof (induction hs arbitrary: st)
  case (Cons h hs)
  let ?st = "snd (request uniq h st)"
  have m: "made {} {h} (set (needs h)) h st (request uniq h st)"
    using makesE [OF makes_request [OF assms(1)] Cons.prems] by simp
  then have inv: "helper_inv {} ?st" by (simp add: made_def)
  have "decl ` set (needs h) \<subseteq> set (hs_module ?st)" using m by (intro inv_needs [OF inv]) (simp add: made_def)
  with m have "set (hs_module ?st) = set (hs_module st) \<union> decl ` set (needs h)" unfolding made_def by blast
  then show ?case using Cons.IH [OF inv] by (simp add: image_Un Un_assoc)
qed simp

lemma request_returns: "uniq_ok uniq \<Longrightarrow> helper_inv {} st \<Longrightarrow> fst (request uniq h st) = decl h"
  using makesE [OF makes_request] by (force simp: made_def)

lemma short_hname: "length (hname h) < 64"
  by (cases h) (simp_all add: helper_decl_defs type_defs Let_def)

lemmas start_defs = start_state_def main_func_def get_tx_context_func_def loadTxCtx_func_def malloc_func_def free_func_def
  gas_check_func_def private_func_def

lemma hname_not_start: "hname h \<notin> {''evm.get_tx_context'', ''loadTxCtx'', ''malloc'', ''free'', ''gas.check''}"
  by (cases h) (simp_all add: helper_decl_defs type_defs Let_def)

lemma start_names: "map fd_name (hs_module (start_state ident)) = [ident, ''evm.get_tx_context'', ''loadTxCtx'', ''malloc'', ''free'', ''gas.check'']"
  by (simp add: start_defs)

lemma start_inv:
  assumes "64 \<le> length ident"
  shows "helper_inv {} (start_state ident)"
proof -
  have names: "names (start_state ident) = set [ident, ''evm.get_tx_context'', ''loadTxCtx'', ''malloc'', ''free'', ''gas.check'']"
    unfolding start_names [symmetric] by simp
  have no: "hname h \<notin> names (start_state ident)" for h
    using assms short_hname [of h] hname_not_start [of h] unfolding names by auto
  moreover have "decl h \<notin> set (hs_module (start_state ident))" for h
    using no [of h] by blast
  moreover have "d \<in> set (hs_module (start_state ident)) \<Longrightarrow> fd_name d \<noteq> hname h" for d h
    using no [of h] by (auto dest: sym)
  moreover have "distinct (map fd_name (hs_module (start_state ident)))" using assms unfolding start_names by auto
  moreover have "hs_slots (start_state ident) h = None" for h by (simp add: start_state_def)
  ultimately show ?thesis by (auto simp: helper_inv_def)
qed

text \<open>A choice of names that LLVM's documentation allows.\<close>

definition dotted :: naming where
  "dotted name N = (if name \<in> N then name @ replicate (Suc (Max (length ` N))) (CHR ''.'') else name)"

lemma dotted_ok: "uniq_ok dotted"
proof -
  have "dotted name N \<notin> N" if "finite N" for name N
  proof
    assume "dotted name N \<in> N"
    then have "length (dotted name N) \<le> Max (length ` N)" using that by simp
    moreover have "name \<in> N" using \<open>dotted name N \<in> N\<close> by (auto simp: dotted_def split: if_splits)
    ultimately show False by (simp add: dotted_def)
  qed
  then show ?thesis by (simp add: uniq_ok_def dotted_def)
qed

lemma makeCodeId_length: "length codeHash = 32 \<Longrightarrow> 64 \<le> length (makeCodeId codeHash r flags)"
  using length_hex_string [of codeHash] by (simp add: makeCodeId_def hex_string_def [symmetric])

text \<open>The function that Array.free calls is not the \<^verbatim>\<open>free\<close> of the C library: the name is already taken in every
  module that the compiler builds.\<close>

lemma uniq_fresh: "uniq_ok uniq \<Longrightarrow> name \<notin> N \<Longrightarrow> uniq name N = name"
  by (simp add: uniq_ok_def)

lemma uniq_notin: "uniq_ok uniq \<Longrightarrow> finite N \<Longrightarrow> uniq name N \<notin> N"
  by (simp add: uniq_ok_def)

lemma array_free_renamed:
  assumes "uniq_ok uniq" "''array.free'' \<notin> names st" "''free'' \<in> names st"
  shows "fd_name (last (hs_module (snd (createFreeFunc uniq st)))) \<noteq> ''free''"
proof -
  have "uniq ''free'' (insert ''array.free'' (names st)) \<notin> insert ''array.free'' (names st)"
    by (rule uniq_notin [OF assms(1)]) simp
  then have "uniq ''free'' (insert ''array.free'' (names st)) \<noteq> ''free''"
    by (rule contrapos_nn) (erule ssubst, rule insertI2 [OF assms(3)])
  moreover have "fd_name (last (hs_module (snd (createFreeFunc uniq st)))) = uniq ''free'' (insert ''array.free'' (names st))"
    by (simp add: createFreeFunc_def calling_def create_function_def array_free_func_def free_func_def private_func_def
        uniq_fresh [OF assms(1,2)] Let_def)
  ultimately show ?thesis by simp
qed

section \<open>Properties\<close>

text \<open>C35. Whatever helpers the compiler asks for and in whatever order, the module it builds gets the functions of
  those helpers and of all that their bodies call, each one once, with its declared type, under its own name
  (which LLVM does not change), and nothing else; a later request returns that function.\<close>

theorem helpers_declared_once:
  assumes "uniq_ok uniq" "length codeHash = 32"
  shows "let st0 = start_state (makeCodeId codeHash r flags); st = requests uniq hs st0
    in distinct (map fd_name (hs_module st)) \<and>
       set (hs_module st) = set (hs_module st0) \<union> decl ` (\<Union>h \<in> set hs. set (needs h)) \<and>
       (\<forall>h. fst (request uniq h st) = decl h)"
proof -
  have r: "helper_inv {} (start_state (makeCodeId codeHash r flags))" by (rule start_inv [OF makeCodeId_length [OF assms(2)]])
  note m = requests_made [OF assms(1) r, of hs]
  have inv: "helper_inv {} (requests uniq hs (start_state (makeCodeId codeHash r flags)))" by (rule m [THEN conjunct1])
  then have "distinct (map fd_name (hs_module (requests uniq hs (start_state (makeCodeId codeHash r flags)))))"
    unfolding helper_inv_def by (rule conjunct1)
  with m [THEN conjunct2] request_returns [OF assms(1) inv] show ?thesis unfolding Let_def by blast
qed

lemma helpers_declared_once_witness:
  "let st0 = start_state (makeCodeId (replicate 32 0) EVMC_BYZANTIUM 0); st = requests dotted [H_storeByte, H_require, H_loadWord] st0
   in distinct (map fd_name (hs_module st)) \<and>
      set (hs_module st) = set (hs_module st0) \<union> decl ` {H_storeByte, H_getPtr, H_require, H_extend, H_realloc, H_loadWord}"
  using helpers_declared_once [OF dotted_ok, of "replicate 32 0" EVMC_BYZANTIUM 0 "[H_storeByte, H_require, H_loadWord]"]
  by (simp add: Let_def needs_def insert_commute)

end
