(* ===== verification/Stats.thy ===== *)
theory Stats
  imports Prelude
begin

text \<open>
  \<^verbatim>\<open>libevmjit/ExecStats.cpp\<close>: the times an execution spends in its states, and their aggregation.  The
  clock's readings are arguments; durations are integers.
\<close>

section \<open>The listener\<close>

datatype exec_state = Started | CacheLoad | CacheWrite | Compilation | Optimization | CodeGen | Execution | ReturnState | Finished

definition exec_states :: "exec_state list" where
  "exec_states = [Started, CacheLoad, CacheWrite, Compilation, Optimization, CodeGen, Execution, ReturnState, Finished]"

record exec_stats =
  st_time :: "exec_state \<Rightarrow> int"
  st_state :: exec_state
  st_tp :: int

definition new_stats :: exec_stats where
  "new_stats = \<lparr> st_time = (\<lambda>_. 0), st_state = Started, st_tp = 0 \<rparr>"

text \<open>\<^verbatim>\<open>ExecStats::stateChanged\<close> at the time \<open>now\<close>.\<close>

definition stateChanged :: "int \<Rightarrow> exec_state \<Rightarrow> exec_stats \<Rightarrow> exec_stats" where
  "stateChanged now state s =
     (if st_state s = Finished then s
      else
        (let s1 = (if state \<noteq> Started then s\<lparr> st_time := (st_time s)(st_state s := now - st_tp s) \<rparr> else s)
         in s1\<lparr> st_state := state, st_tp := now \<rparr>))"

fun stateChanges :: "(int \<times> exec_state) list \<Rightarrow> exec_stats \<Rightarrow> exec_stats" where
  "stateChanges [] s = s"
| "stateChanges ((now, state) # es) s = stateChanges es (stateChanged now state s)"

section \<open>Aggregation\<close>

text \<open>\<^verbatim>\<open>duration::max()\<close>.\<close>

definition duration_max :: int where
  "duration_max = 2 ^ 63 - 1"

record stats_agg =
  agg_tot :: int
  agg_min :: int
  agg_max :: int
  agg_count :: nat

definition new_agg :: stats_agg where
  "new_agg = \<lparr> agg_tot = 0, agg_min = duration_max, agg_max = 0, agg_count = 0 \<rparr>"

definition agg_update :: "int \<Rightarrow> stats_agg \<Rightarrow> stats_agg" where
  "agg_update d a =
     a\<lparr> agg_count := agg_count a + 1,
        agg_tot := agg_tot a + d,
        agg_min := (if d < agg_min a then d else agg_min a),
        agg_max := (if d > agg_max a then d else agg_max a) \<rparr>"

text \<open>The columns of \<^verbatim>\<open>output\<close>: total, average, least and greatest; the names of the rows.\<close>

definition agg_output :: "stats_agg \<Rightarrow> int list" where
  "agg_output a = (let avg = agg_tot a div int (agg_count a) in [agg_tot a, avg, agg_min a, agg_max a])"

definition getExecStateName :: "exec_state \<Rightarrow> string" where
  "getExecStateName state =
     (case state of
        Started \<Rightarrow> ''Start''
      | CacheLoad \<Rightarrow> ''CacheLoad''
      | CacheWrite \<Rightarrow> ''CacheWrite''
      | Compilation \<Rightarrow> ''Compilation''
      | Optimization \<Rightarrow> ''Optimization''
      | CodeGen \<Rightarrow> ''CodeGen''
      | Execution \<Rightarrow> ''Execution''
      | ReturnState \<Rightarrow> ''Return''
      | Finished \<Rightarrow> ''Finish'')"

text \<open>\<^verbatim>\<open>StatsCollector\<close>'s table: a row for every state but the last; empty if nothing was collected.\<close>

definition stats_table :: "exec_stats list \<Rightarrow> (string \<times> int list) list" where
  "stats_table stats =
     (if stats = [] then []
      else map (\<lambda>state. (getExecStateName state,
             agg_output (fold (\<lambda>s agg. agg_update (st_time s state) agg) stats new_agg))) (butlast exec_states))"

section \<open>Lemmas\<close>

definition total_time :: "exec_stats \<Rightarrow> int" where
  "total_time s = sum_list (map (st_time s) exec_states)"

lemma sum_list_update:
  assumes "distinct xs" "x \<in> set xs"
  shows "sum_list (map (f(x := v)) xs) = sum_list (map f xs) - f x + (v :: int)"
  using assms
proof (induction xs)
  case (Cons y ys)
  then show ?case by (cases "x = y") (simp_all add: fun_upd_same fun_upd_other del: fun_upd_apply)
qed simp

lemma exec_states_all: "distinct exec_states" "state \<in> set exec_states"
  by (simp add: exec_states_def) (cases state; simp add: exec_states_def)

lemma total_time_update: "total_time (s\<lparr> st_time := (st_time s)(state := d) \<rparr>) = total_time s - st_time s state + d"
  unfolding total_time_def using sum_list_update [OF exec_states_all] by simp

text \<open>Every state is left at most once: the states entered are distinct, and none has a time yet.\<close>

lemma stateChanges_total:
  assumes "distinct (st_state s # map snd es)" "Started \<notin> snd ` set es" "Finished \<notin> set (butlast (map snd es))"
    and "st_state s \<noteq> Finished" "\<forall>state \<in> set (st_state s # map snd es). st_time s state = 0" "es \<noteq> []"
  shows "total_time (stateChanges es s) = total_time s + (fst (last es) - st_tp s) \<and> st_state (stateChanges es s) = snd (last es)"
  using assms
proof (induction es arbitrary: s)
  case (Cons ev es)
  obtain now state where ev: "ev = (now, state)" by fastforce
  let ?s = "stateChanged now state s"
  have s: "?s = s\<lparr> st_time := (st_time s)(st_state s := now - st_tp s), st_state := state, st_tp := now \<rparr>"
    using Cons.prems by (auto simp: ev stateChanged_def)
  have tot: "total_time ?s = total_time s + (now - st_tp s)"
    using Cons.prems(5) total_time_update [of s "st_state s" "now - st_tp s"] by (simp add: s total_time_def)
  show ?case
  proof (cases "es = []")
    case True
    then show ?thesis using tot by (simp add: ev s)
  next
    case False
    have "total_time (stateChanges es ?s) = total_time ?s + (fst (last es) - st_tp ?s) \<and> st_state (stateChanges es ?s) = snd (last es)"
      using Cons.prems False by (intro Cons.IH) (force simp: ev s)+
    then show ?thesis using tot False by (simp add: ev s)
  qed
qed simp

lemma agg_fold:
  assumes "\<forall>d \<in> set ds. 0 \<le> d \<and> d \<le> duration_max" "ds \<noteq> []"
  shows "fold agg_update ds new_agg =
    \<lparr> agg_tot = sum_list ds, agg_min = Min (set ds), agg_max = Max (set ds), agg_count = length ds \<rparr>"
  using assms
proof (induction ds rule: rev_induct)
  case (snoc d ds)
  show ?case
  proof (cases "ds = []")
    case True
    then show ?thesis using snoc.prems by (simp add: agg_update_def new_agg_def)
  next
    case False
    define m M where "m = Min (set ds)" and "M = Max (set ds)"
    have "fold agg_update ds new_agg = \<lparr> agg_tot = sum_list ds, agg_min = m, agg_max = M, agg_count = length ds \<rparr>"
      using snoc False by (simp add: m_def M_def)
    moreover have "Min (set (ds @ [d])) = min d m" "Max (set (ds @ [d])) = max d M"
      using False by (simp_all add: m_def M_def)
    ultimately show ?thesis by (simp add: agg_update_def [of d] min_def max_def)
  qed
qed simp

text \<open>A row of the table, for the times \<open>ts\<close> of its state.\<close>

lemma stats_row:
  assumes "ts = map (\<lambda>s. st_time s state) stats" "stats \<noteq> []" "\<forall>d \<in> set ts. 0 \<le> d \<and> d \<le> duration_max"
  shows "agg_output (fold (\<lambda>s agg. agg_update (st_time s state) agg) stats new_agg) =
    [sum_list ts, sum_list ts div int (length ts), Min (set ts), Max (set ts)]"
proof -
  have "fold (\<lambda>s agg. agg_update (st_time s state) agg) stats new_agg = fold agg_update ts new_agg"
    by (simp add: assms(1) fold_map comp_def)
  then show ?thesis using agg_fold [of ts] assms by (simp add: agg_output_def)
qed

section \<open>All the time is accounted for\<close>

text \<open>
  The statistics account for all the time of an execution.  If the listener is told of every state at
  most once, from "started" on and ending with "finished", the times it has recorded add up to the time
  between the first and the last report, and later reports change nothing.
\<close>

lemma stats_account_for_all_time:
  assumes "distinct (Started # map snd es @ [Finished])"
  shows "total_time (stateChanges ((t0, Started) # es @ [(t1, Finished)]) new_stats) = t1 - t0 \<and>
    stateChanged t2 state (stateChanges ((t0, Started) # es @ [(t1, Finished)]) new_stats) =
      stateChanges ((t0, Started) # es @ [(t1, Finished)]) new_stats"
proof -
  define s0 where "s0 = new_stats\<lparr> st_tp := t0 \<rparr>"
  let ?s = s0
  have first: "stateChanged t0 Started new_stats = s0" by (simp add: s0_def stateChanged_def new_stats_def)
  have "total_time ?s = 0" unfolding s0_def by (simp add: total_time_def new_stats_def exec_states_def)
  moreover have "total_time (stateChanges (es @ [(t1, Finished)]) ?s) = total_time ?s + (fst (last (es @ [(t1, Finished)])) - st_tp ?s) \<and>
      st_state (stateChanges (es @ [(t1, Finished)]) ?s) = snd (last (es @ [(t1, Finished)]))"
    using assms by (intro stateChanges_total) (auto simp: s0_def new_stats_def butlast_append)
  moreover have "st_tp s0 = t0" by (simp add: s0_def)
  ultimately show ?thesis by (simp add: first) (simp add: stateChanged_def)
qed

lemma stats_example:
  "total_time (stateChanges [(100, Started), (130, Execution), (170, ReturnState), (190, Finished)] new_stats) = 90"
  using stats_account_for_all_time [of "[(130, Execution), (170, ReturnState)]" 100 190] by simp

end
